(* ===== verification/Prelude.thy ===== *)
theory Prelude
  imports Complex_Main "HOL-Library.Log_Nat"
begin

text \<open>
  Shared vocabulary of the development: Go's 64-bit integers and durations, wall-clock
  instants, and the generic lemmas the component theories use.

  \<^item> A Go \<open>int\<close>, \<open>int64\<close> or \<open>time.Duration\<close> is an \<open>int\<close> of the logic; every operation
    whose result can leave the 64-bit range wraps it with \<open>i64\<close> (two's complement), and
    unsigned arithmetic wraps with \<open>u64\<close>.
  \<^item> A \<open>time.Time\<close> is its instant: nanoseconds since the Unix epoch, an unbounded \<open>int\<close>
    (Go keeps 64-bit seconds, whose range no run reaches). \<open>t.Sub(u)\<close> saturates to the
    \<open>Duration\<close> range, as the library documents; \<open>t.Add(d)\<close> is addition.
\<close>

named_theorems bounds_simps \<open>range facts of machine integers\<close>

section \<open>Machine integers\<close>

type_synonym duration = int
type_synonym instant = int

definition int64_min :: int where "int64_min = - (2 ^ 63)"

definition int64_max :: int where "int64_max = 2 ^ 63 - 1"

definition in_i64 :: "int \<Rightarrow> bool" where
  "in_i64 n \<longleftrightarrow> int64_min \<le> n \<and> n \<le> int64_max"

definition i64 :: "int \<Rightarrow> int" where
  "i64 n = (n + 2 ^ 63) mod 2 ^ 64 - 2 ^ 63"

definition u64 :: "int \<Rightarrow> int" where
  "u64 n = n mod 2 ^ 64"

lemma i64_range [bounds_simps]: "in_i64 (i64 n)"
  by (simp add: in_i64_def i64_def int64_min_def int64_max_def)

lemma i64_id: "in_i64 n \<Longrightarrow> i64 n = n"
  by (simp add: in_i64_def i64_def int64_min_def int64_max_def)

lemma in_i64_numeral: "in_i64 n \<longleftrightarrow> - 9223372036854775808 \<le> n \<and> n \<le> 9223372036854775807"
  by (simp add: in_i64_def int64_min_def int64_max_def)

lemma i64_small: "- 9223372036854775808 \<le> n \<Longrightarrow> n \<le> 9223372036854775807 \<Longrightarrow> i64 n = n"
  by (simp add: i64_def)

lemma u64_range [bounds_simps]: "0 \<le> u64 n \<and> u64 n < 2 ^ 64"
  by (simp add: u64_def)

lemma u64_small: "0 \<le> n \<Longrightarrow> n < 2 ^ 64 \<Longrightarrow> u64 n = n"
  by (simp add: u64_def)

section \<open>Go's truncating division\<close>

definition quot :: "int \<Rightarrow> int \<Rightarrow> int" where
  "quot a b = sgn a * sgn b * (\<bar>a\<bar> div \<bar>b\<bar>)"

lemma quot_pos: "0 \<le> a \<Longrightarrow> 0 < b \<Longrightarrow> quot a b = a div b"
  by (cases "a = 0") (simp_all add: quot_def)

definition go_rem :: "int \<Rightarrow> int \<Rightarrow> int" where
  "go_rem a b = a - quot a b * b"

lemma go_rem_pos: "0 \<le> a \<Longrightarrow> 0 < b \<Longrightarrow> go_rem a b = a mod b"
  by (simp add: go_rem_def quot_pos minus_div_mult_eq_mod)

lemma quot_neg_le: "a < 0 \<Longrightarrow> 0 < b \<Longrightarrow> quot a b \<le> 0"
  by (simp add: quot_def pos_imp_zdiv_nonneg_iff)

section \<open>Durations and instants\<close>

definition nanosecond :: duration where "nanosecond = 1"
definition microsecond :: duration where "microsecond = 1000"
definition millisecond :: duration where "millisecond = 1000000"
definition second :: duration where "second = 1000000000"
definition minute :: duration where "minute = 60 * second"
definition hour :: duration where "hour = 60 * minute"

lemmas time_units =
  nanosecond_def microsecond_def millisecond_def second_def minute_def hour_def

definition sat64 :: "int \<Rightarrow> int" where
  "sat64 n = max int64_min (min int64_max n)"

definition time_sub :: "instant \<Rightarrow> instant \<Rightarrow> duration" where
  "time_sub t u = sat64 (t - u)"

definition time_add :: "instant \<Rightarrow> duration \<Rightarrow> instant" where
  "time_add t d = t + d"

definition zero_time :: instant where
  "zero_time = - 62135596800 * 1000000000"

lemma sat64_range [bounds_simps]: "in_i64 (sat64 n)"
  by (simp add: sat64_def in_i64_def int64_min_def int64_max_def)

lemma sat64_id: "in_i64 n \<Longrightarrow> sat64 n = n"
  by (simp add: sat64_def in_i64_def)

lemma sat64_mono: "a \<le> b \<Longrightarrow> sat64 a \<le> sat64 b"
  by (simp add: sat64_def)

lemma time_sub_self [simp]: "time_sub t t = 0"
  by (simp add: time_sub_def sat64_def int64_min_def int64_max_def)

lemma time_sub_nonneg: "u \<le> t \<Longrightarrow> 0 \<le> time_sub t u"
  using sat64_mono [of 0 "t - u"]
  by (simp add: time_sub_def sat64_def int64_min_def int64_max_def)

lemma time_sub_pos_iff: "0 < time_sub t u \<longleftrightarrow> u < t"
  by (auto simp: time_sub_def sat64_def int64_min_def int64_max_def)

lemma time_sub_mono: "t \<le> t' \<Longrightarrow> time_sub t u \<le> time_sub t' u"
  by (simp add: time_sub_def sat64_mono)

lemma time_sub_le: "u \<le> t \<Longrightarrow> time_sub t u \<le> t - u"
  by (simp add: time_sub_def sat64_def int64_min_def int64_max_def)

lemma time_sub_ge_iff: "in_i64 d \<Longrightarrow> 0 < d \<Longrightarrow> d \<le> time_sub t u \<longleftrightarrow> u + d \<le> t"
  by (auto simp: time_sub_def sat64_def in_i64_def int64_min_def int64_max_def)

section \<open>Lists, maps and options\<close>

text \<open>The loop \<open>for i, x := range xs\<close> with its index.\<close>

definition enumerate_from :: "nat \<Rightarrow> 'a list \<Rightarrow> (nat \<times> 'a) list" where
  "enumerate_from k xs = zip [k ..< k + length xs] xs"

lemma enumerate_from_Nil [simp]: "enumerate_from k [] = []"
  by (simp add: enumerate_from_def)

lemma enumerate_from_Cons [simp]:
  "enumerate_from k (x # xs) = (k, x) # enumerate_from (Suc k) xs"
  by (simp add: enumerate_from_def upt_conv_Cons del: upt_Suc)

lemma set_enumerate_from:
  "p \<in> set (enumerate_from k xs) \<longleftrightarrow> (\<exists>i < length xs. p = (k + i, xs ! i))"
proof (induction xs arbitrary: k)
  case Nil
  then show ?case by simp
next
  case (Cons x xs)
  have "(\<exists>i < length (x # xs). p = (k + i, (x # xs) ! i)) \<longleftrightarrow>
      p = (k, x) \<or> (\<exists>i < length xs. p = (Suc k + i, xs ! i))"
    by (auto simp: less_Suc_eq_0_disj)
  then show ?case using Cons.IH [of "Suc k"] by simp
qed

lemma find_map: "List.find P (map f xs) = map_option f (List.find (P \<circ> f) xs)"
  by (induction xs) simp_all

lemma find_Some_iff_first:
  "List.find P xs = Some x \<Longrightarrow> P x \<and> x \<in> set xs"
  by (auto simp: find_Some_iff)

lemma in_set_update: "p \<in> set (xs[i := v]) \<Longrightarrow> p = v \<or> p \<in> set xs"
  by (meson insertE set_update_subset_insert subsetD)

text \<open>How many goroutines of a system are at a kind of program point.\<close>

definition count_if :: "('a \<Rightarrow> bool) \<Rightarrow> 'a list \<Rightarrow> int" where
  "count_if P xs = int (length (filter P xs))"

lemma count_if_update:
  "i < length xs \<Longrightarrow>
   count_if P (xs[i := v]) = count_if P xs - (if P (xs ! i) then 1 else 0) + (if P v then 1 else 0)"
proof (induction xs arbitrary: i)
  case Nil
  then show ?case by simp
next
  case (Cons x xs)
  show ?case
  proof (cases i)
    case 0
    then show ?thesis by (simp add: count_if_def)
  next
    case (Suc k)
    then show ?thesis using Cons.IH [of k] Cons.prems by (auto simp: count_if_def split: if_splits)
  qed
qed

lemma count_if_nonneg: "0 \<le> count_if P xs"
  by (simp add: count_if_def)

lemma count_if_pos: "i < length xs \<Longrightarrow> P (xs ! i) \<Longrightarrow> 0 < count_if P xs"
  by (auto simp: count_if_def filter_empty_conv)

lemma count_if_append [simp]: "count_if P (xs @ ys) = count_if P xs + count_if P ys"
  by (simp add: count_if_def)

lemma count_if_simps [simp]:
  "count_if P [] = 0" "count_if P (x # xs) = (if P x then 1 else 0) + count_if P xs"
  by (simp_all add: count_if_def)

lemma count_if_0: "count_if P xs = 0 \<longleftrightarrow> list_all (\<lambda>x. \<not> P x) xs"
  by (induction xs) (auto simp: count_if_def)

end
