(* ===== verification/Float64.thy ===== *)
theory Float64
  imports Prelude
begin

text \<open>
  Go's \<open>float64\<close>: IEEE-754 binary64 with round-to-nearest, ties to even.

  A value is a finite rational, an infinity or NaN. Every arithmetic operation computes
  the exact rational result and rounds it once with \<open>rnd\<close>, as the standard requires:
  53 significant bits, the subnormal grid \<open>2 powi -1074\<close>, overflow to an infinity. The
  comparisons are the IEEE ones, so every comparison with NaN is false. The two zeros are
  one value: the program never divides by a float that can be a negative zero and never
  prints one, so their difference is not observable in it.

  All definitions compute, so concrete float expressions of the program are evaluated by
  the kernel.
\<close>

section \<open>Rounding a rational to the binary64 grid\<close>

definition round_even :: "rat \<Rightarrow> int" where
  "round_even x =
     (let f = \<lfloor>x\<rfloor>; d = x - of_int f
      in if d < 1 / 2 then f else if 1 / 2 < d then f + 1 else if even f then f else f + 1)"

definition ilog2 :: "rat \<Rightarrow> int" where
  "ilog2 x = (if 1 \<le> x then bitlen \<lfloor>x\<rfloor> - 1 else - bitlen (\<lceil>1 / x\<rceil> - 1))"

definition grid_exp :: "rat \<Rightarrow> int" where
  "grid_exp x = max (ilog2 \<bar>x\<bar> - 52) (- 1074)"

definition rnd :: "rat \<Rightarrow> rat" where
  "rnd x = (if x = 0 then 0
            else of_int (round_even (x / 2 powi grid_exp x)) * 2 powi grid_exp x)"

lemma round_even_cases: "round_even x = \<lfloor>x\<rfloor> \<or> round_even x = \<lfloor>x\<rfloor> + 1"
  by (simp add: round_even_def Let_def)

lemma round_even_of_int [simp]: "round_even (of_int n) = n"
  by (simp add: round_even_def)

lemma round_even_mono:
  assumes "x \<le> y" shows "round_even x \<le> round_even y"
proof (cases "\<lfloor>x\<rfloor> = \<lfloor>y\<rfloor>")
  case True
  then have "x - of_int \<lfloor>x\<rfloor> \<le> y - of_int \<lfloor>y\<rfloor>" using assms by simp
  with True show ?thesis by (auto simp: round_even_def Let_def)
next
  case False
  with floor_mono [OF assms] have "\<lfloor>x\<rfloor> + 1 \<le> \<lfloor>y\<rfloor>" by linarith
  with round_even_cases [of x] round_even_cases [of y] show ?thesis by linarith
qed

lemma round_even_ge: "of_int m \<le> x \<Longrightarrow> m \<le> round_even x"
  using round_even_mono [of "of_int m" x] by simp

lemma round_even_le: "x \<le> of_int m \<Longrightarrow> round_even x \<le> m"
  using round_even_mono [of x "of_int m"] by simp

lemma round_even_near:
  assumes "of_int m - 1 / 2 < x" "x < of_int m + 1 / 2"
  shows "round_even x = m"
proof (cases "of_int m \<le> x")
  case True
  then have "\<lfloor>x\<rfloor> = m" using assms by (intro floor_unique) linarith+
  then show ?thesis using assms by (simp add: round_even_def)
next
  case False
  then have fl: "\<lfloor>x\<rfloor> = m - 1" using assms by (intro floor_unique) (simp_all; linarith)+
  have "1 / 2 < x - of_int (m - 1)" using assms by simp
  then show ?thesis by (simp add: round_even_def fl)
qed

lemma round_even_minus: "round_even (- x) = - round_even x"
proof (cases "x = of_int \<lfloor>x\<rfloor>")
  case True
  then show ?thesis by (metis of_int_minus round_even_of_int)
next
  case False
  have fl: "\<lfloor>- x\<rfloor> = - \<lfloor>x\<rfloor> - 1"
    using False by (simp add: floor_minus ceiling_altdef)
  show ?thesis
    unfolding round_even_def Let_def fl by auto
qed

lemma ilog2_bounds:
  assumes "0 < x"
  shows "2 powi ilog2 x \<le> x \<and> x < 2 powi (ilog2 x + 1)"
proof (cases "1 \<le> x")
  case True
  then have pos: "0 < \<lfloor>x\<rfloor>" by linarith
  have b: "2 ^ nat (bitlen \<lfloor>x\<rfloor> - 1) \<le> \<lfloor>x\<rfloor> \<and> \<lfloor>x\<rfloor> < 2 ^ nat (bitlen \<lfloor>x\<rfloor>)"
    by (rule bitlen_bounds [OF pos])
  have bl: "0 < bitlen \<lfloor>x\<rfloor>"
    using pos bitlen_nonneg [of "\<lfloor>x\<rfloor>"] bitlen_eq_zero_iff [of "\<lfloor>x\<rfloor>"] by linarith
  have lo: "(2::rat) ^ nat (bitlen \<lfloor>x\<rfloor> - 1) \<le> x"
    using conjunct1 [OF b, unfolded le_floor_iff] by simp
  have hi: "x < (2::rat) ^ nat (bitlen \<lfloor>x\<rfloor>)"
    using conjunct2 [OF b, unfolded floor_less_iff] by simp
  show ?thesis using True lo hi bl by (simp add: ilog2_def power_int_def)
next
  case False
  define n where "n = \<lceil>1 / x\<rceil> - 1"
  have y1: "1 < 1 / x" using False assms by (simp add: less_divide_eq)
  then have n1: "0 < n" unfolding n_def by linarith
  have b: "2 ^ nat (bitlen n - 1) \<le> n \<and> n < 2 ^ nat (bitlen n)" by (rule bitlen_bounds [OF n1])
  have bl: "0 < bitlen n"
    using n1 bitlen_nonneg [of n] bitlen_eq_zero_iff [of n] by linarith
  have ny: "of_int n < 1 / x" "1 / x \<le> of_int n + 1"
    unfolding n_def using ceiling_correct [of "1 / x"] by simp_all
  have "(2::rat) ^ nat (bitlen n - 1) \<le> of_int n"
    using of_int_le_iff [where 'a = rat, THEN iffD2, OF conjunct1 [OF b]] by simp
  then have lo: "(2::rat) ^ nat (bitlen n - 1) < 1 / x" using ny(1) by linarith
  have "n + 1 \<le> 2 ^ nat (bitlen n)" using conjunct2 [OF b] by simp
  then have "of_int n + 1 \<le> (2::rat) ^ nat (bitlen n)"
    using of_int_le_iff [where 'a = rat, of "n + 1" "2 ^ nat (bitlen n)"] by simp
  then have hi: "1 / x \<le> (2::rat) ^ nat (bitlen n)" using ny(2) by linarith
  have "2 powi (- bitlen n) \<le> x" using hi assms bl
    by (simp add: power_int_def divide_simps power_one_over mult.commute)
  moreover have "x < 2 powi (1 - bitlen n)"
  proof -
    have "x * (2::rat) ^ nat (bitlen n - 1) < 1" using lo assms by (simp add: field_simps)
    then have "x < 1 / (2::rat) ^ nat (bitlen n - 1)" by (simp add: less_divide_eq)
    moreover have "(2::rat) powi (1 - bitlen n) = 1 / 2 ^ nat (bitlen n - 1)"
      using bl power_int_minus_divide [of "2::rat" "bitlen n - 1"] by (simp add: power_int_def)
    ultimately show ?thesis by simp
  qed
  ultimately show ?thesis using False by (simp add: ilog2_def n_def [symmetric] add.commute)
qed

lemma ilog2_mono:
  assumes "0 < x" "x \<le> y" shows "ilog2 x \<le> ilog2 y"
proof (rule ccontr)
  assume "\<not> ilog2 x \<le> ilog2 y"
  then have "(2::rat) powi (ilog2 y + 1) \<le> 2 powi ilog2 x" by (intro power_int_increasing) auto
  with ilog2_bounds [of x] ilog2_bounds [of y] assms show False by linarith
qed

lemma powi2_pos [simp]: "0 < (2::rat) powi k"
  by (simp add: zero_less_power_int)

lemma grid_exp_minus [simp]: "grid_exp (- x) = grid_exp x"
  by (simp add: grid_exp_def)

lemma rnd_minus: "rnd (- x) = - rnd x"
  by (simp add: rnd_def round_even_minus)

lemma rnd_0 [simp]: "rnd 0 = 0"
  by (simp add: rnd_def)

lemma grid_exp_mono: "0 < x \<Longrightarrow> x \<le> y \<Longrightarrow> grid_exp x \<le> grid_exp y"
  using ilog2_mono [of x y] by (simp add: grid_exp_def)

lemma rnd_nonneg: "0 \<le> x \<Longrightarrow> 0 \<le> rnd x"
  using round_even_ge [of 0 "x / 2 powi grid_exp x"]
  by (auto simp: rnd_def intro!: mult_nonneg_nonneg)

lemma rnd_mono_pos:
  assumes "0 < x" "x \<le> y" shows "rnd x \<le> rnd y"
proof (cases "grid_exp x = grid_exp y")
  case True
  have "x / 2 powi grid_exp y \<le> y / 2 powi grid_exp y"
    using assms by (intro divide_right_mono) (auto intro: less_imp_le)
  then have "round_even (x / 2 powi grid_exp y) \<le> round_even (y / 2 powi grid_exp y)"
    by (rule round_even_mono)
  then show ?thesis using True assms by (simp add: rnd_def mult_right_mono)
next
  case False
  let ?kx = "grid_exp x" and ?ky = "grid_exp y"
  have kk: "?kx < ?ky" using grid_exp_mono [OF assms] False by simp
  then have ky: "?ky = ilog2 y - 52" using assms by (auto simp: grid_exp_def)
  have "ilog2 x < ilog2 y"
    using kk ky assms by (auto simp: grid_exp_def)
  then have "x < 2 powi (?ky + 52)"
    using ilog2_bounds [of x] assms ky
      power_int_increasing [of "ilog2 x + 1" "ilog2 y" "2::rat"] by simp
  moreover have "(2::rat) powi (?ky + 52) = 2 powi (?ky + 52 - ?kx) * 2 powi ?kx"
    by (simp add: power_int_add [symmetric])
  ultimately have "x / 2 powi ?kx < of_int (2 ^ nat (?ky + 52 - ?kx))"
    using kk by (simp add: divide_less_eq power_int_nonneg_exp)
  then have "round_even (x / 2 powi ?kx) \<le> 2 ^ nat (?ky + 52 - ?kx)"
    by (intro round_even_le) simp
  then have "(of_int (round_even (x / 2 powi ?kx)) :: rat) \<le> of_int (2 ^ nat (?ky + 52 - ?kx))"
    by (simp only: of_int_le_iff)
  then have "rnd x \<le> 2 powi (?ky + 52 - ?kx) * 2 powi ?kx"
    using kk assms by (simp add: rnd_def power_int_nonneg_exp mult_right_mono)
  also have "\<dots> = of_int (2 ^ 52) * 2 powi ?ky"
    using kk by (simp add: power_int_add [symmetric] power_int_add)
  also have "\<dots> \<le> rnd y"
  proof -
    have "2 powi (?ky + 52) \<le> y" using ilog2_bounds [of y] assms ky by simp
    then have "of_int (2 ^ 52) \<le> y / 2 powi ?ky"
      by (simp add: le_divide_eq power_int_add mult.commute)
    then have "2 ^ 52 \<le> round_even (y / 2 powi ?ky)" by (rule round_even_ge)
    then have "(of_int (2 ^ 52) :: rat) \<le> of_int (round_even (y / 2 powi ?ky))"
      by (simp only: of_int_le_iff)
    then show ?thesis using assms by (simp add: rnd_def mult_right_mono)
  qed
  finally show ?thesis .
qed

theorem rnd_mono: "x \<le> y \<Longrightarrow> rnd x \<le> rnd y"
proof -
  assume le: "x \<le> y"
  consider "0 < x" | "x \<le> 0" "0 \<le> y" | "y < 0" by linarith
  then show ?thesis
  proof cases
    case 1 then show ?thesis using le by (rule rnd_mono_pos)
  next
    case 2
    then show ?thesis using rnd_nonneg [of "- x"] rnd_nonneg [of y] by (simp add: rnd_minus)
  next
    case 3
    then show ?thesis using rnd_mono_pos [of "- y" "- x"] le by (simp add: rnd_minus)
  qed
qed

text \<open>A value with at most 53 significant bits, on the grid, is not changed by rounding.\<close>

lemma rnd_grid:
  assumes "x = of_int m * 2 powi k" "\<bar>m\<bar> < 2 ^ 53" "- 1074 \<le> k"
  shows "rnd x = x"
proof (cases "m = 0")
  case True then show ?thesis using assms by simp
next
  case False
  have ax: "\<bar>x\<bar> = of_int \<bar>m\<bar> * 2 powi k" using assms(1) by (simp add: abs_mult)
  have pos: "0 < \<bar>x\<bar>" using assms(1) False by simp
  have "(of_int \<bar>m\<bar> :: rat) < of_int (2 ^ 53)" using assms(2) by (simp only: of_int_less_iff)
  then have "\<bar>x\<bar> < 2 powi (k + 53)"
    unfolding ax by (simp add: power_int_add mult.commute)
  with ilog2_bounds [OF pos] have "(2::rat) powi ilog2 \<bar>x\<bar> < 2 powi (k + 53)" by linarith
  then have "ilog2 \<bar>x\<bar> < k + 53"
    using power_int_increasing [of "k + 53" "ilog2 \<bar>x\<bar>" "2::rat"] by (rule_tac ccontr) simp
  then have le: "grid_exp x \<le> k" using assms(3) by (simp add: grid_exp_def)
  have "x / 2 powi grid_exp x = of_int m * 2 powi (k - grid_exp x)"
    using assms(1) by (simp add: power_int_diff)
  also have "\<dots> = of_int (m * 2 ^ nat (k - grid_exp x))"
    using le by (simp add: power_int_nonneg_exp)
  finally have "round_even (x / 2 powi grid_exp x) = m * 2 ^ nat (k - grid_exp x)"
    by (simp only: round_even_of_int)
  then have "rnd x = of_int m * 2 ^ nat (k - grid_exp x) * 2 powi grid_exp x"
    using pos by (simp add: rnd_def)
  also have "\<dots> = x"
    using le assms(1) by (simp add: power_int_nonneg_exp [symmetric] power_int_add [symmetric] mult.assoc)
  finally show ?thesis .
qed

text \<open>Evaluation: the exponent of a concrete value is found by its two bounds.\<close>

lemma ilog2_unique:
  assumes "2 powi e \<le> x" "x < 2 powi (e + 1)" shows "ilog2 x = e"
proof -
  have pos: "0 < x" using assms(1) less_le_trans [OF powi2_pos] by blast
  have "\<not> ilog2 x + 1 \<le> e"
    using power_int_increasing [of "ilog2 x + 1" e "2::rat"] ilog2_bounds [OF pos] assms by auto
  moreover have "\<not> e + 1 \<le> ilog2 x"
    using power_int_increasing [of "e + 1" "ilog2 x" "2::rat"] ilog2_bounds [OF pos] assms by auto
  ultimately show ?thesis by linarith
qed

lemma rnd_eval:
  assumes "2 powi (k + 52) \<le> x" "x < 2 powi (k + 53)" "- 1074 \<le> k"
    and "of_int m - 1 / 2 < x / 2 powi k" "x / 2 powi k < of_int m + 1 / 2"
  shows "rnd x = of_int m * 2 powi k"
proof -
  have pos: "0 < x" using assms(1) less_le_trans [OF powi2_pos] by blast
  have "ilog2 x = k + 52" using assms(1,2) by (intro ilog2_unique) (simp_all add: add.assoc)
  then have g: "grid_exp x = k" using assms(3) pos by (simp add: grid_exp_def)
  have "round_even (x / 2 powi k) = m"
    using assms(4,5) by (rule round_even_near)
  then show ?thesis using pos g by (simp add: rnd_def)
qed

lemma rnd_of_int: "\<bar>m\<bar> < 2 ^ 53 \<Longrightarrow> rnd (of_int m) = of_int m"
  using rnd_grid [of "of_int m" m 0] by simp

lemma rnd_of_int_bounds:
  assumes "\<bar>m\<bar> < 2 ^ 53"
  shows "of_int m \<le> x \<Longrightarrow> of_int m \<le> rnd x" and "x \<le> of_int m \<Longrightarrow> rnd x \<le> of_int m"
  using rnd_mono [of "of_int m" x] rnd_mono [of x "of_int m"] rnd_of_int [OF assms] by simp_all

lemma rnd_idem: "rnd (rnd x) = rnd x"
proof (cases "x = 0")
  case True then show ?thesis by simp
next
  case False
  let ?k = "grid_exp x" and ?m = "round_even (x / 2 powi grid_exp x)"
  have ax: "\<bar>x\<bar> < 2 powi (?k + 53)"
  proof -
    have "ilog2 \<bar>x\<bar> + 1 \<le> ?k + 53" by (simp add: grid_exp_def)
    then have "(2::rat) powi (ilog2 \<bar>x\<bar> + 1) \<le> 2 powi (?k + 53)"
      by (intro power_int_increasing) auto
    then show ?thesis using ilog2_bounds [of "\<bar>x\<bar>"] False by simp
  qed
  then have "\<bar>x\<bar> < 2 ^ 53 * 2 powi ?k"
    by (simp add: power_int_add mult.commute)
  then have "x \<le> 2 ^ 53 * 2 powi ?k" "- (2 ^ 53) * 2 powi ?k \<le> x" by linarith+
  then have b: "- of_int (2 ^ 53) \<le> x / 2 powi ?k" "x / 2 powi ?k \<le> of_int (2 ^ 53)"
    by (simp_all add: divide_le_eq le_divide_eq)
  have m: "\<bar>?m\<bar> \<le> 2 ^ 53"
    using round_even_ge [of "- (2 ^ 53)" "x / 2 powi ?k"] round_even_le [OF b(2)] b(1) by simp
  have r: "rnd x = of_int ?m * 2 powi ?k" using False by (simp add: rnd_def)
  have k: "- 1074 \<le> ?k" by (simp add: grid_exp_def)
  show ?thesis
  proof (cases "\<bar>?m\<bar> < 2 ^ 53")
    case True then show ?thesis using rnd_grid [OF r True k] by simp
  next
    case False
    then have "?m = sgn ?m * 2 ^ 53" using m by (auto simp: sgn_if abs_if split: if_splits)
    then have "rnd x = of_int (sgn ?m * 2 ^ 52) * 2 powi (?k + 1)"
      unfolding r by (subst \<open>?m = sgn ?m * 2 ^ 53\<close>) (simp add: power_int_add)
    moreover have "\<bar>sgn ?m * 2 ^ 52\<bar> < (2 ^ 53 :: int)" by (simp add: abs_mult sgn_if)
    ultimately show ?thesis using rnd_grid k by fastforce
  qed
qed

section \<open>Values and operations\<close>

datatype f64 = Fin rat | PInf | NInf | NaN

definition f64_limit :: rat where "f64_limit = 2 ^ 1024"

definition f64_of_rat :: "rat \<Rightarrow> f64" where
  "f64_of_rat x =
     (let y = rnd x in if f64_limit \<le> y then PInf else if y \<le> - f64_limit then NInf else Fin y)"

text \<open>The conversion \<open>float64(n)\<close> of an integer, rounded.\<close>

definition f64_of_int :: "int \<Rightarrow> f64" where
  "f64_of_int n = f64_of_rat (of_int n)"

fun f_lt :: "f64 \<Rightarrow> f64 \<Rightarrow> bool" where
  "f_lt NaN _ = False"
| "f_lt _ NaN = False"
| "f_lt (Fin a) (Fin b) = (a < b)"
| "f_lt PInf _ = False"
| "f_lt _ NInf = False"
| "f_lt _ _ = True"

fun f_eq :: "f64 \<Rightarrow> f64 \<Rightarrow> bool" where
  "f_eq (Fin a) (Fin b) = (a = b)"
| "f_eq PInf PInf = True"
| "f_eq NInf NInf = True"
| "f_eq _ _ = False"

definition f_le :: "f64 \<Rightarrow> f64 \<Rightarrow> bool" where
  "f_le a b \<longleftrightarrow> f_lt a b \<or> f_eq a b"

fun f_neg :: "f64 \<Rightarrow> f64" where
  "f_neg (Fin a) = Fin (- a)"
| "f_neg PInf = NInf"
| "f_neg NInf = PInf"
| "f_neg NaN = NaN"

fun f_add :: "f64 \<Rightarrow> f64 \<Rightarrow> f64" where
  "f_add (Fin a) (Fin b) = f64_of_rat (a + b)"
| "f_add NaN _ = NaN"
| "f_add _ NaN = NaN"
| "f_add PInf NInf = NaN"
| "f_add NInf PInf = NaN"
| "f_add (Fin _) y = y"
| "f_add x _ = x"

definition f_sub :: "f64 \<Rightarrow> f64 \<Rightarrow> f64" where
  "f_sub a b = f_add a (f_neg b)"

fun f_mul :: "f64 \<Rightarrow> f64 \<Rightarrow> f64" where
  "f_mul (Fin a) (Fin b) = f64_of_rat (a * b)"
| "f_mul NaN _ = NaN"
| "f_mul _ NaN = NaN"
| "f_mul (Fin a) y = (if a = 0 then NaN else if 0 < a then y else f_neg y)"
| "f_mul x (Fin b) = (if b = 0 then NaN else if 0 < b then x else f_neg x)"
| "f_mul x y = (if x = y then PInf else NInf)"

fun f_div :: "f64 \<Rightarrow> f64 \<Rightarrow> f64" where
  "f_div (Fin a) (Fin b) =
     (if b = 0 then (if a = 0 then NaN else if 0 < a then PInf else NInf)
      else f64_of_rat (a / b))"
| "f_div NaN _ = NaN"
| "f_div _ NaN = NaN"
| "f_div (Fin _) _ = Fin 0"
| "f_div x (Fin b) = (if 0 \<le> b then x else f_neg x)"
| "f_div _ _ = NaN"

text \<open>\<open>math.Ceil\<close> and \<open>math.Round\<close> (half away from zero); both are exact.\<close>

fun f_ceil :: "f64 \<Rightarrow> f64" where
  "f_ceil (Fin a) = Fin (of_int \<lceil>a\<rceil>)"
| "f_ceil x = x"

fun f_round :: "f64 \<Rightarrow> f64" where
  "f_round (Fin a) = Fin (sgn a * of_int \<lfloor>\<bar>a\<bar> + 1 / 2\<rfloor>)"
| "f_round x = x"

text \<open>
  The conversions \<open>int64(f)\<close> and \<open>uint64(f)\<close> truncate towards zero. For a value the
  integer type cannot represent (and for NaN) the language leaves the result to the
  implementation: it is the parameter \<open>oor\<close> ("out of range") of the model.
\<close>

definition trunc_rat :: "rat \<Rightarrow> int" where
  "trunc_rat x = (if 0 \<le> x then \<lfloor>x\<rfloor> else \<lceil>x\<rceil>)"

fun f_to_i64 :: "(f64 \<Rightarrow> int) \<Rightarrow> f64 \<Rightarrow> int" where
  "f_to_i64 oor (Fin a) =
     (if in_i64 (trunc_rat a) then trunc_rat a else i64 (oor (Fin a)))"
| "f_to_i64 oor x = i64 (oor x)"

fun f_to_u64 :: "(f64 \<Rightarrow> int) \<Rightarrow> f64 \<Rightarrow> int" where
  "f_to_u64 oor (Fin a) =
     (if 0 \<le> trunc_rat a \<and> trunc_rat a < 2 ^ 64 then trunc_rat a else u64 (oor (Fin a)))"
| "f_to_u64 oor x = u64 (oor x)"

text \<open>\<open>time.Duration.Seconds\<close>: whole seconds plus the rest, each exact, divided and added.\<close>

definition dur_seconds :: "duration \<Rightarrow> f64" where
  "dur_seconds d =
     (let sec = quot d second; nsec = d - sec * second
      in f_add (f64_of_int sec) (f_div (f64_of_int nsec) (Fin 1000000000)))"

definition finite_f64 :: "f64 \<Rightarrow> bool" where
  "finite_f64 x = (case x of Fin _ \<Rightarrow> True | _ \<Rightarrow> False)"

section \<open>Facts about the operations\<close>

lemma f_lt_NaN [simp]: "f_lt x NaN = False" "f_lt NaN x = False"
  by (cases x; simp)+

lemma f_eq_NaN [simp]: "f_eq x NaN = False" "f_eq NaN x = False"
  by (cases x; simp)+

lemma f_add_NaN [simp]: "f_add x NaN = NaN" "f_add NaN x = NaN"
  by (cases x; simp)+

lemma f_mul_NaN [simp]: "f_mul x NaN = NaN" "f_mul NaN x = NaN"
  by (cases x; simp)+

lemma f_neg_NaN [simp]: "f_neg x = NaN \<longleftrightarrow> x = NaN"
  by (cases x) simp_all

lemma f_sub_NaN [simp]: "f_sub x NaN = NaN" "f_sub NaN x = NaN"
  by (simp_all add: f_sub_def)

lemma f_lt_irrefl [simp]: "\<not> f_lt x x"
  by (cases x) simp_all

lemma f_lt_asym: "f_lt x y \<Longrightarrow> \<not> f_lt y x"
  by (cases x; cases y) simp_all

lemma f_lt_trans: "f_lt x y \<Longrightarrow> f_lt y z \<Longrightarrow> f_lt x z"
  by (cases x; cases y; cases z) simp_all

lemma f_le_Fin [simp]: "f_le (Fin a) (Fin b) \<longleftrightarrow> a \<le> b"
  by (auto simp: f_le_def)

lemma not_f_lt: "x \<noteq> NaN \<Longrightarrow> y \<noteq> NaN \<Longrightarrow> \<not> f_lt x y \<longleftrightarrow> f_le y x"
  by (cases x; cases y) (auto simp: f_le_def)

lemma f64_limit_gt: "2 ^ 1023 < f64_limit"
  unfolding f64_limit_def by (rule power_strict_increasing) simp_all

lemma f64_of_rat_bounded: "\<bar>rnd x\<bar> < f64_limit \<Longrightarrow> f64_of_rat x = Fin (rnd x)"
  by (auto simp: f64_of_rat_def Let_def abs_less_iff)

lemma f64_of_rat_small: "\<bar>x\<bar> \<le> 2 ^ 1023 \<Longrightarrow> f64_of_rat x = Fin (rnd x)"
proof (rule f64_of_rat_bounded)
  assume b: "\<bar>x\<bar> \<le> 2 ^ 1023"
  have r: "rnd (2 ^ 1023) = 2 ^ 1023" by (rule rnd_grid [of _ 1 1023]) simp_all
  from b have "x \<le> 2 ^ 1023" "- (2 ^ 1023) \<le> x" by (simp_all only: abs_le_iff minus_le_iff)
  then have "rnd x \<le> 2 ^ 1023" "- (2 ^ 1023) \<le> rnd x"
    using rnd_mono [of x "2 ^ 1023"] rnd_mono [of "- (2 ^ 1023)" x] by (simp_all only: r rnd_minus)
  then have "\<bar>rnd x\<bar> \<le> 2 ^ 1023" by (simp only: abs_le_iff minus_le_iff)
  then show "\<bar>rnd x\<bar> < f64_limit" using f64_limit_gt by (rule le_less_trans)
qed

lemma f64_of_int_rnd: "\<bar>n\<bar> \<le> 2 ^ 64 \<Longrightarrow> f64_of_int n = Fin (rnd (of_int n))"
proof -
  assume "\<bar>n\<bar> \<le> 2 ^ 64"
  then have "(of_int \<bar>n\<bar> :: rat) \<le> of_int (2 ^ 64)" by (simp only: of_int_le_iff)
  then have "\<bar>of_int n :: rat\<bar> \<le> 2 ^ 64" by simp
  also have "(2::rat) ^ 64 \<le> 2 ^ 1023" by (rule power_increasing) simp_all
  finally show ?thesis unfolding f64_of_int_def by (rule f64_of_rat_small)
qed

lemma f64_of_int_small: "\<bar>n\<bar> < 2 ^ 53 \<Longrightarrow> f64_of_int n = Fin (of_int n)"
  using f64_of_int_rnd [of n] by (simp add: rnd_of_int)

lemma f_to_i64_range [bounds_simps]: "in_i64 (f_to_i64 oor x)"
  by (cases x) (auto simp: i64_range)

lemma f_to_i64_of_int: "in_i64 n \<Longrightarrow> f_to_i64 oor (Fin (of_int n)) = n"
  by (simp add: trunc_rat_def)

lemma trunc_rat_mono: "x \<le> y \<Longrightarrow> trunc_rat x \<le> trunc_rat y"
  by (auto simp: trunc_rat_def intro: floor_mono ceiling_mono)
     (meson ceiling_le_zero dual_order.trans less_le_not_le linorder_linear zero_le_floor)

lemma rnd_ge_powi: "2 powi k \<le> x \<Longrightarrow> - 1074 \<le> k \<Longrightarrow> 2 powi k \<le> rnd x"
  using rnd_mono [of "2 powi k" x] rnd_grid [of "2 powi k" 1 k] by simp

lemma rnd_le_powi: "x \<le> 2 powi k \<Longrightarrow> - 1074 \<le> k \<Longrightarrow> rnd x \<le> 2 powi k"
  using rnd_mono [of x "2 powi k"] rnd_grid [of "2 powi k" 1 k] by simp

lemma dur_seconds_whole:
  assumes "0 \<le> k" "k < 2 ^ 53" shows "dur_seconds (k * second) = Fin (of_int k)"
proof -
  have q: "quot (k * second) second = k"
    using assms by (simp add: quot_pos second_def)
  have "f64_of_rat (of_int k) = Fin (of_int k)"
    using f64_of_int_small [of k] assms by (simp add: f64_of_int_def)
  moreover have "f64_of_rat 0 = Fin 0" using f64_of_rat_small [of 0] by simp
  ultimately show ?thesis using assms
    by (simp add: dur_seconds_def q f64_of_int_small)
qed

end
