(* ===== verification/Rng.thy ===== *)
theory Rng
  imports Float64
begin

text \<open>
  The injected, non-cryptographic random source (\<open>internal/rng\<close>).

  \<open>Rand\<close> is the interface: one operation per method, on the generator's state; None is a
  panic. \<open>fakeRand\<close> (fake.go) is the scripted implementation, whose panic on an exhausted
  script is that None. \<open>prodRand\<close> (rng.go) delegates every draw to \<open>math/rand/v2\<close>, whose
  generator is a parameter; its \<open>Split\<close> is modelled.

  The locales state what a caller relies on: unit draws in [0,1), exponential draws that are
  finite and not negative, and integer draws in range.
\<close>

section \<open>The interface\<close>

record 'r Rand =
  rand_Float64 :: "'r \<Rightarrow> (f64 \<times> 'r) option"
  rand_NormFloat64 :: "'r \<Rightarrow> (f64 \<times> 'r) option"
  rand_ExpFloat64 :: "'r \<Rightarrow> (f64 \<times> 'r) option"
  rand_IntN :: "'r \<Rightarrow> int \<Rightarrow> (int \<times> 'r) option"
  rand_Int63n :: "'r \<Rightarrow> int \<Rightarrow> (int \<times> 'r) option"
  rand_Perm :: "'r \<Rightarrow> int \<Rightarrow> (int list \<times> 'r) option"
  rand_Split :: "'r \<Rightarrow> ('r \<times> 'r) option"

definition unit_draw :: "f64 \<Rightarrow> bool" where
  "unit_draw x \<longleftrightarrow> (\<exists>u. x = Fin u \<and> 0 \<le> u \<and> u < 1)"

definition nonneg_draw :: "f64 \<Rightarrow> bool" where
  "nonneg_draw x \<longleftrightarrow> (\<exists>u. x = Fin u \<and> 0 \<le> u)"

lemma small_int: "\<bar>n\<bar> < 2 ^ 53 \<Longrightarrow> f64_of_int n = Fin (of_int n)"
  by (rule f64_of_int_small)

lemma f64_int_sized: "\<bar>x\<bar> \<le> 2 ^ 64 \<Longrightarrow> f64_of_rat x = Fin (rnd x)"
proof -
  assume "\<bar>x\<bar> \<le> 2 ^ 64"
  also have "(2::rat) ^ 64 \<le> 2 ^ 1023" by (rule power_increasing) simp_all
  finally show ?thesis by (rule f64_of_rat_small)
qed

text \<open>A unit draw scales a length down: the shape of every jitter of the program.\<close>

lemma unit_scale:
  assumes "unit_draw u" and "0 \<le> n" and "n < 2 ^ 53"
  shows "0 \<le> f_to_i64 oor (f_mul u (f64_of_int n)) \<and> f_to_i64 oor (f_mul u (f64_of_int n)) \<le> n"
proof -
  obtain x where x: "u = Fin x" "0 \<le> x" "x < 1" using assms(1) by (auto simp: unit_draw_def)
  have m: "0 \<le> x * of_int n" "x * of_int n \<le> of_int n"
    using x assms(2) mult_right_mono [of x 1 "of_int n"] by simp_all
  have r: "0 \<le> rnd (x * of_int n)" "rnd (x * of_int n) \<le> of_int n"
    using m rnd_of_int_bounds(2) [of n "x * of_int n"] assms(2,3) by (auto intro: rnd_nonneg)
  have "(of_int n :: rat) \<le> of_int (2 ^ 53)" unfolding of_int_le_iff using assms(3) by simp
  then have "\<bar>x * of_int n\<bar> \<le> 2 ^ 64" using m by simp
  then have f: "f_mul u (f64_of_int n) = Fin (rnd (x * of_int n))"
    using assms(2,3) x(1) by (simp add: small_int f64_int_sized)
  obtain k where k: "k = \<lfloor>rnd (x * of_int n)\<rfloor>" by simp
  have k1: "0 \<le> k" "k \<le> n" using floor_mono [OF r(2)] r(1) by (simp_all add: k)
  then have "in_i64 k" using assms(3) by (simp add: in_i64_numeral)
  then have "f_to_i64 oor (f_mul u (f64_of_int n)) = k"
    using r(1) unfolding f by (simp add: trunc_rat_def flip: k)
  then show ?thesis using k1 by simp
qed

locale unit_source =
  fixes R :: "'r Rand" and inv :: "'r \<Rightarrow> bool"
  assumes Float64_unit: "inv r \<Longrightarrow> rand_Float64 R r = Some (x, r') \<Longrightarrow> unit_draw x \<and> inv r'"
    and Exp_nonneg: "inv r \<Longrightarrow> rand_ExpFloat64 R r = Some (x, r') \<Longrightarrow> nonneg_draw x \<and> inv r'"
    and Norm_inv: "inv r \<Longrightarrow> rand_NormFloat64 R r = Some (x, r') \<Longrightarrow> inv r'"
    and Split_inv: "inv r \<Longrightarrow> rand_Split R r = Some (c, r') \<Longrightarrow> inv c \<and> inv r'"
begin

text \<open>Two draws in a row, as the log-normal and exponential samplers make them.\<close>

lemma two_units:
  "inv r \<Longrightarrow> rand_Float64 R r = Some (x, r1) \<Longrightarrow> rand_Float64 R r1 = Some (y, r2) \<Longrightarrow>
     unit_draw x \<and> unit_draw y \<and> inv r2"
  by (blast dest: Float64_unit)

lemma child_unit:
  "inv r \<Longrightarrow> rand_Split R r = Some (c, r') \<Longrightarrow> rand_Float64 R c = Some (x, c') \<Longrightarrow> unit_draw x"
  by (blast dest: Split_inv Float64_unit)

end

locale int_source = unit_source R inv for R :: "'r Rand" and inv :: "'r \<Rightarrow> bool" +
  fixes bound :: int
  assumes IntN_range: "inv r \<Longrightarrow> bound \<le> n \<Longrightarrow> rand_IntN R r n = Some (i, r') \<Longrightarrow> 0 \<le> i \<and> i < n \<and> inv r'"
begin

lemma IntN_index:
  "inv r \<Longrightarrow> bound \<le> int (length xs) \<Longrightarrow> rand_IntN R r (int (length xs)) = Some (i, r') \<Longrightarrow>
     nat i < length xs \<and> xs ! nat i \<in> set xs"
  by (frule (2) IntN_range) auto

end

section \<open>fakeRand\<close>

record FakeScript =
  fs_Floats :: "f64 list"
  fs_Norms :: "f64 list"
  fs_Exps :: "f64 list"
  fs_Ints :: "int list"
  fs_Int63s :: "int list"
  fs_Perms :: "int list list"

record fakeRand =
  fr_script :: FakeScript
  fr_fi :: nat
  fr_ni :: nat
  fr_ei :: nat
  fr_ii :: nat
  fr_i63 :: nat
  fr_pi :: nat

text \<open>Slices are values here, so the deep copy of a script is the script.\<close>

definition copyScript :: "FakeScript \<Rightarrow> FakeScript" where
  "copyScript s = \<lparr>fs_Floats = fs_Floats s, fs_Norms = fs_Norms s, fs_Exps = fs_Exps s,
     fs_Ints = fs_Ints s, fs_Int63s = fs_Int63s s, fs_Perms = fs_Perms s\<rparr>"

definition fake_New :: "FakeScript \<Rightarrow> fakeRand" where
  "fake_New s = \<lparr>fr_script = copyScript s, fr_fi = 0, fr_ni = 0, fr_ei = 0, fr_ii = 0,
     fr_i63 = 0, fr_pi = 0\<rparr>"

definition tape :: "'a list \<Rightarrow> nat \<Rightarrow> 'a option" where
  "tape xs i = (if i \<ge> length xs then None else Some (xs ! i))"

definition fake_Float64 :: "fakeRand \<Rightarrow> (f64 \<times> fakeRand) option" where
  "fake_Float64 f = map_option (\<lambda>v. (v, f\<lparr>fr_fi := fr_fi f + 1\<rparr>)) (tape (fs_Floats (fr_script f)) (fr_fi f))"

definition fake_NormFloat64 :: "fakeRand \<Rightarrow> (f64 \<times> fakeRand) option" where
  "fake_NormFloat64 f = map_option (\<lambda>v. (v, f\<lparr>fr_ni := fr_ni f + 1\<rparr>)) (tape (fs_Norms (fr_script f)) (fr_ni f))"

definition fake_ExpFloat64 :: "fakeRand \<Rightarrow> (f64 \<times> fakeRand) option" where
  "fake_ExpFloat64 f = map_option (\<lambda>v. (v, f\<lparr>fr_ei := fr_ei f + 1\<rparr>)) (tape (fs_Exps (fr_script f)) (fr_ei f))"

definition fake_IntN :: "fakeRand \<Rightarrow> int \<Rightarrow> (int \<times> fakeRand) option" where
  "fake_IntN f n = map_option (\<lambda>v. (v, f\<lparr>fr_ii := fr_ii f + 1\<rparr>)) (tape (fs_Ints (fr_script f)) (fr_ii f))"

definition fake_Int63n :: "fakeRand \<Rightarrow> int \<Rightarrow> (int \<times> fakeRand) option" where
  "fake_Int63n f n = map_option (\<lambda>v. (v, f\<lparr>fr_i63 := fr_i63 f + 1\<rparr>)) (tape (fs_Int63s (fr_script f)) (fr_i63 f))"

definition fake_Perm :: "fakeRand \<Rightarrow> int \<Rightarrow> (int list \<times> fakeRand) option" where
  "fake_Perm f n = map_option (\<lambda>v. (v, f\<lparr>fr_pi := fr_pi f + 1\<rparr>)) (tape (fs_Perms (fr_script f)) (fr_pi f))"

definition fake_Split :: "fakeRand \<Rightarrow> (fakeRand \<times> fakeRand) option" where
  "fake_Split f = Some (fake_New (fr_script f), f)"

definition fakeRand_ops :: "fakeRand Rand" where
  "fakeRand_ops = \<lparr>rand_Float64 = fake_Float64, rand_NormFloat64 = fake_NormFloat64,
     rand_ExpFloat64 = fake_ExpFloat64, rand_IntN = fake_IntN, rand_Int63n = fake_Int63n,
     rand_Perm = fake_Perm, rand_Split = fake_Split\<rparr>"

section \<open>prodRand\<close>

text \<open>The generator of \<open>math/rand/v2\<close> is a parameter: \<open>NewPCG\<close> and its 64-bit word draw.\<close>

definition prod_New :: "(int \<Rightarrow> int \<Rightarrow> 'g) \<Rightarrow> int \<Rightarrow> int \<Rightarrow> 'g" where
  "prod_New NewPCG seed1 seed2 = NewPCG seed1 seed2"

definition prod_Split ::
  "(int \<Rightarrow> int \<Rightarrow> 'g) \<Rightarrow> ('g \<Rightarrow> int \<times> 'g) \<Rightarrow> 'g \<Rightarrow> 'g \<times> 'g" where
  "prod_Split NewPCG Uint64 p =
     (case Uint64 p of (s1, p1) \<Rightarrow> case Uint64 p1 of (s2, p2) \<Rightarrow> (NewPCG s1 s2, p2))"

section \<open>A well-formed script meets the interface\<close>

definition script_ok :: "int \<Rightarrow> FakeScript \<Rightarrow> bool" where
  "script_ok bound s \<longleftrightarrow> list_all unit_draw (fs_Floats s) \<and> list_all nonneg_draw (fs_Exps s)
     \<and> list_all (\<lambda>i. 0 \<le> i \<and> i < bound) (fs_Ints s)"

definition fake_ok :: "int \<Rightarrow> fakeRand \<Rightarrow> bool" where
  "fake_ok bound f \<longleftrightarrow> script_ok bound (fr_script f)"

lemma tape_Some: "tape xs i = Some v \<Longrightarrow> v \<in> set xs"
  by (auto simp: tape_def split: if_splits)

lemma fake_New_ok: "script_ok b s \<Longrightarrow> fake_ok b (fake_New s)"
  by (simp add: fake_ok_def fake_New_def copyScript_def script_ok_def)

interpretation scripted: int_source fakeRand_ops "fake_ok bound" bound for bound
proof unfold_locales
  fix r x r'
  assume r: "fake_ok bound r"
  show "rand_Float64 fakeRand_ops r = Some (x, r') \<Longrightarrow> unit_draw x \<and> fake_ok bound r'"
    using r by (auto simp: fakeRand_ops_def fake_Float64_def fake_ok_def script_ok_def list_all_iff
        dest!: tape_Some)
  show "rand_ExpFloat64 fakeRand_ops r = Some (x, r') \<Longrightarrow> nonneg_draw x \<and> fake_ok bound r'"
    using r by (auto simp: fakeRand_ops_def fake_ExpFloat64_def fake_ok_def script_ok_def list_all_iff
        dest!: tape_Some)
  show "rand_NormFloat64 fakeRand_ops r = Some (x, r') \<Longrightarrow> fake_ok bound r'"
    using r by (auto simp: fakeRand_ops_def fake_NormFloat64_def fake_ok_def)
next
  fix r c r'
  assume "fake_ok bound r" "rand_Split fakeRand_ops r = Some (c, r')"
  then show "fake_ok bound c \<and> fake_ok bound r'"
    using fake_New_ok [of bound "fr_script r"] by (auto simp: fakeRand_ops_def fake_Split_def fake_ok_def)
next
  fix r n i r'
  assume "fake_ok bound r" "bound \<le> n" "rand_IntN fakeRand_ops r n = Some (i, r')"
  then show "0 \<le> i \<and> i < n \<and> fake_ok bound r'"
    by (auto simp: fakeRand_ops_def fake_IntN_def fake_ok_def script_ok_def list_all_iff
        dest!: tape_Some)
qed

text \<open>\<open>Split\<close> replays the script from its start, wherever the parent stands.\<close>

lemma fake_Split_restarts: "rand_Split fakeRand_ops f = Some (fake_New (fr_script f), f)"
  by (simp add: fakeRand_ops_def fake_Split_def)

end
