(* ===== verification/GoStrings.thy ===== *)
theory GoStrings
  imports Prelude "HOL-Library.Sublist"
begin

text \<open>
  The parts of Go's \<open>strings\<close> and \<open>strconv\<close> packages the program uses, over byte strings:
  a Go string is a \<open>string\<close> whose characters are its bytes (UTF-8 where it is text), so
  \<open>len(s)\<close> is \<open>length\<close> and indexing is by byte.

  \<open>strings.ToLower\<close> folds ASCII letters here; for a string with a byte outside ASCII the
  library consults the Unicode tables, which are the parameter \<open>uni\<close>.
\<close>

section \<open>Splitting, searching, trimming\<close>

definition HasPrefix :: "string \<Rightarrow> string \<Rightarrow> bool" where
  "HasPrefix s p \<longleftrightarrow> take (length p) s = p"

definition HasSuffix :: "string \<Rightarrow> string \<Rightarrow> bool" where
  "HasSuffix s p \<longleftrightarrow> length p \<le> length s \<and> drop (length s - length p) s = p"

definition TrimPrefix :: "string \<Rightarrow> string \<Rightarrow> string" where
  "TrimPrefix s p = (if HasPrefix s p then drop (length p) s else s)"

definition TrimSuffix :: "string \<Rightarrow> string \<Rightarrow> string" where
  "TrimSuffix s p = (if HasSuffix s p then take (length s - length p) s else s)"

fun IndexByte :: "string \<Rightarrow> char \<Rightarrow> nat option" where
  "IndexByte [] c = None"
| "IndexByte (x # xs) c = (if x = c then Some 0 else map_option Suc (IndexByte xs c))"

fun LastIndexByte :: "string \<Rightarrow> char \<Rightarrow> nat option" where
  "LastIndexByte [] c = None"
| "LastIndexByte (x # xs) c =
     (case LastIndexByte xs c of Some i \<Rightarrow> Some (Suc i)
      | None \<Rightarrow> if x = c then Some 0 else None)"

definition CountByte :: "string \<Rightarrow> char \<Rightarrow> nat" where
  "CountByte s c = length (filter (\<lambda>x. x = c) s)"

fun Index :: "string \<Rightarrow> string \<Rightarrow> nat option" where
  "Index [] p = (if p = [] then Some 0 else None)"
| "Index (x # xs) p =
     (if HasPrefix (x # xs) p then Some 0 else map_option Suc (Index xs p))"

definition Contains :: "string \<Rightarrow> string \<Rightarrow> bool" where
  "Contains s p \<longleftrightarrow> Index s p \<noteq> None"

text \<open>\<open>strings.Split(s, sep)\<close> for a one-byte separator.\<close>

fun SplitByte :: "string \<Rightarrow> char \<Rightarrow> string list" where
  "SplitByte [] c = [[]]"
| "SplitByte (x # xs) c =
     (if x = c then [] # SplitByte xs c
      else (case SplitByte xs c of [] \<Rightarrow> [[x]] | p # ps \<Rightarrow> (x # p) # ps))"

fun Join :: "string list \<Rightarrow> string \<Rightarrow> string" where
  "Join [] sep = []"
| "Join [p] sep = p"
| "Join (p # q # ps) sep = p @ sep @ Join (q # ps) sep"

text \<open>
  \<open>strings.TrimSpace\<close> cuts every leading and trailing white-space rune: the ASCII ones and
  the Unicode ones, here by their UTF-8 encodings.
\<close>

definition space_runes :: "string list" where
  "space_runes =
     [[CHR 0x20], [CHR 0x09], [CHR 0x0A], [CHR 0x0B], [CHR 0x0C], [CHR 0x0D],
      [CHR 0xC2, CHR 0x85], [CHR 0xC2, CHR 0xA0], [CHR 0xE1, CHR 0x9A, CHR 0x80]] @
     map (\<lambda>k. [CHR 0xE2, CHR 0x80, char_of (k :: nat)])
       ([128 ..< 139] @ [168, 169, 175]) @
     [[CHR 0xE2, CHR 0x81, CHR 0x9F], [CHR 0xE3, CHR 0x80, CHR 0x80]]"

definition cut_left :: "string \<Rightarrow> string option" where
  "cut_left s = map_option (\<lambda>r. drop (length r) s) (List.find (HasPrefix s) space_runes)"

definition cut_right :: "string \<Rightarrow> string option" where
  "cut_right s =
     map_option (\<lambda>r. take (length s - length r) s) (List.find (HasSuffix s) space_runes)"

lemma space_runes_nonempty: "r \<in> set space_runes \<Longrightarrow> r \<noteq> []"
  by (auto simp: space_runes_def)

lemma cut_left_shorter: "cut_left s = Some t \<Longrightarrow> length t < length s"
proof -
  assume "cut_left s = Some t"
  then obtain r where r: "r \<in> set space_runes" "HasPrefix s r" "t = drop (length r) s"
    by (auto simp: cut_left_def dest: find_Some_iff_first)
  moreover from r(1) have "r \<noteq> []" by (rule space_runes_nonempty)
  ultimately show ?thesis by (cases s; cases r) (auto simp: HasPrefix_def)
qed

lemma cut_right_shorter: "cut_right s = Some t \<Longrightarrow> length t < length s"
proof -
  assume "cut_right s = Some t"
  then obtain r where r: "r \<in> set space_runes" "HasSuffix s r" "t = take (length s - length r) s"
    by (auto simp: cut_right_def dest: find_Some_iff_first)
  moreover from r(1) have "r \<noteq> []" by (rule space_runes_nonempty)
  ultimately show ?thesis by (cases s; cases r) (auto simp: HasSuffix_def)
qed

function TrimLeftSpace :: "string \<Rightarrow> string" where
  "TrimLeftSpace s = (case cut_left s of None \<Rightarrow> s | Some t \<Rightarrow> TrimLeftSpace t)"
  by pat_completeness auto
termination
  by (relation "measure length") (auto dest: cut_left_shorter)

function TrimRightSpace :: "string \<Rightarrow> string" where
  "TrimRightSpace s = (case cut_right s of None \<Rightarrow> s | Some t \<Rightarrow> TrimRightSpace t)"
  by pat_completeness auto
termination
  by (relation "measure length") (auto dest: cut_right_shorter)

declare TrimLeftSpace.simps [simp del] TrimRightSpace.simps [simp del]

definition TrimSpace :: "string \<Rightarrow> string" where
  "TrimSpace s = TrimRightSpace (TrimLeftSpace s)"

section \<open>Letter case\<close>

definition ascii :: "string \<Rightarrow> bool" where
  "ascii s \<longleftrightarrow> list_all (\<lambda>c. of_char c < (128 :: nat)) s"

definition lower_char :: "char \<Rightarrow> char" where
  "lower_char c =
     (let n = of_char c :: nat in if 65 \<le> n \<and> n \<le> 90 then char_of (n + 32) else c)"

definition ToLower :: "(string \<Rightarrow> string) \<Rightarrow> string \<Rightarrow> string" where
  "ToLower uni s = (if ascii s then map lower_char s else uni s)"

section \<open>Numbers\<close>

fun digits10 :: "nat \<Rightarrow> string" where
  "digits10 n = (if n < 10 then [char_of (n + 48)]
                 else digits10 (n div 10) @ [char_of (n mod 10 + 48)])"

declare digits10.simps [simp del]

definition Itoa :: "int \<Rightarrow> string" where
  "Itoa n = (if n < 0 then CHR ''-'' # digits10 (nat (- n)) else digits10 (nat n))"

definition is_digit :: "char \<Rightarrow> bool" where
  "is_digit c \<longleftrightarrow> 48 \<le> (of_char c :: nat) \<and> (of_char c :: nat) \<le> 57"

definition digit_val :: "char \<Rightarrow> nat" where
  "digit_val c = of_char c - 48"

definition digits_val :: "string \<Rightarrow> nat" where
  "digits_val s = foldl (\<lambda>acc c. 10 * acc + digit_val c) 0 s"

text \<open>\<open>strconv.Atoi\<close>: an optional sign, then digits only, in the range of \<open>int\<close>.\<close>

definition Atoi :: "string \<Rightarrow> int option" where
  "Atoi s =
     (let neg = HasPrefix s ''-'';
          ds = (if neg \<or> HasPrefix s ''+'' then tl s else s);
          v = (if neg then - int (digits_val ds) else int (digits_val ds))
      in if ds \<noteq> [] \<and> list_all is_digit ds \<and> in_i64 v then Some v else None)"

section \<open>Facts\<close>

lemma HasPrefix_append [simp]: "HasPrefix (p @ s) p"
  by (simp add: HasPrefix_def)

lemma HasPrefix_iff: "HasPrefix s p \<longleftrightarrow> prefix p s"
  by (metis HasPrefix_def append_take_drop_id prefix_def take_is_prefix append_eq_conv_conj)

lemma IndexByte_Some_iff:
  "IndexByte s c = Some i \<Longrightarrow> i < length s \<and> s ! i = c \<and> c \<notin> set (take i s)"
  by (induction s arbitrary: i) (auto split: if_splits)

lemma IndexByte_None_iff: "IndexByte s c = None \<longleftrightarrow> c \<notin> set s"
  by (induction s) auto

lemma LastIndexByte_None_iff: "LastIndexByte s c = None \<longleftrightarrow> c \<notin> set s"
  by (induction s) (auto split: option.splits)

lemma LastIndexByte_Some:
  "LastIndexByte s c = Some i \<Longrightarrow> i < length s \<and> s ! i = c \<and> c \<notin> set (drop (Suc i) s)"
  by (induction s arbitrary: i) (auto split: option.splits if_splits simp: LastIndexByte_None_iff)

lemma CountByte_0_iff: "CountByte s c = 0 \<longleftrightarrow> c \<notin> set s"
  by (auto simp: CountByte_def filter_empty_conv)

lemma SplitByte_nonempty: "SplitByte s c \<noteq> []"
  by (induction s) (auto split: list.splits)

lemma TrimSpace_nil [simp]: "TrimSpace [] = []"
  by (simp add: TrimSpace_def TrimLeftSpace.simps [of "[]"] TrimRightSpace.simps [of "[]"]
      cut_left_def cut_right_def HasPrefix_def HasSuffix_def space_runes_def)

lemma lower_char_idem [simp]: "lower_char (lower_char c) = lower_char c"
  by (simp add: lower_char_def Let_def)

lemma lower_char_ascii: "of_char c < (128::nat) \<Longrightarrow> of_char (lower_char c) < (128::nat)"
  by (simp add: lower_char_def Let_def)

lemma ascii_lower: "ascii s \<Longrightarrow> ascii (map lower_char s)"
  by (simp add: ascii_def list_all_iff lower_char_ascii)

lemma ToLower_idem: "ascii s \<Longrightarrow> ToLower uni (ToLower uni s) = ToLower uni s"
  by (simp add: ToLower_def ascii_lower)

lemma of_char_digit [simp]: "n < 10 \<Longrightarrow> (of_char (char_of (n + 48) :: char) :: nat) = n + 48"
  by simp

lemma digits10_digits: "list_all is_digit (digits10 n)"
proof (induction n rule: digits10.induct)
  case (1 n)
  have "is_digit (char_of (k + 48))" if "k < 10" for k :: nat using that by (simp add: is_digit_def)
  with 1 show ?case by (subst digits10.simps) simp
qed

lemma digits10_nonempty: "digits10 n \<noteq> []"
  by (subst digits10.simps) simp

lemma digits_val_snoc: "digits_val (s @ [c]) = 10 * digits_val s + digit_val c"
  by (simp add: digits_val_def)

lemma digits_val_digits10: "digits_val (digits10 n) = n"
proof (induction n rule: digits10.induct)
  case (1 n)
  show ?case
  proof (cases "n < 10")
    case True
    then show ?thesis
      by (subst digits10.simps) (simp add: digits_val_def digit_val_def)
  next
    case False
    then have "digits_val (digits10 (n div 10)) = n div 10" using 1 by simp
    then show ?thesis using False
      by (subst digits10.simps) (simp add: digits_val_snoc digit_val_def)
  qed
qed

lemma digits10_inj: "digits10 m = digits10 n \<longleftrightarrow> m = n"
  by (metis digits_val_digits10)

lemma Itoa_inj: "0 \<le> m \<Longrightarrow> 0 \<le> n \<Longrightarrow> Itoa m = Itoa n \<longleftrightarrow> m = n"
  by (simp add: Itoa_def digits10_inj eq_nat_nat_iff)

lemma digits10_hd: "is_digit (hd (digits10 n))"
  using digits10_digits [of n] digits10_nonempty [of n] by (cases "digits10 n") auto

theorem Atoi_Itoa: "in_i64 n \<Longrightarrow> Atoi (Itoa n) = Some n"
proof -
  assume r: "in_i64 n"
  have np: "\<not> HasPrefix (digits10 k) ''-''" "\<not> HasPrefix (digits10 k) ''+''" for k
    using digits10_hd [of k] digits10_nonempty [of k]
    by (cases "digits10 k"; auto simp: HasPrefix_def is_digit_def)+
  show ?thesis
  proof (cases "n < 0")
    case True
    then show ?thesis using r
      by (simp add: Itoa_def Atoi_def HasPrefix_def digits10_nonempty digits10_digits digits_val_digits10)
  next
    case False
    then show ?thesis using r
      by (simp add: Itoa_def Atoi_def np digits10_nonempty digits10_digits digits_val_digits10)
  qed
qed

end
