(* ===== verification/Pterr.thy ===== *)
theory Pterr
  imports GoStrings "HOL-Library.Word"
begin

text \<open>
  The error taxonomy of \<open>internal/pterr\<close> (class.go, error.go, field_error.go) and the shape
  of every error value the program builds.

  An \<open>error\<close> is a value of \<open>goerr\<close>: the program's own error types with their fields, the two
  context errors, and any other error as its text and the errors it unwraps to
  (\<open>fmt.Errorf\<close> with \<open>%w\<close>, a library error). A nil error is \<open>None\<close> where one is possible.
  \<open>errors.As\<close> is a depth-first search of that tree.
\<close>

datatype pclass = ClassTransient | ClassPermanent | ClassConfig | ClassSafety | ClassUnknown
  | ClassOther "8 word"

fun Class_String :: "pclass \<Rightarrow> string" where
  "Class_String ClassTransient = ''transient''"
| "Class_String ClassPermanent = ''permanent''"
| "Class_String ClassConfig = ''config''"
| "Class_String ClassSafety = ''safety''"
| "Class_String _ = ''unknown''"

record FieldError =
  fe_Field :: string
  fe_Msg :: string

datatype goerr =
    PtError (pe_Class: pclass) (pe_Code: string) (pe_Op: string) (pe_Msg: string)
      (pe_cause: "goerr option") (pe_retryable: bool)
  | FieldErrors "FieldError list"
  | RoutingError string string string
  | ValidationError string string
  | CtxCanceled
  | CtxDeadlineExceeded
  | OtherError string "goerr list"

fun defaultRetryable :: "pclass \<Rightarrow> bool" where
  "defaultRetryable ClassTransient = True"
| "defaultRetryable ClassUnknown = True"
| "defaultRetryable _ = False"

definition pterr_New :: "pclass \<Rightarrow> string \<Rightarrow> string \<Rightarrow> string \<Rightarrow> goerr" where
  "pterr_New cl code op msg = PtError cl code op msg None (defaultRetryable cl)"

definition pterr_Wrap :: "pclass \<Rightarrow> string \<Rightarrow> string \<Rightarrow> string \<Rightarrow> goerr option \<Rightarrow> goerr" where
  "pterr_Wrap cl code op msg cause = PtError cl code op msg cause (defaultRetryable cl)"

definition PtError_Error :: "pclass \<Rightarrow> string \<Rightarrow> string \<Rightarrow> string \<Rightarrow> string" where
  "PtError_Error cl code op msg =
     Class_String cl @ '' ['' @ code @ ''] '' @ op @ '': '' @ msg"

definition FieldError_Error :: "FieldError \<Rightarrow> string" where
  "FieldError_Error e = fe_Field e @ '': '' @ fe_Msg e"

definition FieldError_Class :: "FieldError \<Rightarrow> pclass" where
  "FieldError_Class e = ClassConfig"

definition FieldErrors_Error :: "FieldError list \<Rightarrow> string" where
  "FieldErrors_Error es = Join (map FieldError_Error es) ''; ''"

text \<open>The attributes \<open>LogValue\<close> emits: names and rendered values.\<close>

definition PtError_LogValue :: "goerr \<Rightarrow> (string \<times> string) list" where
  "PtError_LogValue e =
     [(''class'', Class_String (pe_Class e)), (''code'', pe_Code e), (''op'', pe_Op e),
      (''msg'', pe_Msg e), (''retryable'', if pe_retryable e then ''true'' else ''false'')]"

text \<open>\<open>errors.As(err, **Error)\<close>: the first \<open>*pterr.Error\<close> of the tree, in pre-order.\<close>

fun as_PtError :: "goerr \<Rightarrow> goerr option"
and as_PtError_list :: "goerr list \<Rightarrow> goerr option" where
  "as_PtError (PtError cl code op msg cause r) = Some (PtError cl code op msg cause r)"
| "as_PtError (OtherError s es) = as_PtError_list es"
| "as_PtError _ = None"
| "as_PtError_list [] = None"
| "as_PtError_list (e # es) =
     (case as_PtError e of Some p \<Rightarrow> Some p | None \<Rightarrow> as_PtError_list es)"

definition Classify :: "goerr option \<Rightarrow> pclass" where
  "Classify err =
     (case err of None \<Rightarrow> ClassUnknown
      | Some e \<Rightarrow> (case as_PtError e of Some p \<Rightarrow> pe_Class p | None \<Rightarrow> ClassUnknown))"

definition IsClass :: "goerr option \<Rightarrow> pclass \<Rightarrow> bool" where
  "IsClass err c \<longleftrightarrow> Classify err = c"

section \<open>Facts\<close>

lemma Classify_New [simp]: "Classify (Some (pterr_New cl code op msg)) = cl"
  by (simp add: Classify_def pterr_New_def)

lemma Classify_Wrap [simp]: "Classify (Some (pterr_Wrap cl code op msg c)) = cl"
  by (simp add: Classify_def pterr_Wrap_def)

lemma Classify_context [simp]:
  "Classify (Some CtxCanceled) = ClassUnknown" "Classify (Some CtxDeadlineExceeded) = ClassUnknown"
  by (simp_all add: Classify_def)

text \<open>A chain of \<open>%w\<close> wrappings, outermost first.\<close>

fun errorf_chain :: "string list \<Rightarrow> goerr \<Rightarrow> goerr" where
  "errorf_chain [] e = e"
| "errorf_chain (s # ss) e = OtherError s [errorf_chain ss e]"

lemma as_PtError_chain [simp]: "as_PtError (errorf_chain ss e) = as_PtError e"
  by (induction ss) (auto split: option.splits)

lemma retryable_default:
  "pe_retryable (pterr_New cl code op msg) \<longleftrightarrow> cl = ClassTransient \<or> cl = ClassUnknown"
  by (cases cl) (simp_all add: pterr_New_def)

text \<open>
  Redaction is a non-interference property: what an error renders, in \<open>Error()\<close> and in
  \<open>LogValue()\<close>, and how the engine classifies it, is independent of the wrapped cause, also
  when the error is buried under any number of \<open>%w\<close> wrappings.
\<close>

theorem rendering_independent_of_cause:
  "PtError_LogValue (pterr_Wrap cl code op msg c) = PtError_LogValue (pterr_Wrap cl code op msg c')
   \<and> Classify (Some (errorf_chain ss (pterr_Wrap cl code op msg c))) = cl
   \<and> pe_retryable (pterr_Wrap cl code op msg c) = defaultRetryable cl"
  by (simp add: PtError_LogValue_def Classify_def pterr_Wrap_def)

end
