(* ===== verification/Secret.thy ===== *)
theory Secret
  imports GoStrings "HOL-Library.Word"
begin

text \<open>
  Credential handles and in-memory secrets (\<open>internal/secret/credref.go\<close>, \<open>secret.go\<close>).

  A \<open>CredentialRef\<close> is its kind and label; a \<open>Secret\<close> is its bytes, and the four rendering
  methods are functions of it, so that "nothing of the bytes is rendered" is the statement
  that they are constant.
\<close>

section \<open>Credential references\<close>

definition maxRefIDLen :: nat where "maxRefIDLen = 256"

datatype RefKind = RefKindSSHKey | RefKindPassword | RefKindToken | RefKindEnvVar
  | RefKindOther "8 word"

definition RefKind_valid :: "RefKind \<Rightarrow> bool" where
  "RefKind_valid k = (case k of RefKindOther _ \<Rightarrow> False | _ \<Rightarrow> True)"

fun RefKind_String :: "RefKind \<Rightarrow> string" where
  "RefKind_String RefKindSSHKey = ''ssh_key''"
| "RefKind_String RefKindPassword = ''password''"
| "RefKind_String RefKindToken = ''token''"
| "RefKind_String RefKindEnvVar = ''env_var''"
| "RefKind_String (RefKindOther _) = ''unknown''"

record CredentialRef =
  cr_kind :: RefKind
  cr_id :: string

definition zero_CredentialRef :: CredentialRef where
  "zero_CredentialRef = \<lparr>cr_kind = RefKindSSHKey, cr_id = ''''\<rparr>"

datatype refError = InvalidKind | EmptyID | TooLong nat | ControlCharacter

text \<open>A control character is one byte in UTF-8, so the test on runes is a test on bytes.\<close>

definition is_control :: "char \<Rightarrow> bool" where
  "is_control c \<longleftrightarrow> of_char c < (0x20 :: nat) \<or> of_char c = (0x7f :: nat)"

definition NewCredentialRef :: "RefKind \<Rightarrow> string \<Rightarrow> CredentialRef \<times> refError option" where
  "NewCredentialRef kind i =
     (if \<not> RefKind_valid kind then (zero_CredentialRef, Some InvalidKind)
      else if TrimSpace i = '''' then (zero_CredentialRef, Some EmptyID)
      else if length i > maxRefIDLen then (zero_CredentialRef, Some (TooLong maxRefIDLen))
      else if list_ex is_control i then (zero_CredentialRef, Some ControlCharacter)
      else (\<lparr>cr_kind = kind, cr_id = i\<rparr>, None))"

definition CredentialRef_IsZero :: "CredentialRef \<Rightarrow> bool" where
  "CredentialRef_IsZero r \<longleftrightarrow> cr_id r = ''''"

definition CredentialRef_String :: "CredentialRef \<Rightarrow> string" where
  "CredentialRef_String r =
     (if CredentialRef_IsZero r then ''credref(none)''
      else ''credref('' @ RefKind_String (cr_kind r) @ '':'' @ cr_id r @ '')'')"

datatype logvalue = LogString string | LogGroup "(string \<times> string) list"

definition CredentialRef_LogValue :: "CredentialRef \<Rightarrow> logvalue" where
  "CredentialRef_LogValue r =
     (if CredentialRef_IsZero r then LogString ''credref(none)''
      else LogGroup [(''kind'', RefKind_String (cr_kind r)), (''id'', cr_id r)])"

section \<open>Secrets\<close>

definition Redacted :: string where "Redacted = ''[REDACTED]''"

record Secret = s_b :: string

definition Secret_New :: "string \<Rightarrow> Secret" where
  "Secret_New b = \<lparr>s_b = b\<rparr>"

definition Expose :: "Secret option \<Rightarrow> string" where
  "Expose s = (case s of None \<Rightarrow> [] | Some x \<Rightarrow> s_b x)"

definition Secret_Len :: "Secret option \<Rightarrow> nat" where
  "Secret_Len s = (case s of None \<Rightarrow> 0 | Some x \<Rightarrow> length (s_b x))"

text \<open>\<open>Zero\<close> overwrites the shared backing array, then drops it: the second component is what
  every alias of the array (a slice returned by \<open>Expose\<close>) sees afterwards.\<close>

definition Zero :: "Secret \<Rightarrow> Secret \<times> string" where
  "Zero s = (s\<lparr>s_b := []\<rparr>, map (\<lambda>_. CHR 0x00) (s_b s))"

definition Secret_String :: "Secret \<Rightarrow> string" where
  "Secret_String s = Redacted"

definition Secret_GoString :: "Secret \<Rightarrow> string" where
  "Secret_GoString s = Redacted"

definition Secret_LogValue :: "Secret \<Rightarrow> logvalue" where
  "Secret_LogValue s = LogString Redacted"

definition Secret_MarshalJSON :: "(string \<Rightarrow> string) \<Rightarrow> Secret \<Rightarrow> string" where
  "Secret_MarshalJSON json s = json Redacted"

section \<open>Facts\<close>

lemma NewCredentialRef_ok_iff:
  "snd (NewCredentialRef k i) = None \<longleftrightarrow>
     RefKind_valid k \<and> TrimSpace i \<noteq> '''' \<and> length i \<le> 256 \<and> list_all (\<lambda>c. \<not> is_control c) i"
  by (auto simp: NewCredentialRef_def maxRefIDLen_def list_all_iff list_ex_iff)

text \<open>A credential label is either accepted unchanged or refused with the zero handle; an
  accepted one is not blank, at most 256 bytes and free of control characters, so its log
  rendering is one line and not the "no credential" marker.\<close>

theorem credential_label_validated:
  "NewCredentialRef k i =
     (if snd (NewCredentialRef k i) = None then (\<lparr>cr_kind = k, cr_id = i\<rparr>, None)
      else (zero_CredentialRef, snd (NewCredentialRef k i)))
   \<and> (snd (NewCredentialRef k i) = None \<longleftrightarrow>
        RefKind_valid k \<and> TrimSpace i \<noteq> '''' \<and> length i \<le> 256 \<and> list_all (\<lambda>c. \<not> is_control c) i)
   \<and> \<not> (snd (NewCredentialRef k i) = None \<and>
          (CredentialRef_IsZero (fst (NewCredentialRef k i))
           \<or> CHR 0x0A \<in> set (CredentialRef_String (fst (NewCredentialRef k i)))))"
proof -
  have nl: "is_control (CHR 0x0A)" by (simp add: is_control_def)
  have k: "CHR 0x0A \<notin> set (RefKind_String k)" by (cases k) simp_all
  show ?thesis
    using nl k
    by (auto simp: NewCredentialRef_ok_iff NewCredentialRef_def maxRefIDLen_def list_all_iff list_ex_iff
        CredentialRef_IsZero_def CredentialRef_String_def)
qed

lemma zeroed_everywhere:
  "Expose (Some (fst (Zero s))) = [] \<and> set (snd (Zero s)) \<subseteq> {CHR 0x00}"
  by (auto simp: Zero_def Expose_def)

end
