(* ===== verification/Protocols.thy ===== *)
theory Protocols
  imports Pterr Secret Float64
begin

text \<open>
  The contract layer \<open>internal/protocols\<close>: identifiers (identity.go, ref.go), the observation
  mask (observation.go), actions and the audited downcast (action.go), results (result.go),
  the two error types (errors.go), the registry (registry.go) and the navigation allowlist
  (target.go). Handlers are opaque values with an \<open>ID\<close>.
\<close>

section \<open>Identifiers\<close>

type_synonym ProtocolID = string
type_synonym ActionKind = string
type_synonym SessionID = string
type_synonym NavID = string

definition ProtoHTTP :: ProtocolID where "ProtoHTTP = ''http''"
definition ProtoDNS :: ProtocolID where "ProtoDNS = ''dns''"
definition ProtoSSH :: ProtocolID where "ProtoSSH = ''ssh''"
definition ProtoStream :: ProtocolID where "ProtoStream = ''stream''"

definition knownProtocols :: "ProtocolID set" where
  "knownProtocols = {ProtoHTTP, ProtoDNS, ProtoSSH, ProtoStream}"

definition IsKnownProtocol :: "ProtocolID \<Rightarrow> bool" where
  "IsKnownProtocol p \<longleftrightarrow> p \<in> knownProtocols"

definition KnownProtocols :: "ProtocolID list" where
  "KnownProtocols = [ProtoDNS, ProtoHTTP, ProtoSSH, ProtoStream]"

lemmas proto_defs = ProtoHTTP_def ProtoDNS_def ProtoSSH_def ProtoStream_def

record Ref =
  ref_Protocol :: ProtocolID
  ref_Verb :: ActionKind

definition Ref_String :: "Ref \<Rightarrow> string" where
  "Ref_String r = ref_Protocol r @ '':'' @ ref_Verb r"

section \<open>Observations\<close>

type_synonym ObsMask = "8 word"

definition ObsDNS :: ObsMask where "ObsDNS = 1"
definition ObsHTTP :: ObsMask where "ObsHTTP = 2"
definition ObsSSH :: ObsMask where "ObsSSH = 4"
definition ObsStream :: ObsMask where "ObsStream = 8"

unbundle bit_operations_syntax

definition ObsMask_Set :: "ObsMask \<Rightarrow> ObsMask \<Rightarrow> ObsMask" where
  "ObsMask_Set m b = m OR b"

definition ObsMask_Has :: "ObsMask \<Rightarrow> ObsMask \<Rightarrow> bool" where
  "ObsMask_Has m b \<longleftrightarrow> m AND b \<noteq> 0"

record DNSObs =
  do_TTLSeconds :: "32 word"
  do_Rcode :: string
  do_CNAMETarget :: string
  do_Truncated :: bool
  do_RecordTypes :: "string list"

record HTTPObs =
  ho_RedirectCount :: int
  ho_SameOriginLinkPaths :: "string list"
  ho_FormFieldNames :: "string list"
  ho_HasSetCookie :: bool

record SSHObs =
  so_ExitCode :: int
  so_StdoutDigest :: "8 word list"
  so_StdoutLen :: int
  so_StdoutPrefix :: string

record StreamObs =
  sto_AvailableBitratesKbps :: "int list"
  sto_CurrentBitrateKbps :: int

record Observation =
  ob_Throughput :: f64
  ob_BufferHealth :: duration
  ob_DNS :: DNSObs
  ob_HTTP :: HTTPObs
  ob_SSH :: SSHObs
  ob_Stream :: StreamObs
  ob_Has :: ObsMask

definition zero_Observation :: Observation where
  "zero_Observation = \<lparr>ob_Throughput = Fin 0, ob_BufferHealth = 0,
     ob_DNS = \<lparr>do_TTLSeconds = 0, do_Rcode = '''', do_CNAMETarget = '''', do_Truncated = False,
       do_RecordTypes = []\<rparr>,
     ob_HTTP = \<lparr>ho_RedirectCount = 0, ho_SameOriginLinkPaths = [], ho_FormFieldNames = [],
       ho_HasSetCookie = False\<rparr>,
     ob_SSH = \<lparr>so_ExitCode = 0, so_StdoutDigest = replicate 32 0, so_StdoutLen = 0,
       so_StdoutPrefix = ''''\<rparr>,
     ob_Stream = \<lparr>sto_AvailableBitratesKbps = [], sto_CurrentBitrateKbps = 0\<rparr>,
     ob_Has = 0\<rparr>"

section \<open>Actions\<close>

datatype Cause = CauseNavigation | CauseSubResource | CauseBackground | CauseControl
  | CauseOther "8 word"

datatype PacingMode = PacingShaperManaged | PacingSelfPaced | PacingOther "8 word"

definition labelled :: "string \<Rightarrow> 8 word \<Rightarrow> string" where
  "labelled name w = name @ ''('' @ Itoa (uint w) @ '')''"

fun Cause_String :: "Cause \<Rightarrow> string" where
  "Cause_String CauseNavigation = ''navigation''"
| "Cause_String CauseSubResource = ''sub-resource''"
| "Cause_String CauseBackground = ''background''"
| "Cause_String CauseControl = ''control''"
| "Cause_String (CauseOther w) = labelled ''cause'' w"

fun PacingMode_String :: "PacingMode \<Rightarrow> string" where
  "PacingMode_String PacingShaperManaged = ''shaper-managed''"
| "PacingMode_String PacingSelfPaced = ''self-paced''"
| "PacingMode_String (PacingOther w) = labelled ''pacing'' w"

record BaseAction =
  ba_Proto :: ProtocolID
  ba_C :: Cause
  ba_P :: PacingMode

text \<open>An action value as the interface sees it: its dynamic type, the accessors, and what
  \<open>Validate\<close> returns.\<close>

record Action = BaseAction +
  ac_type :: string
  ac_kind :: ActionKind
  ac_valid :: "goerr option"

definition As :: "string \<Rightarrow> Action option \<Rightarrow> goerr + Action" where
  "As T a =
     (case a of
        None \<Rightarrow> Inl (RoutingError '''' '''' ''nil action presented to handler'')
      | Some t \<Rightarrow>
          if ac_type t = T then Inr t
          else Inl (RoutingError (ac_kind t) (ba_Proto t)
                      ''action concrete type does not match handler''))"

section \<open>Results\<close>

datatype Outcome = OutcomeSuccess | OutcomeFailure | OutcomeSkipped | OutcomeCancelled
  | OutcomePanicked | OutcomeReconnect | OutcomeOther "8 word"

fun Outcome_String :: "Outcome \<Rightarrow> string" where
  "Outcome_String OutcomeSuccess = ''success''"
| "Outcome_String OutcomeFailure = ''failure''"
| "Outcome_String OutcomeSkipped = ''skipped''"
| "Outcome_String OutcomeCancelled = ''cancelled''"
| "Outcome_String OutcomePanicked = ''panicked''"
| "Outcome_String OutcomeReconnect = ''reconnect''"
| "Outcome_String (OutcomeOther w) = labelled ''outcome'' w"

record HTTPMeta =
  hm_Status :: int
  hm_Method :: string
  hm_Redirects :: int

record DNSMeta =
  dm_Rcode :: string
  dm_QType :: string
  dm_CacheHit :: bool
  dm_Answers :: int

record SSHMeta =
  sm_ExitCode :: int
  sm_Action :: string

record StreamMeta =
  stm_VariantBitrateKbps :: int
  stm_SegmentIndex :: int
  stm_BufferMs :: int

record Result =
  r_Protocol :: ProtocolID
  r_Action :: ActionKind
  r_Target :: string
  r_Session :: SessionID
  r_Seq :: int
  r_Nav :: NavID
  r_Outcome :: Outcome
  r_ErrClass :: pclass
  r_ErrCode :: string
  r_StartedAt :: instant
  r_Latency :: duration
  r_BytesIn :: int
  r_BytesOut :: int
  r_HTTP :: "HTTPMeta option"
  r_DNS :: "DNSMeta option"
  r_SSH :: "SSHMeta option"
  r_Stream :: "StreamMeta option"

text \<open>The zero value: \<open>ErrClass\<close> 0 is \<open>ClassTransient\<close>, \<open>Outcome\<close> 0 is \<open>OutcomeSuccess\<close>.\<close>

definition zero_Result :: Result where
  "zero_Result = \<lparr>r_Protocol = '''', r_Action = '''', r_Target = '''', r_Session = '''', r_Seq = 0,
     r_Nav = '''', r_Outcome = OutcomeSuccess, r_ErrClass = ClassTransient, r_ErrCode = '''',
     r_StartedAt = zero_time, r_Latency = 0, r_BytesIn = 0, r_BytesOut = 0,
     r_HTTP = None, r_DNS = None, r_SSH = None, r_Stream = None\<rparr>"

section \<open>Errors\<close>

definition RoutingError_Error :: "(string \<Rightarrow> string) \<Rightarrow> string \<Rightarrow> string \<Rightarrow> string \<Rightarrow> string" where
  "RoutingError_Error quote got proto msg =
     (if msg \<noteq> ''''
      then ''protocols: routing error: action '' @ quote got @ '' (proto '' @ quote proto @ ''): '' @ msg
      else ''protocols: routing error: action '' @ quote got @ '' (proto '' @ quote proto @ '')'')"

definition RoutingError_Class :: pclass where "RoutingError_Class = ClassPermanent"

definition ValidationError_Error :: "(string \<Rightarrow> string) \<Rightarrow> string \<Rightarrow> string \<Rightarrow> string" where
  "ValidationError_Error quote field msg =
     ''protocols: validation error: field '' @ quote field @ '': '' @ msg"

definition ValidationError_Class :: pclass where "ValidationError_Class = ClassConfig"

section \<open>The registry\<close>

text \<open>A store whose first entry for a key is final: what every caller of the registry relies on.\<close>

locale first_wins =
  fixes empty :: 's and ok :: "'k \<Rightarrow> bool" and get :: "'s \<Rightarrow> 'k \<Rightarrow> 'v option"
    and put :: "'s \<Rightarrow> 'k \<Rightarrow> 'v \<Rightarrow> 's"
  assumes get_empty: "get empty k = None"
    and get_put: "get (put s k v) k' = (if k' = k \<and> ok k \<and> get s k = None then Some v else get s k')"
begin

lemma put_keeps: "get s k = Some w \<Longrightarrow> get (put s k' v) k = Some w"
  by (auto simp: get_put)

lemma get_puts:
  "get (foldl (\<lambda>s p. put s (fst p) (snd p)) s ps) k =
     (case get s k of Some w \<Rightarrow> Some w
      | None \<Rightarrow> if ok k then map_option snd (List.find (\<lambda>p. fst p = k) ps) else None)"
  by (induction ps arbitrary: s) (auto simp: get_put split: option.split)

lemma get_puts_empty:
  "get (foldl (\<lambda>s p. put s (fst p) (snd p)) empty ps) k =
     (if ok k then map_option snd (List.find (\<lambda>p. fst p = k) ps) else None)"
  by (simp add: get_puts get_empty)

end

record 'h Registry = rg_byID :: "ProtocolID \<rightharpoonup> 'h"

definition NewRegistry :: "'h Registry" where
  "NewRegistry = \<lparr>rg_byID = Map.empty\<rparr>"

definition Register ::
  "('h \<Rightarrow> ProtocolID) \<Rightarrow> 'h Registry \<Rightarrow> 'h option \<Rightarrow> 'h Registry \<times> goerr option" where
  "Register ID r h =
     (case h of
        None \<Rightarrow> (r, Some (RoutingError '''' '''' ''cannot register a nil ProtocolHandler''))
      | Some hh \<Rightarrow>
          (let i = ID hh
           in if i = ''''
              then (r, Some (RoutingError '''' '''' ''cannot register a handler with an empty ProtocolID''))
              else if rg_byID r i \<noteq> None
              then (r, Some (RoutingError '''' i ''a handler is already registered for this protocol''))
              else (r\<lparr>rg_byID := (rg_byID r)(i \<mapsto> hh)\<rparr>, None)))"

definition Lookup :: "'h Registry \<Rightarrow> ProtocolID \<Rightarrow> 'h option" where
  "Lookup r i = rg_byID r i"

definition Handlers :: "'h Registry \<Rightarrow> 'h set" where
  "Handlers r = ran (rg_byID r)"

text \<open>Wiring: the handlers of the list, in order, each under its own \<open>ID\<close>.\<close>

definition wire :: "('h \<Rightarrow> ProtocolID) \<Rightarrow> 'h Registry \<Rightarrow> 'h list \<Rightarrow> 'h Registry" where
  "wire ID r hs = foldl (\<lambda>r h. fst (Register ID r (Some h))) r hs"

text \<open>Registration under the key a handler names, as a store.\<close>

definition register_as :: "'h Registry \<Rightarrow> ProtocolID \<Rightarrow> 'h \<Rightarrow> 'h Registry" where
  "register_as r i h =
     (if i = '''' \<or> Lookup r i \<noteq> None then r else r\<lparr>rg_byID := (rg_byID r)(i \<mapsto> h)\<rparr>)"

lemma Register_as: "fst (Register ID r (Some h)) = register_as r (ID h) h"
  by (auto simp: Register_def register_as_def Lookup_def Let_def)

interpretation registry: first_wins NewRegistry "\<lambda>i. i \<noteq> ''''" Lookup register_as
  by unfold_locales (auto simp: NewRegistry_def Lookup_def register_as_def)

lemma wire_as: "wire ID r hs = foldl (\<lambda>r p. register_as r (fst p) (snd p)) r (map (\<lambda>h. (ID h, h)) hs)"
  by (induction hs arbitrary: r) (simp_all add: wire_def Register_as)

text \<open>After wiring a list of handlers, a protocol resolves to the first handler of the list
  that names it, an unnamed one to nothing and the empty identifier to nothing; no later
  registration shadows it, and a refused one changes nothing.\<close>

theorem registry_first_handler_wins:
  "Lookup (wire ID NewRegistry hs) i =
     (if i = '''' then None else List.find (\<lambda>h. ID h = i) hs)
   \<and> (snd (Register ID r (Some h)) = None \<longleftrightarrow> ID h \<noteq> '''' \<and> Lookup r (ID h) = None)
   \<and> \<not> (snd (Register ID r (Some h)) \<noteq> None \<and> fst (Register ID r (Some h)) \<noteq> r)
   \<and> Register ID r None = (r, Some (RoutingError '''' '''' ''cannot register a nil ProtocolHandler''))"
proof (intro conjI)
  show "Lookup (wire ID NewRegistry hs) i = (if i = '''' then None else List.find (\<lambda>h. ID h = i) hs)"
    unfolding wire_as registry.get_puts_empty
    by (simp add: find_map comp_def option.map_comp option.map_ident)
qed (auto simp: Register_def Lookup_def Let_def)

section \<open>The navigation allowlist\<close>

text \<open>A record cannot hold itself, so a target inside a proxy chain is a \<open>Hop\<close>, with the same
  fields.\<close>

datatype Hop = Hop (hop_ID: string) (hop_Proto: ProtocolID) (hop_Addr: string)
  (hop_Cred: CredentialRef) (hop_Proxy: "Hop list")

record Target =
  t_ID :: string
  t_Proto :: ProtocolID
  t_Addr :: string
  t_Cred :: CredentialRef
  t_Proxy :: "Hop list"

text \<open>\<open>hostAllow\<close> is nil in the zero \<open>TargetSet\<close>.\<close>

record TargetSet =
  ts_byProto :: "ProtocolID \<Rightarrow> Target list"
  ts_allowed :: "string set option"

definition zero_TargetSet :: TargetSet where
  "zero_TargetSet = \<lparr>ts_byProto = \<lambda>_. [], ts_allowed = None\<rparr>"

definition strip_port :: "string \<Rightarrow> string" where
  "strip_port h =
     (case LastIndexByte h (CHR '':'') of
        None \<Rightarrow> h
      | Some i \<Rightarrow>
          if HasPrefix h ''[''
          then (case IndexByte h (CHR '']'') of
                  Some j \<Rightarrow> if i > j then take i h else h
                | None \<Rightarrow> h)
          else if CountByte h (CHR '':'') = 1 then take i h
          else h)"

definition normalizeHost :: "(string \<Rightarrow> string) \<Rightarrow> string \<Rightarrow> string" where
  "normalizeHost uni hostport =
     (let h = TrimSpace hostport
      in if h = '''' then ''''
         else let h1 = strip_port h;
                  h2 = TrimSuffix h1 ''.'';
                  h3 = TrimPrefix h2 ''['';
                  h4 = TrimSuffix h3 '']''
              in ToLower uni h4)"

definition hostAllow_permits :: "(string \<Rightarrow> string) \<Rightarrow> string set option \<Rightarrow> string \<Rightarrow> bool" where
  "hostAllow_permits uni h host \<longleftrightarrow>
     (case h of None \<Rightarrow> False
      | Some hosts \<Rightarrow> if hosts = {} then False else normalizeHost uni host \<in> hosts)"

definition add_host :: "(string \<Rightarrow> string) \<Rightarrow> string set \<Rightarrow> string \<Rightarrow> string set" where
  "add_host uni hosts a =
     (let hn = normalizeHost uni a in if hn \<noteq> '''' then insert hn hosts else hosts)"

definition NewTargetSet :: "(string \<Rightarrow> string) \<Rightarrow> Target list \<Rightarrow> string list \<Rightarrow> TargetSet" where
  "NewTargetSet uni targets allowedDomains =
     \<lparr>ts_byProto = (\<lambda>p. filter (\<lambda>t. t_Proto t = p) targets),
      ts_allowed = Some (foldl (add_host uni) (foldl (\<lambda>hs t. add_host uni hs (t_Addr t)) {} targets)
                           allowedDomains)\<rparr>"

definition Permits :: "(string \<Rightarrow> string) \<Rightarrow> TargetSet \<Rightarrow> string \<Rightarrow> bool" where
  "Permits uni ts host = hostAllow_permits uni (ts_allowed ts) host"

definition TargetsFor :: "TargetSet \<Rightarrow> ProtocolID \<Rightarrow> Target list" where
  "TargetsFor ts p = ts_byProto ts p"

lemma foldl_add_host:
  "foldl (\<lambda>hs x. add_host uni hs (f x)) hs xs =
     hs \<union> {normalizeHost uni (f x) | x. x \<in> set xs \<and> normalizeHost uni (f x) \<noteq> ''''}"
  by (induction xs arbitrary: hs) (auto simp: add_host_def Let_def)

text \<open>C33. Default deny: a host is permitted exactly when its normal form is the (non-empty) normal
  form of the address of a listed target or of an allowed domain; the zero value and an empty
  host are denied.\<close>

theorem allowlist_is_exact:
  "(Permits uni (NewTargetSet uni targets domains) host \<longleftrightarrow>
      normalizeHost uni host \<noteq> ''''
    \<and> normalizeHost uni host \<in> normalizeHost uni ` (t_Addr ` set targets \<union> set domains))
   \<and> \<not> Permits uni zero_TargetSet host
   \<and> TargetsFor (NewTargetSet uni targets domains) p = filter (\<lambda>t. t_Proto t = p) targets"
  using foldl_add_host [of uni t_Addr "{}" targets]
    foldl_add_host [of uni "\<lambda>x. x" "foldl (\<lambda>hs t. add_host uni hs (t_Addr t)) {} targets" domains]
  by (auto simp: Permits_def NewTargetSet_def hostAllow_permits_def zero_TargetSet_def TargetsFor_def)

section \<open>Host names\<close>

text \<open>The characters of a host name or an IPv4 address.\<close>

definition host_char :: "char \<Rightarrow> bool" where
  "host_char c \<longleftrightarrow> (let n = of_char c :: nat in
     (97 \<le> n \<and> n \<le> 122) \<or> (65 \<le> n \<and> n \<le> 90) \<or> (48 \<le> n \<and> n \<le> 57) \<or> n = 45 \<or> n = 46)"

lemma space_rune_bytes:
  "r \<in> set space_runes \<Longrightarrow> \<not> host_char (hd r) \<and> \<not> host_char (last r)"
  by (auto simp: space_runes_def host_char_def Let_def)

lemma cut_left_host: "host_char c \<Longrightarrow> cut_left (c # s) = None"
proof -
  assume c: "host_char c"
  have "\<not> HasPrefix (c # s) r" if "r \<in> set space_runes" for r
    using space_rune_bytes [OF that] space_runes_nonempty [OF that] c
    by (cases r) (auto simp: HasPrefix_def)
  then show ?thesis by (auto simp: cut_left_def find_None_iff)
qed

lemma cut_right_host: "host_char c \<Longrightarrow> cut_right (s @ [c]) = None"
proof -
  assume c: "host_char c"
  have "\<not> HasSuffix (s @ [c]) r" if r: "r \<in> set space_runes" for r
  proof
    assume suf: "HasSuffix (s @ [c]) r"
    obtain u d where "r = u @ [d]" using space_runes_nonempty [OF r] by (cases r rule: rev_cases) auto
    then have "c = d" using suf by (auto simp: HasSuffix_def append_eq_append_conv_if)
    then show False using space_rune_bytes [OF r] c \<open>r = u @ [d]\<close> by simp
  qed
  then show ?thesis by (auto simp: cut_right_def find_None_iff)
qed

lemma TrimSpace_host:
  assumes "s \<noteq> []" "host_char (hd s)" "host_char (last s)" shows "TrimSpace s = s"
proof -
  obtain c t where s: "s = c # t" using assms(1) by (cases s) auto
  obtain u d where s': "s = u @ [d]" using assms(1) by (cases s rule: rev_cases) auto
  have "TrimLeftSpace s = s"
    using assms(2) s cut_left_host [of c t] by (subst TrimLeftSpace.simps) simp
  moreover have "TrimRightSpace s = s"
    using assms(3) s' cut_right_host [of d u] by (subst TrimRightSpace.simps) simp
  ultimately show ?thesis by (simp add: TrimSpace_def)
qed

definition host_name :: "string \<Rightarrow> bool" where
  "host_name h \<longleftrightarrow> h \<noteq> [] \<and> list_all host_char h"

lemma host_char_not [simp]:
  "\<not> host_char (CHR '':'')" "\<not> host_char (CHR ''['')" "\<not> host_char (CHR '']'')"
  by (simp_all add: host_char_def Let_def)

lemma digit_host_char: "is_digit c \<Longrightarrow> host_char c"
  by (simp add: is_digit_def host_char_def Let_def)

lemma host_char_lower: "host_char c \<Longrightarrow> host_char (lower_char c)"
  by (auto simp: host_char_def lower_char_def Let_def)

lemma host_ascii: "list_all host_char h \<Longrightarrow> ascii h"
  by (auto simp: ascii_def list_all_iff host_char_def Let_def)

lemma LastIndexByte_append:
  "c \<notin> set t \<Longrightarrow> LastIndexByte (s @ c # t) c = Some (length s)"
  by (induction s) (simp_all add: LastIndexByte_None_iff [THEN iffD2])

lemma strip_port_host:
  assumes "list_all host_char h" shows "strip_port h = h"
proof -
  have "CHR '':'' \<notin> set h" using assms by (auto simp: list_all_iff)
  then show ?thesis by (simp add: strip_port_def LastIndexByte_None_iff [THEN iffD2])
qed

lemma strip_port_drops:
  assumes "host_name h" "list_all is_digit p" shows "strip_port (h @ CHR '':'' # p) = h"
proof -
  have nc: "CHR '':'' \<notin> set h" using assms(1) by (auto simp: host_name_def list_all_iff)
  have np: "CHR '':'' \<notin> set p" using assms(2) by (auto simp: list_all_iff is_digit_def)
  have "\<not> HasPrefix (h @ CHR '':'' # p) ''[''"
    using assms(1) by (cases h) (auto simp: host_name_def HasPrefix_def)
  moreover have "CountByte (h @ CHR '':'' # p) (CHR '':'') = 1"
  proof -
    have "filter (\<lambda>x. x = CHR '':'') h = []" "filter (\<lambda>x. x = CHR '':'') p = []"
      using nc np by (auto simp: filter_empty_conv)
    then show ?thesis by (simp add: CountByte_def)
  qed
  ultimately show ?thesis by (simp add: strip_port_def LastIndexByte_append [OF np])
qed

lemma list_all_TrimSuffix: "list_all P s \<Longrightarrow> list_all P (TrimSuffix s x)"
  by (auto simp: TrimSuffix_def list_all_iff dest: in_set_takeD)

lemma host_name_ends: "host_name h \<Longrightarrow> host_char (hd h) \<and> host_char (last h)"
  by (auto simp: host_name_def list_all_iff)

lemma not_bracketed:
  assumes "list_all host_char s" shows "TrimPrefix s ''['' = s" "TrimSuffix s '']'' = s"
proof -
  show "TrimPrefix s ''['' = s"
    using assms by (cases s) (auto simp: TrimPrefix_def HasPrefix_def)
  show "TrimSuffix s '']'' = s"
    using assms by (cases s rule: rev_cases) (auto simp: TrimSuffix_def HasSuffix_def)
qed

text \<open>What the last four steps do to a plain host.\<close>

lemma normalize_plain:
  assumes "list_all host_char h"
  shows "ToLower uni (TrimSuffix (TrimPrefix (TrimSuffix h ''.'') ''['') '']'')
     = map lower_char (TrimSuffix h ''.'')"
  using not_bracketed [OF list_all_TrimSuffix [OF assms]] host_ascii [OF list_all_TrimSuffix [OF assms]]
  by (simp add: ToLower_def)

lemma normalizeHost_name:
  "host_name h \<Longrightarrow> normalizeHost uni h = map lower_char (TrimSuffix h ''.'')"
  using TrimSpace_host [of h] host_name_ends [of h] strip_port_host [of h] normalize_plain [of h uni]
  by (simp add: normalizeHost_def Let_def host_name_def)

lemma normalizeHost_name_port:
  assumes "host_name h" "list_all is_digit p" "p \<noteq> []"
  shows "normalizeHost uni (h @ CHR '':'' # p) = map lower_char (TrimSuffix h ''.'')"
proof -
  have "is_digit (last p)" using assms(2,3) by (simp add: list_all_iff)
  then have "TrimSpace (h @ CHR '':'' # p) = h @ CHR '':'' # p"
    using host_name_ends [OF assms(1)] assms(1,3)
    by (intro TrimSpace_host) (auto simp: host_name_def digit_host_char)
  then show ?thesis
    using strip_port_drops [OF assms(1,2)] normalize_plain [of h uni] assms(1)
    by (simp add: normalizeHost_def Let_def host_name_def)
qed

lemma of_char_lower: "(of_char (lower_char c) :: nat) =
   (if 65 \<le> (of_char c :: nat) \<and> (of_char c :: nat) \<le> 90 then of_char c + 32 else of_char c)"
  by (simp add: lower_char_def Let_def)

lemma lower_dot: "lower_char c = CHR ''.'' \<longleftrightarrow> c = CHR ''.''"
proof -
  have "d = CHR ''.'' \<longleftrightarrow> (of_char d :: nat) = 46" for d
    using of_char_eq_iff [of d "CHR ''.''", where 'a = nat] by simp
  then have "lower_char c = CHR ''.'' \<longleftrightarrow> (of_char (lower_char c) :: nat) = 46"
    "c = CHR ''.'' \<longleftrightarrow> (of_char c :: nat) = 46" by blast+
  then show ?thesis by (simp add: of_char_lower split: if_splits)
qed

lemma TrimSuffix_lower: "TrimSuffix (map lower_char h) ''.'' = map lower_char (TrimSuffix h ''.'')"
  by (cases h rule: rev_cases) (simp_all add: TrimSuffix_def HasSuffix_def lower_dot)

text \<open>Host-only, case-insensitive membership: for a host name or IPv4 address, its port, its
  letter case and one trailing dot never change what the allowlist answers.\<close>

theorem allowlist_ignores_port_and_case:
  assumes "host_name h" and "list_all is_digit p" and "p \<noteq> []"
  shows "Permits uni ts (h @ CHR '':'' # p) = Permits uni ts h
       \<and> Permits uni ts (map lower_char h) = Permits uni ts h
       \<and> (\<not> HasSuffix h ''.'' \<longrightarrow> Permits uni ts (h @ ''.'') = Permits uni ts h)"
proof -
  have "host_name (map lower_char h)" "host_name (h @ ''.'')"
    using assms(1) by (auto simp: host_name_def list_all_iff host_char_lower) (simp add: host_char_def)
  then have "normalizeHost uni (map lower_char h) = normalizeHost uni h"
    "\<not> HasSuffix h ''.'' \<longrightarrow> normalizeHost uni (h @ ''.'') = normalizeHost uni h"
    using assms(1) by (simp_all add: normalizeHost_name TrimSuffix_lower)
      (simp add: TrimSuffix_def HasSuffix_def)
  moreover have "normalizeHost uni (h @ CHR '':'' # p) = normalizeHost uni h"
    using normalizeHost_name_port [OF assms] normalizeHost_name [OF assms(1)] by simp
  ultimately show ?thesis
    unfolding Permits_def by (cases "ts_allowed ts") (simp_all add: hostAllow_permits_def)
qed

theorem allowlist_ignores_port_and_case_witness:
  "Permits uni ts ''Example.com:8443'' = Permits uni ts ''Example.com''"
  using allowlist_ignores_port_and_case [of "''Example.com''" "''8443''" uni ts]
  by (simp add: host_name_def host_char_def is_digit_def Let_def)

end
