(* ===== verification/Shaping.thy ===== *)
theory Shaping
  imports Rng Protocols "HOL-Library.Monad_Syntax"
begin

text \<open>
  The realism primitives of \<open>internal/behavior\<close>: think-time distributions (\<open>dist.go\<close>), jitter
  (\<open>jitter.go\<close>), the time-of-day curve (\<open>timeofday.go\<close>), the burst process (\<open>burst.go\<close>) and
  the shaper that chains them (\<open>shaper.go\<close>).

  An interface value with several implementations is a datatype with one constructor per
  implementation. Every draw threads the state of the random source; None is a panic of the
  source. \<open>math.Exp\<close> is the parameter \<open>expf\<close>, the out-of-range conversion of a float to an
  integer the parameter \<open>oor\<close>, and the time zone database the parameter \<open>In\<close> that turns an
  instant into its wall-clock fields at a location.
\<close>

section \<open>Distributions\<close>

datatype Distribution = Constant duration
  | Uniform duration duration
  | Normal duration duration duration duration
  | LogNormal f64 f64 duration
  | Exponential duration

fun Distribution_Name :: "Distribution \<Rightarrow> string" where
  "Distribution_Name (Constant _) = ''constant''"
| "Distribution_Name (Uniform _ _) = ''uniform''"
| "Distribution_Name (Normal _ _ _ _) = ''normal''"
| "Distribution_Name (LogNormal _ _ _) = ''lognormal''"
| "Distribution_Name (Exponential _) = ''exponential''"

definition clampNonNeg :: "duration \<Rightarrow> duration" where
  "clampNonNeg d = (if d < 0 then 0 else d)"

fun Sample ::
  "(f64 \<Rightarrow> f64) \<Rightarrow> (f64 \<Rightarrow> int) \<Rightarrow> 'r Rand \<Rightarrow> Distribution \<Rightarrow> 'r \<Rightarrow> (duration \<times> 'r) option" where
  "Sample expf oor R (Constant d) r = Some (clampNonNeg d, r)"
| "Sample expf oor R (Uniform mn mx) r =
     (let span = i64 (mx - mn)
      in if span \<le> 0 then Some (clampNonNeg mn, r)
         else do { (u, r') \<leftarrow> rand_Float64 R r;
                   Some (clampNonNeg (i64 (mn + f_to_i64 oor (f_mul u (f64_of_int span)))), r') })"
| "Sample expf oor R (Normal mean sd mn mx) r =
     do { (z, r') \<leftarrow> rand_NormFloat64 R r;
          let d = i64 (mean + f_to_i64 oor (f_mul z (f64_of_int sd)));
          let d1 = (if d < mn then mn else d);
          let d2 = (if d1 > mx then mx else d1);
          Some (clampNonNeg d2, r') }"
| "Sample expf oor R (LogNormal mu sigma scale) r =
     do { let scale1 = (if scale = 0 then second else scale);
          (z, r') \<leftarrow> rand_NormFloat64 R r;
          let f = f_mul (expf (f_add mu (f_mul sigma z))) (f64_of_int scale1);
          Some (if f = NaN then 0 else clampNonNeg (f_to_i64 oor f), r') }"
| "Sample expf oor R (Exponential mean) r =
     do { (x, r') \<leftarrow> rand_ExpFloat64 R r;
          Some (clampNonNeg (f_to_i64 oor (f_mul x (f64_of_int mean))), r') }"

section \<open>Jitter\<close>

datatype JitterModel = NoJitter | ProportionalJitter f64

fun Jitter_Name :: "JitterModel \<Rightarrow> string" where
  "Jitter_Name NoJitter = ''none''"
| "Jitter_Name (ProportionalJitter _) = ''proportional''"

fun Jitter ::
  "(f64 \<Rightarrow> int) \<Rightarrow> 'r Rand \<Rightarrow> JitterModel \<Rightarrow> duration \<Rightarrow> 'r \<Rightarrow> (duration \<times> 'r) option" where
  "Jitter oor R NoJitter d r = Some (d, r)"
| "Jitter oor R (ProportionalJitter f) d r =
     (if f_le f (Fin 0) then Some (d, r)
      else let f1 = (if f_lt (Fin 1) f then Fin 1 else f)
           in do { (u, r') \<leftarrow> rand_Float64 R r;
                   let factor = f_add (f_sub (Fin 1) f1) (f_mul (f_mul (Fin 2) f1) u);
                   Some (clampNonNeg (f_to_i64 oor (f_mul (f64_of_int d) factor)), r') })"

section \<open>Time of day\<close>

text \<open>The wall-clock fields of an instant at a location; \<open>lt_weekday\<close> 0 is Sunday.\<close>

record localtime =
  lt_weekday :: nat
  lt_hour :: nat
  lt_minute :: nat
  lt_second :: nat
  lt_nanosecond :: nat

text \<open>The float64 constant 0.01.\<close>

definition intensityFloor :: f64 where
  "intensityFloor = Fin (5764607523034235 / 576460752303423488)"

definition clampIntensity :: "f64 \<Rightarrow> f64" where
  "clampIntensity v = (if f_lt v intensityFloor then intensityFloor else if f_lt (Fin 1) v then Fin 1 else v)"

text \<open>A curve with its location (None is nil, then UTC) and its two 24-point tables.\<close>

datatype 'loc TimeOfDayShaper = PiecewiseCurve "'loc option" "f64 list" "f64 list" | FlatTimeOfDay

fun TimeOfDay_Name :: "'loc TimeOfDayShaper \<Rightarrow> string" where
  "TimeOfDay_Name (PiecewiseCurve _ _ _) = ''piecewise''"
| "TimeOfDay_Name FlatTimeOfDay = ''flat''"

fun Intensity :: "('loc \<Rightarrow> instant \<Rightarrow> localtime) \<Rightarrow> 'loc \<Rightarrow> 'loc TimeOfDayShaper \<Rightarrow> instant \<Rightarrow> f64" where
  "Intensity In utc (PiecewiseCurve loc weekday weekend) now =
     (let t = In (case loc of None \<Rightarrow> utc | Some l \<Rightarrow> l) now;
          table = (if lt_weekday t = 6 \<or> lt_weekday t = 0 then weekend else weekday);
          h = lt_hour t;
          frac = f_div (f_add (f_mul (f64_of_int (int (lt_minute t))) (Fin 60))
                              (f64_of_int (int (lt_second t)))) (Fin 3600);
          a = table ! h;
          b = table ! ((h + 1) mod 24)
      in clampIntensity (f_add a (f_mul (f_sub b a) frac)))"
| "Intensity In utc FlatTimeOfDay now = Fin 1"

section \<open>Bursts\<close>

record BurstPhase =
  bp_Idle :: bool
  bp_IdleFor :: duration

definition quiet_phase :: BurstPhase where
  "quiet_phase = \<lparr>bp_Idle = False, bp_IdleFor = 0\<rparr>"

record RenewalBurst =
  bu_Active :: Distribution
  bu_Idle :: Distribution
  bu_started :: bool
  bu_idle :: bool
  bu_phaseEnd :: instant

definition NewRenewalBurst :: "Distribution \<Rightarrow> Distribution \<Rightarrow> RenewalBurst" where
  "NewRenewalBurst active idl = \<lparr>bu_Active = active, bu_Idle = idl, bu_started = False,
     bu_idle = False, bu_phaseEnd = zero_time\<rparr>"

definition renewal_Phase ::
  "(f64 \<Rightarrow> f64) \<Rightarrow> (f64 \<Rightarrow> int) \<Rightarrow> 'r Rand \<Rightarrow> instant \<Rightarrow> RenewalBurst \<Rightarrow> 'r
     \<Rightarrow> (BurstPhase \<times> RenewalBurst \<times> 'r) option" where
  "renewal_Phase expf oor R now b r =
     (if \<not> bu_started b then
        do { (d, r') \<leftarrow> Sample expf oor R (bu_Active b) r;
             Some (quiet_phase, b\<lparr>bu_started := True, bu_idle := False, bu_phaseEnd := time_add now d\<rparr>, r') }
      else if now < bu_phaseEnd b then Some (quiet_phase, b, r)
      else if bu_idle b then
        do { (d, r') \<leftarrow> Sample expf oor R (bu_Active b) r;
             Some (quiet_phase, b\<lparr>bu_idle := False, bu_phaseEnd := time_add now d\<rparr>, r') }
      else
        do { (d, r') \<leftarrow> Sample expf oor R (bu_Idle b) r;
             Some (\<lparr>bp_Idle = True, bp_IdleFor = d\<rparr>,
                   b\<lparr>bu_idle := True, bu_phaseEnd := time_add now d\<rparr>, r') })"

datatype BurstModel = AlwaysActive | Renewal RenewalBurst

fun Burst_Name :: "BurstModel \<Rightarrow> string" where
  "Burst_Name AlwaysActive = ''always-active''"
| "Burst_Name (Renewal _) = ''renewal''"

fun Phase ::
  "(f64 \<Rightarrow> f64) \<Rightarrow> (f64 \<Rightarrow> int) \<Rightarrow> 'r Rand \<Rightarrow> instant \<Rightarrow> BurstModel \<Rightarrow> 'r
     \<Rightarrow> (BurstPhase \<times> BurstModel \<times> 'r) option" where
  "Phase expf oor R now AlwaysActive r = Some (quiet_phase, AlwaysActive, r)"
| "Phase expf oor R now (Renewal b) r =
     do { (ph, b', r') \<leftarrow> renewal_Phase expf oor R now b r; Some (ph, Renewal b', r') }"

fun Burst_Clone :: "BurstModel \<Rightarrow> BurstModel" where
  "Burst_Clone AlwaysActive = AlwaysActive"
| "Burst_Clone (Renewal b) = Renewal (NewRenewalBurst (bu_Active b) (bu_Idle b))"

section \<open>The shaper\<close>

definition subResourceJitterMax :: duration where
  "subResourceJitterMax = 15 * millisecond"

definition priorSlowThreshold :: duration where
  "priorSlowThreshold = 2 * second"

definition priorSlowFactor :: f64 where "priorSlowFactor = Fin (3 / 2)"
definition priorFailFactor :: f64 where "priorFailFactor = Fin 2"

definition applyPriorReaction :: "(f64 \<Rightarrow> int) \<Rightarrow> duration \<Rightarrow> Result option \<Rightarrow> duration" where
  "applyPriorReaction oor w prior =
     (case prior of None \<Rightarrow> w
      | Some p \<Rightarrow>
          if r_Outcome p = OutcomeFailure \<or> r_Outcome p = OutcomePanicked
          then f_to_i64 oor (f_mul (f64_of_int w) priorFailFactor)
          else if r_Latency p \<ge> priorSlowThreshold
          then f_to_i64 oor (f_mul (f64_of_int w) priorSlowFactor)
          else w)"

record 'loc chainShaper =
  cs_jitter :: JitterModel
  cs_burst :: BurstModel
  cs_tod :: "'loc TimeOfDayShaper"

definition NewChainShaper ::
  "JitterModel option \<Rightarrow> BurstModel option \<Rightarrow> 'loc TimeOfDayShaper option \<Rightarrow> 'loc chainShaper" where
  "NewChainShaper j b t =
     \<lparr>cs_jitter = (case j of None \<Rightarrow> NoJitter | Some x \<Rightarrow> x),
      cs_burst = (case b of None \<Rightarrow> AlwaysActive | Some x \<Rightarrow> x),
      cs_tod = (case t of None \<Rightarrow> FlatTimeOfDay | Some x \<Rightarrow> x)\<rparr>"

record ShapeDecision =
  sdc_Wait :: duration
  sdc_Idle :: bool

text \<open>\<open>Shape\<close>. The lazy \<open>Think\<close> is the function \<open>think\<close>, applied only on the branch that calls it.\<close>

definition Shape ::
  "(f64 \<Rightarrow> f64) \<Rightarrow> (f64 \<Rightarrow> int) \<Rightarrow> 'r Rand \<Rightarrow> ('loc \<Rightarrow> instant \<Rightarrow> localtime) \<Rightarrow> 'loc \<Rightarrow> 'loc chainShaper
     \<Rightarrow> instant \<Rightarrow> ('r \<Rightarrow> (duration \<times> 'r) option) \<Rightarrow> Cause \<Rightarrow> Result option \<Rightarrow> 'r
     \<Rightarrow> (ShapeDecision \<times> 'loc chainShaper \<times> 'r) option" where
  "Shape expf oor R In utc c now think cause prior r =
     (if cause = CauseControl then Some (\<lparr>sdc_Wait = 0, sdc_Idle = False\<rparr>, c, r)
      else if cause = CauseSubResource then
        do { (u, r') \<leftarrow> rand_Float64 R r;
             let w = f_to_i64 oor (f_mul u (f64_of_int subResourceJitterMax));
             Some (\<lparr>sdc_Wait = clampNonNeg w, sdc_Idle = False\<rparr>, c, r') }
      else
        do { (ph, b', r1) \<leftarrow> Phase expf oor R now (cs_burst c) r;
             let c' = c\<lparr>cs_burst := b'\<rparr>;
             if bp_Idle ph then Some (\<lparr>sdc_Wait = bp_IdleFor ph, sdc_Idle = True\<rparr>, c', r1)
             else do { (t, r2) \<leftarrow> think r1;
                       (w, r3) \<leftarrow> Jitter oor R (cs_jitter c) t r2;
                       let i = Intensity In utc (cs_tod c) now;
                       let w1 = (if f_lt (Fin 0) i then f_to_i64 oor (f_div (f64_of_int w) i) else w);
                       Some (\<lparr>sdc_Wait = clampNonNeg (applyPriorReaction oor w1 prior), sdc_Idle = False\<rparr>,
                             c', r3) } })"

section \<open>Sampling\<close>

lemma clampNonNeg_nonneg [simp]: "0 \<le> clampNonNeg d"
  by (simp add: clampNonNeg_def)

lemma clampNonNeg_max: "clampNonNeg d = max 0 d"
  by (simp add: clampNonNeg_def)

lemma Sample_nonneg: "Sample expf oor R D r = Some (d, r') \<Longrightarrow> 0 \<le> d"
  by (cases D) (auto simp: Let_def bind_eq_Some_conv split: if_splits)

text \<open>What a distribution declares about its samples.\<close>

fun declared_bounds :: "Distribution \<Rightarrow> duration \<Rightarrow> bool" where
  "declared_bounds (Constant c) d = (d = max 0 c)"
| "declared_bounds (Uniform mn mx) d = (max 0 mn \<le> d \<and> d \<le> max 0 (max mn mx))"
| "declared_bounds (Normal mean sd mn mx) d = (mn \<le> mx \<longrightarrow> max 0 mn \<le> d \<and> d \<le> max 0 mx)"
| "declared_bounds _ d = (0 \<le> d)"

definition dist_sized :: "Distribution \<Rightarrow> bool" where
  "dist_sized D \<longleftrightarrow> (case D of Uniform mn mx \<Rightarrow> \<bar>mn\<bar> < 2 ^ 52 \<and> \<bar>mx\<bar> < 2 ^ 52 | _ \<Rightarrow> True)"

context unit_source
begin

lemma Sample_inv:
  assumes "inv r" "Sample expf oor R D r = Some (d, r')" shows "inv r'"
  using assms by (cases D) (auto simp: Let_def bind_eq_Some_conv split: if_splits
      dest: Float64_unit Exp_nonneg Norm_inv)

lemma Sample_declared:
  assumes "inv r" "Sample expf oor R D r = Some (d, r')" "dist_sized D"
  shows "declared_bounds D d"
proof (cases D)
  case (Uniform mn mx)
  have s: "\<bar>mn\<bar> < 4503599627370496" "\<bar>mx\<bar> < 4503599627370496"
    using assms(3) Uniform by (simp_all add: dist_sized_def)
  have span: "i64 (mx - mn) = mx - mn" using s by (intro i64_small) linarith+
  show ?thesis
  proof (cases "mx - mn \<le> 0")
    case True
    then show ?thesis using assms(2) Uniform span by (simp add: clampNonNeg_max)
  next
    case False
    then obtain u where u: "rand_Float64 R r = Some (u, r')"
      "d = clampNonNeg (i64 (mn + f_to_i64 oor (f_mul u (f64_of_int (mx - mn)))))"
      using assms(2) Uniform span by (auto simp: Let_def bind_eq_Some_conv)
    have "unit_draw u" using Float64_unit [OF assms(1) u(1)] by simp
    moreover have "mx - mn < 2 ^ 53" using s by simp
    ultimately have b: "0 \<le> f_to_i64 oor (f_mul u (f64_of_int (mx - mn)))"
      "f_to_i64 oor (f_mul u (f64_of_int (mx - mn))) \<le> mx - mn"
      using unit_scale [of u "mx - mn" oor] False by auto
    then have "i64 (mn + f_to_i64 oor (f_mul u (f64_of_int (mx - mn))))
        = mn + f_to_i64 oor (f_mul u (f64_of_int (mx - mn)))"
      using s by (intro i64_small) linarith+
    moreover from False have "mn < mx" by simp
    ultimately show ?thesis using Uniform u(2) b by (simp add: clampNonNeg_max max_def)
  qed
qed (use assms Sample_nonneg [OF assms(2)] in
      \<open>auto simp: Let_def bind_eq_Some_conv clampNonNeg_max split: if_splits\<close>)

end

text \<open>Every sample is non-negative and within the bounds its distribution declares: a constant
  is itself, a uniform sample lies between its ends, a normal one is cut to its window whatever
  the draw and however the float conversion behaves.\<close>

theorem samples_within_declared_bounds:
  assumes "unit_source R rok" "rok r" "Sample expf oor R D r = Some (d, r')" "dist_sized D"
  shows "0 \<le> d \<and> declared_bounds D d \<and> rok r'"
  using unit_source.Sample_declared [OF assms] unit_source.Sample_inv [OF assms(1-3)]
    Sample_nonneg [OF assms(3)] by blast

definition one_half_rand :: fakeRand where
  "one_half_rand = fake_New \<lparr>fs_Floats = [Fin (1 / 2), Fin (1 / 2)], fs_Norms = [], fs_Exps = [],
     fs_Ints = [], fs_Int63s = [], fs_Perms = []\<rparr>"

lemma unit_half: "unit_draw (Fin (1 / 2))"
  unfolding unit_draw_def by (intro exI [of _ "1 / 2"]) simp

lemma one_half_ok: "fake_ok 0 one_half_rand"
  using unit_half by (simp add: one_half_rand_def fake_ok_def fake_New_def copyScript_def script_ok_def)

lemma one_half_draw:
  "\<exists>r. rand_Float64 fakeRand_ops one_half_rand = Some (Fin (1 / 2), r)"
  by (simp add: one_half_rand_def fakeRand_ops_def fake_Float64_def tape_def fake_New_def copyScript_def)

theorem samples_within_declared_bounds_witness:
  "\<exists>d r'. Sample (\<lambda>x. x) (\<lambda>_. 0) fakeRand_ops (Uniform second (3 * second)) one_half_rand = Some (d, r')
     \<and> second \<le> d \<and> d \<le> 3 * second"
proof -
  have "\<exists>d r'. Sample (\<lambda>x. x) (\<lambda>_. 0) fakeRand_ops (Uniform second (3 * second)) one_half_rand = Some (d, r')"
    using one_half_draw by (auto simp: Let_def)
  then obtain d r' where "Sample (\<lambda>x. x) (\<lambda>_. 0) fakeRand_ops (Uniform second (3 * second)) one_half_rand
      = Some (d, r')" by blast
  moreover from samples_within_declared_bounds [OF scripted.unit_source_axioms one_half_ok this]
  have "second \<le> d \<and> d \<le> 3 * second" by (simp add: dist_sized_def second_def)
  ultimately show ?thesis by blast
qed

section \<open>The time-of-day curve\<close>

text \<open>Whatever the instant, the zone and the tables, the intensity that divides a think-time is
  at least the floor of one percent and at most one, unless a table entry made it NaN; a stretch
  is thus by a factor between 1 and 100.\<close>

theorem intensity_in_range:
  "let i = Intensity In utc tod now
   in i = NaN \<or> (\<not> f_lt i intensityFloor \<and> \<not> f_lt (Fin 1) i \<and> f_lt (Fin 0) i)"
proof -
  have c: "clampIntensity v = NaN \<or> (\<not> f_lt (clampIntensity v) intensityFloor
      \<and> \<not> f_lt (Fin 1) (clampIntensity v) \<and> f_lt (Fin 0) (clampIntensity v))" for v
    by (cases v) (auto simp: clampIntensity_def intensityFloor_def)
  show ?thesis by (cases tod) (use c in \<open>simp_all add: Let_def intensityFloor_def\<close>)
qed

section \<open>The burst process\<close>

text \<open>Verdicts at the given instants.\<close>

fun burst_run ::
  "(f64 \<Rightarrow> f64) \<Rightarrow> (f64 \<Rightarrow> int) \<Rightarrow> 'r Rand \<Rightarrow> RenewalBurst \<Rightarrow> 'r \<Rightarrow> instant list
     \<Rightarrow> (instant \<times> BurstPhase) list option" where
  "burst_run expf oor R b r [] = Some []"
| "burst_run expf oor R b r (t # ts) =
     (case renewal_Phase expf oor R t b r of
        None \<Rightarrow> None
      | Some (ph, b', r') \<Rightarrow> map_option (Cons (t, ph)) (burst_run expf oor R b' r' ts))"

text \<open>The next idle verdict, when the process is in state \<open>b\<close>: a running trough lasts at least
  until \<open>bu_phaseEnd\<close>, and after it an active window.\<close>

definition idles :: "(instant \<times> BurstPhase) list \<Rightarrow> (instant \<times> duration) list" where
  "idles ys = map (\<lambda>(t, ph). (t, bp_IdleFor ph)) (filter (\<lambda>(t, ph). bp_Idle ph) ys)"

lemma burst_idle_after:
  assumes "burst_run expf oor R b r ts = Some ys" "bu_started b"
  shows "\<forall>(t, d) \<in> set (idles ys). bu_phaseEnd b \<le> t \<and> 0 \<le> d"
  using assms
proof (induction ts arbitrary: b r ys)
  case Nil
  then show ?case by (simp add: idles_def)
next
  case (Cons t ts)
  then obtain ph b' r' ys' where s: "renewal_Phase expf oor R t b r = Some (ph, b', r')"
    "burst_run expf oor R b' r' ts = Some ys'" "ys = (t, ph) # ys'"
    by (auto split: option.splits)
  have st: "bu_started b'" and e: "bu_phaseEnd b \<le> bu_phaseEnd b'"
    and i: "bp_Idle ph \<Longrightarrow> bu_phaseEnd b \<le> t \<and> 0 \<le> bp_IdleFor ph"
    using s(1) Cons.prems(2) Sample_nonneg
    by (force simp: renewal_Phase_def bind_eq_Some_conv quiet_phase_def time_add_def split: if_splits)+
  have "\<forall>(t, d) \<in> set (idles ys'). bu_phaseEnd b \<le> t \<and> 0 \<le> d"
    using Cons.IH [OF s(2) st] e by fastforce
  then show ?case using i by (auto simp: s(3) idles_def)
qed

text \<open>The spacing of idle verdicts from a state: from an idle state, the next one waits for the
  trough to end.\<close>

lemma burst_spacing:
  assumes "burst_run expf oor R b r ts = Some ys" "bu_started b"
  shows "sorted_wrt (\<lambda>x y. fst x + snd x \<le> fst y) (idles ys)"
  using assms
proof (induction ts arbitrary: b r ys)
  case Nil
  then show ?case by (simp add: idles_def)
next
  case (Cons t ts)
  then obtain ph b' r' ys' where s: "renewal_Phase expf oor R t b r = Some (ph, b', r')"
    "burst_run expf oor R b' r' ts = Some ys'" "ys = (t, ph) # ys'"
    by (auto split: option.splits)
  have st: "bu_started b'" using s(1) Cons.prems(2)
    by (auto simp: renewal_Phase_def bind_eq_Some_conv split: if_splits)
  have i: "bp_Idle ph \<Longrightarrow> bu_phaseEnd b' = t + bp_IdleFor ph"
    using s(1) by (auto simp: renewal_Phase_def bind_eq_Some_conv quiet_phase_def time_add_def split: if_splits)
  show ?case
    using Cons.IH [OF s(2) st] burst_idle_after [OF s(2) st] i
    by (cases "bp_Idle ph") (auto simp: s(3) idles_def)
qed

text \<open>A burst process never reports a trough on its first call, and two troughs never overlap:
  each idle verdict comes only after the whole trough before it, however often and at whatever
  instants the session asks.\<close>

theorem troughs_do_not_overlap:
  assumes "burst_run expf oor R (NewRenewalBurst active idl) r (t # ts) = Some ys"
  shows "\<not> bp_Idle (snd (hd ys)) \<and> sorted_wrt (\<lambda>x y. fst x + snd x \<le> fst y) (idles ys)"
proof -
  obtain ph b' r' ys' where s: "renewal_Phase expf oor R t (NewRenewalBurst active idl) r = Some (ph, b', r')"
    "burst_run expf oor R b' r' ts = Some ys'" "ys = (t, ph) # ys'"
    using assms by (auto split: option.splits)
  have "bu_started b'" "\<not> bp_Idle ph"
    using s(1) by (auto simp: renewal_Phase_def NewRenewalBurst_def bind_eq_Some_conv quiet_phase_def)
  then show ?thesis using burst_spacing [OF s(2)] by (simp add: s(3) idles_def)
qed

theorem troughs_do_not_overlap_witness:
  "\<exists>ys. burst_run (\<lambda>x. x) (\<lambda>_. 0) fakeRand_ops (NewRenewalBurst (Constant 10) (Constant 5)) one_half_rand
          [0, 10, 12, 15, 25] = Some ys
     \<and> idles ys = [(10, 5), (25, 5)] \<and> sorted_wrt (\<lambda>x y. fst x + snd x \<le> fst y) (idles ys)"
proof -
  let ?run = "burst_run (\<lambda>x. x) (\<lambda>_. 0) fakeRand_ops (NewRenewalBurst (Constant 10) (Constant 5)) one_half_rand
          [0, 10, 12, 15, 25]"
  define ys where "ys = the ?run"
  have r: "?run = Some ys"
    unfolding ys_def by (simp add: renewal_Phase_def NewRenewalBurst_def clampNonNeg_def time_add_def)
  have "idles ys = [(10, 5), (25, 5)]"
    unfolding ys_def by (simp add: renewal_Phase_def NewRenewalBurst_def clampNonNeg_def time_add_def
        idles_def quiet_phase_def)
  then show ?thesis using r troughs_do_not_overlap [OF r] by blast
qed

section \<open>The shaper\<close>

lemma Phase_nonneg: "Phase expf oor R now b r = Some (ph, b', r') \<Longrightarrow> 0 \<le> bp_IdleFor ph"
  by (cases b) (auto simp: renewal_Phase_def bind_eq_Some_conv quiet_phase_def
      split: if_splits dest: Sample_nonneg)

text \<open>C37. A shaped wait is never negative, whatever the draws, the clock, the curve, the previous
  result and the float conversions; a control action waits not at all and consumes no draw, a
  sub-resource waits at most 15 ms, and only a navigation-like cause under a burst model can be
  turned into an idle step.\<close>

theorem shaped_wait_is_sane:
  assumes "Shape expf oor R In utc c now think cause prior r = Some (dec, c', r')"
  shows "0 \<le> sdc_Wait dec
    \<and> (cause = CauseControl \<longrightarrow> sdc_Wait dec = 0 \<and> c' = c \<and> r' = r)
    \<and> (cause = CauseSubResource \<and> unit_source R rok \<and> rok r \<longrightarrow> sdc_Wait dec \<le> 15 * millisecond)
    \<and> (sdc_Idle dec \<longrightarrow> cause \<noteq> CauseControl \<and> cause \<noteq> CauseSubResource \<and> cs_burst c \<noteq> AlwaysActive)"
proof -
  have "sdc_Wait dec \<le> 15 * millisecond" if h: "cause = CauseSubResource" "unit_source R rok" "rok r"
  proof -
    obtain u where u: "rand_Float64 R r = Some (u, r')"
      "sdc_Wait dec = clampNonNeg (f_to_i64 oor (f_mul u (f64_of_int subResourceJitterMax)))"
      using assms h(1) by (auto simp: Shape_def bind_eq_Some_conv)
    have "unit_draw u" using unit_source.Float64_unit [OF h(2,3) u(1)] by simp
    then show ?thesis using unit_scale [of u subResourceJitterMax oor] u(2)
      by (simp add: subResourceJitterMax_def time_units clampNonNeg_max)
  qed
  moreover have "0 \<le> sdc_Wait dec"
    using assms by (auto simp: Shape_def bind_eq_Some_conv Let_def split: if_splits dest: Phase_nonneg)
  moreover have "cause = CauseControl \<longrightarrow> sdc_Wait dec = 0 \<and> c' = c \<and> r' = r"
    using assms by (auto simp: Shape_def)
  moreover have "sdc_Idle dec \<longrightarrow> cause \<noteq> CauseControl \<and> cause \<noteq> CauseSubResource \<and> cs_burst c \<noteq> AlwaysActive"
    using assms by (auto simp: Shape_def bind_eq_Some_conv Let_def quiet_phase_def split: if_splits)
  ultimately show ?thesis by blast
qed

definition noon :: "unit \<Rightarrow> instant \<Rightarrow> localtime" where
  "noon l t = \<lparr>lt_weekday = 2, lt_hour = 12, lt_minute = 0, lt_second = 0, lt_nanosecond = 0\<rparr>"

theorem shaped_wait_is_sane_witness:
  "\<exists>dec c' r'. Shape (\<lambda>x. x) (\<lambda>_. 0) fakeRand_ops noon () (NewChainShaper None None None) 0
       (\<lambda>r. Some (second, r)) CauseSubResource None one_half_rand = Some (dec, c', r')
     \<and> 0 \<le> sdc_Wait dec \<and> sdc_Wait dec \<le> 15 * millisecond"
proof -
  let ?s = "Shape (\<lambda>x. x) (\<lambda>_. 0) fakeRand_ops noon () (NewChainShaper None None None) 0
       (\<lambda>r. Some (second, r)) CauseSubResource None one_half_rand"
  have "\<exists>x. ?s = Some x" using one_half_draw by (auto simp: Shape_def Let_def)
  then obtain dec c' r' where s: "?s = Some (dec, c', r')" by auto
  show ?thesis
    using s shaped_wait_is_sane [OF s, of "fake_ok 0"] scripted.unit_source_axioms [of 0] one_half_ok
    by blast
qed

end
