(* ===== verification/Caps.thy ===== *)
theory Caps
  imports Pterr Float64
begin

text \<open>
  The safety caps of \<open>internal/safety\<close>: \<open>Ceiling\<close> (ceiling.go), \<open>CapSpec\<close> and its resolution
  against a ceiling (capspec.go), the live patch (cappatch.go), the runtime caps (caps.go)
  and the config-time check \<open>ValidateCaps\<close> (validate.go).

  The lemmas show what a validated cap set guarantees about the caps the engine enforces,
  and where the guarantee ends: a NaN rate.
\<close>

section \<open>Data\<close>

record Caps =
  caps_MaxConcurrent :: int
  caps_MaxRPS :: f64
  caps_PerActionLimit :: duration

record Ceiling =
  cl_PerTargetRPS :: f64
  cl_GlobalRPS :: f64
  cl_MaxConcurrentSessions :: int
  cl_TotalRequestBudget :: int
  cl_StreamingByteRateKbps :: int
  cl_ConcurrentStreams :: int
  cl_PerSessionMaxDuration :: duration
  cl_PerSessionMaxActions :: int

record CapSpec =
  cs_PerTargetRPS :: f64
  cs_GlobalRPS :: f64
  cs_MaxConcurrentSessions :: int
  cs_TotalRequestBudget :: int
  cs_StreamingByteRateKbps :: int
  cs_ConcurrentStreams :: int
  cs_PerSessionMaxDurationSeconds :: int
  cs_PerSessionMaxActions :: int

record CapPatch =
  cp_PerTargetRPS :: "f64 option"
  cp_GlobalRPS :: "f64 option"
  cp_TotalRequestBudget :: "int option"

definition DefaultCeiling :: Ceiling where
  "DefaultCeiling = \<lparr>
     cl_PerTargetRPS = Fin 10,
     cl_GlobalRPS = Fin 50,
     cl_MaxConcurrentSessions = 20,
     cl_TotalRequestBudget = 1000000,
     cl_StreamingByteRateKbps = 12000,
     cl_ConcurrentStreams = 3,
     cl_PerSessionMaxDuration = 30 * minute,
     cl_PerSessionMaxActions = 10000\<rparr>"

section \<open>Operations\<close>

definition floorAtOne :: "int \<Rightarrow> int" where
  "floorAtOne v = (if v < 1 then 1 else v)"

definition floorAtOne64 :: "int \<Rightarrow> int" where
  "floorAtOne64 v = (if v < 1 then 1 else v)"

definition DividedBy :: "Ceiling \<Rightarrow> int \<Rightarrow> Ceiling" where
  "DividedBy c agentCount =
     (let agentCount = (if agentCount < 1 then 1 else agentCount);
          n = agentCount
      in c\<lparr>cl_PerTargetRPS := f_div (cl_PerTargetRPS c) (f64_of_int agentCount),
           cl_GlobalRPS := f_div (cl_GlobalRPS c) (f64_of_int agentCount),
           cl_MaxConcurrentSessions := floorAtOne (quot (cl_MaxConcurrentSessions c) agentCount),
           cl_TotalRequestBudget := floorAtOne64 (quot (cl_TotalRequestBudget c) n),
           cl_StreamingByteRateKbps := floorAtOne (quot (cl_StreamingByteRateKbps c) agentCount),
           cl_ConcurrentStreams := floorAtOne (quot (cl_ConcurrentStreams c) agentCount)\<rparr>)"

text \<open>\<open>Effective\<close>: every zero field takes the ceiling's value, every other field is kept.\<close>

definition max_duration_seconds :: "(f64 \<Rightarrow> int) \<Rightarrow> Ceiling \<Rightarrow> int" where
  "max_duration_seconds oor cl =
     f_to_i64 oor (dur_seconds (cl_PerSessionMaxDuration cl))"

definition Effective :: "(f64 \<Rightarrow> int) \<Rightarrow> CapSpec \<Rightarrow> Ceiling \<Rightarrow> CapSpec" where
  "Effective oor d cl = \<lparr>
     cs_PerTargetRPS =
       (if f_eq (cs_PerTargetRPS d) (Fin 0) then cl_PerTargetRPS cl else cs_PerTargetRPS d),
     cs_GlobalRPS =
       (if f_eq (cs_GlobalRPS d) (Fin 0) then cl_GlobalRPS cl else cs_GlobalRPS d),
     cs_MaxConcurrentSessions =
       (if cs_MaxConcurrentSessions d = 0 then cl_MaxConcurrentSessions cl
        else cs_MaxConcurrentSessions d),
     cs_TotalRequestBudget =
       (if cs_TotalRequestBudget d = 0 then cl_TotalRequestBudget cl
        else cs_TotalRequestBudget d),
     cs_StreamingByteRateKbps =
       (if cs_StreamingByteRateKbps d = 0 then cl_StreamingByteRateKbps cl
        else cs_StreamingByteRateKbps d),
     cs_ConcurrentStreams =
       (if cs_ConcurrentStreams d = 0 then cl_ConcurrentStreams cl
        else cs_ConcurrentStreams d),
     cs_PerSessionMaxDurationSeconds =
       (if cs_PerSessionMaxDurationSeconds d = 0 then max_duration_seconds oor cl
        else cs_PerSessionMaxDurationSeconds d),
     cs_PerSessionMaxActions =
       (if cs_PerSessionMaxActions d = 0 then cl_PerSessionMaxActions cl
        else cs_PerSessionMaxActions d)\<rparr>"

definition WithPatch :: "CapSpec \<Rightarrow> CapPatch \<Rightarrow> CapSpec" where
  "WithPatch declared p =
     (let out1 = (case cp_PerTargetRPS p of Some v \<Rightarrow> declared\<lparr>cs_PerTargetRPS := v\<rparr> | None \<Rightarrow> declared);
          out2 = (case cp_GlobalRPS p of Some v \<Rightarrow> out1\<lparr>cs_GlobalRPS := v\<rparr> | None \<Rightarrow> out1)
      in (case cp_TotalRequestBudget p of
            Some v \<Rightarrow> out2\<lparr>cs_TotalRequestBudget := v\<rparr> | None \<Rightarrow> out2))"

section \<open>Validation\<close>

text \<open>
  A violation's message is kept by its form and arguments; \<open>fmt\<close> renders the numbers
  (\<open>%d\<close>, \<open>%g\<close>), which no decision of the program depends on.
\<close>

datatype cap_msg = NonPositive string | AboveCeilingInt string int int
  | AboveCeilingFloat string f64 f64

record Violation =
  v_Field :: string
  v_Msg :: cap_msg

definition appendFloatViolation ::
  "Violation list \<Rightarrow> string \<Rightarrow> f64 \<Rightarrow> f64 \<Rightarrow> bool \<Rightarrow> Violation list" where
  "appendFloatViolation vs field declared cl override =
     (if f_eq declared (Fin 0) then vs
      else if f_lt declared (Fin 0) then vs @ [\<lparr>v_Field = field, v_Msg = NonPositive field\<rparr>]
      else if \<not> override \<and> f_lt cl declared
        then vs @ [\<lparr>v_Field = field, v_Msg = AboveCeilingFloat field declared cl\<rparr>]
      else vs)"

definition appendIntViolation ::
  "Violation list \<Rightarrow> string \<Rightarrow> int \<Rightarrow> int \<Rightarrow> bool \<Rightarrow> Violation list" where
  "appendIntViolation vs field declared cl override =
     (if declared = 0 then vs
      else if declared < 0 then vs @ [\<lparr>v_Field = field, v_Msg = NonPositive field\<rparr>]
      else if \<not> override \<and> declared > cl
        then vs @ [\<lparr>v_Field = field, v_Msg = AboveCeilingInt field declared cl\<rparr>]
      else vs)"

definition appendInt64Violation ::
  "Violation list \<Rightarrow> string \<Rightarrow> int \<Rightarrow> int \<Rightarrow> bool \<Rightarrow> Violation list" where
  "appendInt64Violation vs field declared cl override =
     (if declared = 0 then vs
      else if declared < 0 then vs @ [\<lparr>v_Field = field, v_Msg = NonPositive field\<rparr>]
      else if \<not> override \<and> declared > cl
        then vs @ [\<lparr>v_Field = field, v_Msg = AboveCeilingInt field declared cl\<rparr>]
      else vs)"

definition ValidateCaps :: "(f64 \<Rightarrow> int) \<Rightarrow> CapSpec \<Rightarrow> Ceiling \<Rightarrow> bool \<Rightarrow> Violation list" where
  "ValidateCaps oor d cl override =
     (let v0 = [];
          v1 = appendFloatViolation v0 ''per_target_rps'' (cs_PerTargetRPS d) (cl_PerTargetRPS cl) override;
          v2 = appendFloatViolation v1 ''global_rps'' (cs_GlobalRPS d) (cl_GlobalRPS cl) override;
          v3 = appendIntViolation v2 ''max_concurrent_sessions''
                 (cs_MaxConcurrentSessions d) (cl_MaxConcurrentSessions cl) override;
          v4 = appendInt64Violation v3 ''total_request_budget''
                 (cs_TotalRequestBudget d) (cl_TotalRequestBudget cl) override;
          v5 = appendIntViolation v4 ''streaming_byte_rate_kbps''
                 (cs_StreamingByteRateKbps d) (cl_StreamingByteRateKbps cl) override;
          v6 = appendIntViolation v5 ''concurrent_streams''
                 (cs_ConcurrentStreams d) (cl_ConcurrentStreams cl) override;
          v7 = appendIntViolation v6 ''per_session_max_duration_seconds''
                 (cs_PerSessionMaxDurationSeconds d) (max_duration_seconds oor cl) override
      in appendIntViolation v7 ''per_session_max_actions''
           (cs_PerSessionMaxActions d) (cl_PerSessionMaxActions cl) override)"

section \<open>What validation guarantees\<close>

definition float_ok :: "f64 \<Rightarrow> f64 \<Rightarrow> bool \<Rightarrow> bool" where
  "float_ok d c override \<longleftrightarrow>
     f_eq d (Fin 0) \<or> (\<not> f_lt d (Fin 0) \<and> (override \<or> \<not> f_lt c d))"

definition int_ok :: "int \<Rightarrow> int \<Rightarrow> bool \<Rightarrow> bool" where
  "int_ok d c override \<longleftrightarrow> d = 0 \<or> 0 < d \<and> (override \<or> d \<le> c)"

lemma appendFloatViolation_Nil [simp]:
  "appendFloatViolation vs f d c ov = [] \<longleftrightarrow> vs = [] \<and> float_ok d c ov"
  by (auto simp: appendFloatViolation_def float_ok_def)

lemma appendIntViolation_Nil [simp]:
  "appendIntViolation vs f d c ov = [] \<longleftrightarrow> vs = [] \<and> int_ok d c ov"
  by (auto simp: appendIntViolation_def int_ok_def)

lemma appendInt64Violation_eq [simp]: "appendInt64Violation = appendIntViolation"
  by (intro ext) (simp add: appendInt64Violation_def appendIntViolation_def)

lemma ValidateCaps_Nil:
  "ValidateCaps oor d cl ov = [] \<longleftrightarrow>
     float_ok (cs_PerTargetRPS d) (cl_PerTargetRPS cl) ov
   \<and> float_ok (cs_GlobalRPS d) (cl_GlobalRPS cl) ov
   \<and> int_ok (cs_MaxConcurrentSessions d) (cl_MaxConcurrentSessions cl) ov
   \<and> int_ok (cs_TotalRequestBudget d) (cl_TotalRequestBudget cl) ov
   \<and> int_ok (cs_StreamingByteRateKbps d) (cl_StreamingByteRateKbps cl) ov
   \<and> int_ok (cs_ConcurrentStreams d) (cl_ConcurrentStreams cl) ov
   \<and> int_ok (cs_PerSessionMaxDurationSeconds d) (max_duration_seconds oor cl) ov
   \<and> int_ok (cs_PerSessionMaxActions d) (cl_PerSessionMaxActions cl) ov"
  by (simp add: ValidateCaps_def conj_ac)

text \<open>A ceiling that bounds something: every cap positive, every rate a number.\<close>

definition pos_f64 :: "f64 \<Rightarrow> bool" where
  "pos_f64 x \<longleftrightarrow> f_lt (Fin 0) x"

definition ceiling_ok :: "(f64 \<Rightarrow> int) \<Rightarrow> Ceiling \<Rightarrow> bool" where
  "ceiling_ok oor cl \<longleftrightarrow>
     pos_f64 (cl_PerTargetRPS cl) \<and> pos_f64 (cl_GlobalRPS cl)
   \<and> 0 < cl_MaxConcurrentSessions cl \<and> 0 < cl_TotalRequestBudget cl
   \<and> 0 < cl_StreamingByteRateKbps cl \<and> 0 < cl_ConcurrentStreams cl
   \<and> 0 < max_duration_seconds oor cl \<and> 0 < cl_PerSessionMaxActions cl"

text \<open>A NaN rate compares as neither too small nor too large; \<open>unless_NaN P\<close> exempts it.\<close>

definition unless_NaN :: "(f64 \<Rightarrow> bool) \<Rightarrow> f64 \<Rightarrow> bool" where
  "unless_NaN P x \<longleftrightarrow> x = NaN \<or> P x"

definition spec_positive :: "CapSpec \<Rightarrow> bool" where
  "spec_positive d \<longleftrightarrow>
     unless_NaN pos_f64 (cs_PerTargetRPS d) \<and> unless_NaN pos_f64 (cs_GlobalRPS d)
   \<and> 0 < cs_MaxConcurrentSessions d \<and> 0 < cs_TotalRequestBudget d
   \<and> 0 < cs_StreamingByteRateKbps d \<and> 0 < cs_ConcurrentStreams d
   \<and> 0 < cs_PerSessionMaxDurationSeconds d \<and> 0 < cs_PerSessionMaxActions d"

definition spec_within :: "(f64 \<Rightarrow> int) \<Rightarrow> CapSpec \<Rightarrow> Ceiling \<Rightarrow> bool" where
  "spec_within oor d cl \<longleftrightarrow>
     unless_NaN (\<lambda>x. f_le x (cl_PerTargetRPS cl)) (cs_PerTargetRPS d)
   \<and> unless_NaN (\<lambda>x. f_le x (cl_GlobalRPS cl)) (cs_GlobalRPS d)
   \<and> cs_MaxConcurrentSessions d \<le> cl_MaxConcurrentSessions cl
   \<and> cs_TotalRequestBudget d \<le> cl_TotalRequestBudget cl
   \<and> cs_StreamingByteRateKbps d \<le> cl_StreamingByteRateKbps cl
   \<and> cs_ConcurrentStreams d \<le> cl_ConcurrentStreams cl
   \<and> cs_PerSessionMaxDurationSeconds d \<le> max_duration_seconds oor cl
   \<and> cs_PerSessionMaxActions d \<le> cl_PerSessionMaxActions cl"

lemma pos_f64_not_NaN: "pos_f64 x \<Longrightarrow> x \<noteq> NaN"
  by (auto simp: pos_f64_def)

lemma f_le_refl: "x \<noteq> NaN \<Longrightarrow> f_le x x"
  by (cases x) (auto simp: f_le_def)

text \<open>One resolved field: positive, and within the ceiling without the override.\<close>

lemma resolved_float:
  assumes "float_ok d c ov" "pos_f64 c"
  shows "unless_NaN pos_f64 (if f_eq d (Fin 0) then c else d)"
  using assms by (cases d) (auto simp: float_ok_def pos_f64_def unless_NaN_def)

lemma resolved_float_le:
  assumes "float_ok d c False" "pos_f64 c"
  shows "unless_NaN (\<lambda>x. f_le x c) (if f_eq d (Fin 0) then c else d)"
  using assms not_f_lt [of c d] by (auto simp: float_ok_def f_le_refl pos_f64_not_NaN unless_NaN_def)

lemma resolved_NaN: "pos_f64 c \<Longrightarrow> (if f_eq d (Fin 0) then c else d) = NaN \<longleftrightarrow> d = NaN"
  by (cases d) (auto simp: pos_f64_not_NaN)

lemma resolved_int:
  "int_ok d c ov \<Longrightarrow> 0 < c \<Longrightarrow> 0 < (if d = 0 then c else d)"
  by (auto simp: int_ok_def)

lemma resolved_int_le:
  "int_ok d c False \<Longrightarrow> (if d = 0 then c else d) \<le> c"
  by (auto simp: int_ok_def)

lemmas resolved = resolved_float resolved_float_le resolved_int resolved_int_le

lemma Effective_positive:
  assumes "ValidateCaps oor d cl ov = []" "ceiling_ok oor cl"
  shows "spec_positive (Effective oor d cl)"
  using assms unfolding ValidateCaps_Nil ceiling_ok_def spec_positive_def
  unfolding Effective_def CapSpec.simps by (blast intro: resolved)

lemma Effective_within:
  assumes "ValidateCaps oor d cl False = []" "ceiling_ok oor cl"
  shows "spec_within oor (Effective oor d cl) cl"
  using assms unfolding ValidateCaps_Nil ceiling_ok_def spec_within_def
  unfolding Effective_def CapSpec.simps by (blast intro: resolved)

lemma Effective_NaN:
  assumes "ceiling_ok oor cl"
  shows "cs_PerTargetRPS (Effective oor d cl) = NaN \<longleftrightarrow> cs_PerTargetRPS d = NaN"
    and "cs_GlobalRPS (Effective oor d cl) = NaN \<longleftrightarrow> cs_GlobalRPS d = NaN"
  using assms resolved_NaN by (simp_all add: ceiling_ok_def Effective_def)

text \<open>The audited override lifts the ceiling only: an accepted cap set is still positive in
  every field that is a number.\<close>

theorem override_keeps_caps_positive:
  assumes "ValidateCaps oor d cl True = []" and "ceiling_ok oor cl"
  shows "spec_positive (Effective oor d cl)"
  using assms by (rule Effective_positive)

text \<open>The hole: a NaN rate (YAML accepts \<open>.nan\<close>) passes the check without the override and
  stays in the effective caps, whatever the ceiling.\<close>

theorem nan_rate_passes_validation:
  "ValidateCaps oor (d\<lparr>cs_PerTargetRPS := NaN, cs_GlobalRPS := NaN\<rparr>) cl ov =
     ValidateCaps oor (d\<lparr>cs_PerTargetRPS := Fin 0, cs_GlobalRPS := Fin 0\<rparr>) cl ov
   \<and> cs_PerTargetRPS (Effective oor (d\<lparr>cs_PerTargetRPS := NaN, cs_GlobalRPS := NaN\<rparr>) cl) = NaN
   \<and> cs_GlobalRPS (Effective oor (d\<lparr>cs_PerTargetRPS := NaN, cs_GlobalRPS := NaN\<rparr>) cl) = NaN"
  by (simp add: ValidateCaps_def appendFloatViolation_def Effective_def)

section \<open>The default ceiling\<close>

lemma max_duration_default: "max_duration_seconds oor DefaultCeiling = 1800"
proof -
  have e: "30 * minute = 1800 * second" by (simp add: minute_def)
  have "dur_seconds (cl_PerSessionMaxDuration DefaultCeiling) = Fin (of_int 1800)"
    using dur_seconds_whole [of 1800] by (simp add: DefaultCeiling_def e)
  then show ?thesis
    using f_to_i64_of_int [of 1800 oor]
    by (simp add: max_duration_seconds_def in_i64_def int64_min_def int64_max_def)
qed

lemma max_duration_DividedBy [simp]:
  "max_duration_seconds oor (DividedBy c n) = max_duration_seconds oor c"
  by (simp add: max_duration_seconds_def DividedBy_def Let_def)

lemma share_pos:
  assumes "1 \<le> r" "r \<le> 2 ^ 63" "1 \<le> n" "in_i64 n"
  shows "pos_f64 (f_div (Fin r) (f64_of_int n))"
proof -
  have n: "n \<le> 2 ^ 63" using assms(4) by (simp add: in_i64_def int64_max_def)
  let ?y = "rnd (of_int n)"
  have f: "f64_of_int n = Fin ?y" using assms(3) n by (intro f64_of_int_rnd) simp
  have lo: "1 \<le> ?y" using rnd_mono [of 1 "of_int n"] rnd_of_int [of 1] assms(3) by simp
  have "(of_int n :: rat) \<le> of_int (2 ^ 63)" using n by (simp only: of_int_le_iff)
  then have hi: "?y \<le> 2 powi 63" by (intro rnd_le_powi) simp_all
  have q1: "2 powi (- 63) \<le> r / ?y"
    using assms(1) lo hi by (simp add: le_divide_eq power_int_minus_divide divide_simps)
  have "r / ?y \<le> r" using assms(1) lo by (simp add: divide_le_eq)
  then have q2: "r / ?y \<le> 2 powi 63" using assms(2) by simp
  have r1: "2 powi (- 63) \<le> rnd (r / ?y)" using q1 by (rule rnd_ge_powi) simp
  have r2: "rnd (r / ?y) \<le> 2 powi 63" using q2 by (rule rnd_le_powi) simp
  have "(0::rat) < 2 powi (- 63)" by simp
  with r1 have p: "0 < rnd (r / ?y)" by linarith
  have "(2::rat) powi 63 < f64_limit"
  proof -
    have "(2::rat) powi 63 \<le> 2 ^ 1023" unfolding power_int_numeral by (rule power_increasing) simp_all
    then show ?thesis using f64_limit_gt by (rule le_less_trans)
  qed
  with p r2 have "f64_of_rat (r / ?y) = Fin (rnd (r / ?y))" by (intro f64_of_rat_bounded) simp
  then show ?thesis using f lo p by (simp add: pos_f64_def)
qed

lemma ceiling_ok_default: "ceiling_ok oor DefaultCeiling"
  by (simp add: ceiling_ok_def pos_f64_def max_duration_default) (simp add: DefaultCeiling_def)

lemma share_ok: "in_i64 n \<Longrightarrow> ceiling_ok oor (DividedBy DefaultCeiling n)"
proof -
  assume n: "in_i64 n"
  define m where "m = (if n < 1 then 1 else n)"
  have m: "1 \<le> m" "in_i64 m" using n by (auto simp: m_def in_i64_def int64_max_def int64_min_def)
  have "pos_f64 (f_div (Fin 10) (f64_of_int m))" "pos_f64 (f_div (Fin 50) (f64_of_int m))"
    using m by (auto intro: share_pos)
  then show ?thesis
    by (simp add: ceiling_ok_def max_duration_default)
       (simp add: DividedBy_def m_def [symmetric] Let_def floorAtOne_def floorAtOne64_def
         DefaultCeiling_def)
qed

text \<open>No agent count deadlocks an agent: the share of the default ceiling is positive in
  every cap, for every 64-bit count (below one included), so \<open>Effective\<close> never resolves an
  unset cap to "unlimited".\<close>

theorem every_share_positive:
  "in_i64 n \<Longrightarrow> ceiling_ok oor (DividedBy DefaultCeiling n)"
  by (rule share_ok)

text \<open>C34. Caps accepted without the override, resolved against an agent's share of the default
  ceiling (for any 64-bit number of agents): no effective cap is zero or negative (either would
  mean "unlimited" to a component that enforces it) and none exceeds the share, with one
  exception, a rate declared as NaN, which stays NaN; no other rate is NaN.\<close>

theorem validated_caps_within_ceiling:
  assumes "ValidateCaps oor d (DividedBy DefaultCeiling n) False = []" and "in_i64 n"
  shows "spec_within oor (Effective oor d (DividedBy DefaultCeiling n)) (DividedBy DefaultCeiling n)
    \<and> spec_positive (Effective oor d (DividedBy DefaultCeiling n))
    \<and> (cs_PerTargetRPS (Effective oor d (DividedBy DefaultCeiling n)) = NaN \<longleftrightarrow> cs_PerTargetRPS d = NaN)
    \<and> (cs_GlobalRPS (Effective oor d (DividedBy DefaultCeiling n)) = NaN \<longleftrightarrow> cs_GlobalRPS d = NaN)"
  using Effective_within [OF assms(1)] Effective_positive [OF assms(1)] Effective_NaN
    share_ok [OF assms(2)] by blast

definition no_caps :: CapSpec where
  "no_caps = \<lparr>cs_PerTargetRPS = Fin 0, cs_GlobalRPS = Fin 0, cs_MaxConcurrentSessions = 0,
     cs_TotalRequestBudget = 0, cs_StreamingByteRateKbps = 0, cs_ConcurrentStreams = 0,
     cs_PerSessionMaxDurationSeconds = 0, cs_PerSessionMaxActions = 0\<rparr>"

text \<open>Witnesses: a scenario that lowers one rate and one count, against the default ceiling.\<close>

definition lowered_caps :: CapSpec where
  "lowered_caps = no_caps\<lparr>cs_GlobalRPS := Fin 5, cs_MaxConcurrentSessions := 4\<rparr>"

lemma share_of_one:
  "DividedBy DefaultCeiling 1 = DefaultCeiling"
proof -
  have "f64_of_int 10 = Fin 10" "f64_of_int 50 = Fin 50" and one: "f64_of_int 1 = Fin 1"
    by (simp_all add: f64_of_int_small)
  then have f: "f64_of_rat 10 = Fin 10" "f64_of_rat 50 = Fin 50" by (simp_all add: f64_of_int_def)
  show ?thesis by (simp add: DividedBy_def DefaultCeiling_def floorAtOne_def floorAtOne64_def quot_def Let_def one f)
qed

lemma lowered_caps_valid: "ValidateCaps oor lowered_caps DefaultCeiling ov = []"
  by (simp add: ValidateCaps_Nil lowered_caps_def no_caps_def float_ok_def int_ok_def DefaultCeiling_def)

theorem validated_caps_within_ceiling_witness:
  "spec_within (\<lambda>_. 0) (Effective (\<lambda>_. 0) lowered_caps DefaultCeiling) DefaultCeiling
   \<and> spec_positive (Effective (\<lambda>_. 0) lowered_caps DefaultCeiling)
   \<and> cs_PerTargetRPS (Effective (\<lambda>_. 0) lowered_caps DefaultCeiling) = Fin 10
   \<and> cs_MaxConcurrentSessions (Effective (\<lambda>_. 0) lowered_caps DefaultCeiling) = 4
   \<and> cs_PerSessionMaxActions (Effective (\<lambda>_. 0) lowered_caps DefaultCeiling) = 10000"
  using validated_caps_within_ceiling [of "\<lambda>_. 0" lowered_caps 1, unfolded share_of_one, OF lowered_caps_valid]
  by (simp add: Effective_def lowered_caps_def no_caps_def DefaultCeiling_def in_i64_def int64_min_def int64_max_def)

theorem override_keeps_caps_positive_witness:
  "spec_positive (Effective (\<lambda>_. 0) (no_caps\<lparr>cs_GlobalRPS := Fin 5000\<rparr>) DefaultCeiling)"
  by (rule override_keeps_caps_positive)
     (simp_all add: ValidateCaps_Nil no_caps_def float_ok_def int_ok_def ceiling_ok_default)

theorem every_share_positive_witness: "ceiling_ok (\<lambda>_. 0) (DividedBy DefaultCeiling 7)"
  by (rule every_share_positive) (simp add: in_i64_def int64_min_def int64_max_def)

section \<open>Splitting the ceiling over a fleet\<close>

lemma floorAtOne_max: "floorAtOne v = max 1 v" "floorAtOne64 v = max 1 v"
  by (auto simp: floorAtOne_def floorAtOne64_def)

lemma fleet_share:
  assumes "1 \<le> n" "0 \<le> v"
  shows "n * max 1 (quot v n) \<le> max n v"
proof -
  have "n * (v div n) + v mod n = v" by (rule mult_div_mod_eq)
  then have "n * (v div n) \<le> v" using assms pos_mod_sign [of n v] by linarith
  then show ?thesis using assms by (auto simp: quot_pos max_def not_le)
qed

text \<open>Splitting: the shares of \<open>n\<close> agents, summed, stay within the aggregate cap, or within
  one unit per agent where the cap is smaller than the fleet; the per-session caps are not
  split, and a count below one behaves as one.\<close>

theorem fleet_within_ceiling:
  assumes "1 \<le> n" and "0 \<le> cl_MaxConcurrentSessions c" and "0 \<le> cl_TotalRequestBudget c"
    and "0 \<le> cl_StreamingByteRateKbps c" and "0 \<le> cl_ConcurrentStreams c"
  shows "n * cl_MaxConcurrentSessions (DividedBy c n) \<le> max n (cl_MaxConcurrentSessions c)
    \<and> n * cl_TotalRequestBudget (DividedBy c n) \<le> max n (cl_TotalRequestBudget c)
    \<and> n * cl_StreamingByteRateKbps (DividedBy c n) \<le> max n (cl_StreamingByteRateKbps c)
    \<and> n * cl_ConcurrentStreams (DividedBy c n) \<le> max n (cl_ConcurrentStreams c)
    \<and> cl_PerSessionMaxDuration (DividedBy c n) = cl_PerSessionMaxDuration c
    \<and> cl_PerSessionMaxActions (DividedBy c n) = cl_PerSessionMaxActions c
    \<and> (k < 1 \<longrightarrow> DividedBy c k = DividedBy c 1)"
  using assms fleet_share by (simp add: DividedBy_def floorAtOne_max Let_def)

theorem fleet_within_ceiling_witness:
  "7 * cl_TotalRequestBudget (DividedBy DefaultCeiling 7) \<le> 1000000
   \<and> 7 * cl_ConcurrentStreams (DividedBy DefaultCeiling 7) = 7"
  using fleet_within_ceiling [of 7 DefaultCeiling 0]
  by (simp add: DefaultCeiling_def DividedBy_def floorAtOne_def quot_def)

end
