(* ===== verification/Ramp.thy ===== *)
theory Ramp
  imports Rng
begin

text \<open>
  The ramp governor's target function (\<open>internal/engine/ramp.go\<close>) and the retry backoff
  (\<open>internal/engine/backoff.go\<close>), both over binary64 arithmetic.
\<close>

record RampPlan =
  rp_Up :: duration
  rp_StartConcurrency :: int

definition concurrencyAt :: "(f64 \<Rightarrow> int) \<Rightarrow> RampPlan \<Rightarrow> int \<Rightarrow> duration \<Rightarrow> int" where
  "concurrencyAt oor plan target elapsed =
     (if rp_Up plan \<le> 0 then target
      else let start = (if rp_StartConcurrency plan < 1 then 1 else rp_StartConcurrency plan) in
      if elapsed \<le> 0 then start
      else if elapsed \<ge> rp_Up plan then target
      else let frac = f_div (f64_of_int elapsed) (f64_of_int (rp_Up plan));
               n = f_to_i64 oor (f_round
                     (f_add (f64_of_int start) (f_mul (f64_of_int (i64 (target - start))) frac)));
               n1 = (if n < 1 then 1 else n)
           in if n1 > target then target else n1)"

text \<open>\<open>base << attempt\<close> on 64 bits, for any attempt count.\<close>

definition shift_left :: "int \<Rightarrow> nat \<Rightarrow> int" where
  "shift_left base attempt = i64 (base * 2 ^ attempt)"

definition backoffDelay ::
  "(f64 \<Rightarrow> int) \<Rightarrow> 'r Rand \<Rightarrow> nat \<Rightarrow> duration \<Rightarrow> duration \<Rightarrow> 'r \<Rightarrow> (duration \<times> 'r) option" where
  "backoffDelay oor R attempt base mx r =
     (let e = shift_left base attempt;
          e1 = (if e \<le> 0 \<or> e > mx then mx else e)
      in case rand_Float64 R r of
           None \<Rightarrow> None
         | Some (u, r') \<Rightarrow> Some (f_to_i64 oor (f_mul u (f64_of_int e1)), r'))"

section \<open>The ramp\<close>

definition ramp_value :: "int \<Rightarrow> int \<Rightarrow> int \<Rightarrow> int \<Rightarrow> rat" where
  "ramp_value start target up e =
     rnd (of_int start + rnd (of_int (target - start) * rnd (of_int e / of_int up)))"

lemma frac_bounds:
  assumes "0 < e" "e < up" shows "0 \<le> rnd (of_int e / of_int up)" "rnd (of_int e / of_int up) \<le> 1"
proof -
  have "(0::rat) \<le> of_int e / of_int up" "of_int e / of_int up \<le> (1::rat)"
    using assms by simp_all
  then show "0 \<le> rnd (of_int e / of_int up)" "rnd (of_int e / of_int up) \<le> 1"
    using rnd_nonneg rnd_of_int_bounds(2) [of 1 "of_int e / of_int up"] by simp_all
qed

lemma ramp_value_bounds:
  assumes "0 < e" "e < up" "1 \<le> start" "start \<le> target" "target < 2 ^ 53"
  shows "of_int start \<le> ramp_value start target up e" "ramp_value start target up e \<le> of_int target"
proof -
  let ?f = "rnd (of_int e / of_int up)"
  have d: "0 \<le> (of_int (target - start) :: rat)" using assms by simp
  have p: "0 \<le> of_int (target - start) * ?f" "of_int (target - start) * ?f \<le> of_int (target - start)"
    using frac_bounds [OF assms(1,2)] d by (simp_all add: mult_left_le del: of_int_diff)
  have r: "0 \<le> rnd (of_int (target - start) * ?f)"
    "rnd (of_int (target - start) * ?f) \<le> of_int (target - start)"
    using p(1) rnd_of_int_bounds(2) [of "target - start" "of_int (target - start) * ?f"] p(2) assms
    by (auto intro: rnd_nonneg)
  have "of_int start \<le> of_int start + rnd (of_int (target - start) * ?f)"
    "of_int start + rnd (of_int (target - start) * ?f) \<le> of_int target"
    using r by simp_all
  then show "of_int start \<le> ramp_value start target up e" "ramp_value start target up e \<le> of_int target"
    using rnd_of_int_bounds(1) [of start] rnd_of_int_bounds(2) [of target] assms
    unfolding ramp_value_def by auto
qed

lemma concurrencyAt_ramping:
  assumes "0 < e" "e < up" "up < 2 ^ 53" "1 \<le> start" "start \<le> target" "target < 2 ^ 53"
  shows "concurrencyAt oor \<lparr>rp_Up = up, rp_StartConcurrency = start\<rparr> target e =
     \<lfloor>ramp_value start target up e + 1 / 2\<rfloor>"
proof -
  let ?f = "rnd (of_int e / of_int up)"
  let ?v = "ramp_value start target up e"
  have b: "of_int start \<le> ?v" "?v \<le> of_int target"
    using ramp_value_bounds assms by blast+
  have v: "1 \<le> \<lfloor>?v + 1 / 2\<rfloor>" "\<lfloor>?v + 1 / 2\<rfloor> \<le> target"
  proof -
    have "of_int 1 \<le> (of_int start :: rat)" using assms(4) by (simp only: of_int_le_iff)
    then have "of_int 1 \<le> ?v + 1 / 2" using b by simp
    then show "1 \<le> \<lfloor>?v + 1 / 2\<rfloor>" by (simp only: le_floor_iff)
    have "?v + 1 / 2 < of_int (target + 1)" using b by simp
    then show "\<lfloor>?v + 1 / 2\<rfloor> \<le> target" by (simp only: floor_le_iff)
  qed
  have nn: "0 \<le> ?v" using b(1) assms(4) by (meson of_int_0_le_iff order_trans zero_le_one)
  have "\<bar>of_int (target - start) * ?f\<bar> \<le> 2 ^ 64"
  proof -
    have t: "\<bar>of_int (target - start) :: rat\<bar> \<le> of_int (2 ^ 53)"
      unfolding of_int_abs [symmetric] of_int_le_iff using assms by linarith
    have "\<bar>of_int (target - start) * ?f\<bar> \<le> \<bar>of_int (target - start)\<bar> * 1"
      unfolding abs_mult using frac_bounds [OF assms(1,2)] by (intro mult_left_mono) simp_all
    then show ?thesis using t by simp
  qed
  then have m: "f64_of_rat (of_int (target - start) * ?f) = Fin (rnd (of_int (target - start) * ?f))"
    by (rule f64_int_sized)
  have "\<bar>rnd (of_int (target - start) * ?f)\<bar> \<le> 2 ^ 54 \<and> 0 \<le> rnd (of_int (target - start) * ?f)"
  proof -
    have d: "0 \<le> (of_int (target - start) :: rat)" using assms by simp
    have "0 \<le> of_int (target - start) * ?f" "of_int (target - start) * ?f \<le> of_int (target - start)"
      using frac_bounds [OF assms(1,2)] d by (simp_all add: mult_left_le del: of_int_diff)
    then have "0 \<le> rnd (of_int (target - start) * ?f)"
      "rnd (of_int (target - start) * ?f) \<le> of_int (target - start)"
      using rnd_of_int_bounds(2) [of "target - start"] assms by (auto intro: rnd_nonneg)
    moreover have "(of_int (target - start) :: rat) \<le> of_int (2 ^ 54)"
      unfolding of_int_le_iff using assms by simp
    ultimately show ?thesis by simp
  qed
  moreover have "0 \<le> (of_int start :: rat)" using assms by simp
  moreover have "(of_int start :: rat) \<le> of_int (2 ^ 53)"
    unfolding of_int_le_iff using assms by simp
  then have "(of_int start :: rat) \<le> 2 ^ 53" by (simp only: of_int_power of_int_numeral)
  ultimately have "\<bar>of_int start + rnd (of_int (target - start) * ?f)\<bar> \<le> 2 ^ 53 + 2 ^ 54"
    unfolding abs_le_iff by linarith
  also have "(2::rat) ^ 53 + 2 ^ 54 \<le> 2 ^ 64" by simp
  finally have "\<bar>of_int start + rnd (of_int (target - start) * ?f)\<bar> \<le> 2 ^ 64" .
  then have a: "f64_of_rat (of_int start + rnd (of_int (target - start) * ?f)) = Fin ?v"
    unfolding ramp_value_def by (rule f64_int_sized)
  have fr: "0 \<le> (of_int e / of_int up :: rat)" "of_int e / of_int up \<le> (1 :: rat)"
    using assms(1,2) by simp_all
  then have "\<bar>of_int e / of_int up :: rat\<bar> \<le> 1" by (simp only: abs_of_nonneg)
  also have "(1::rat) \<le> 2 ^ 64" by simp
  finally have q: "f64_of_rat (of_int e / of_int up) = Fin ?f" by (rule f64_int_sized)
  have i: "i64 (target - start) = target - start" using assms by (intro i64_small) simp_all
  have s: "f64_of_int e = Fin (of_int e)" "f64_of_int up = Fin (of_int up)"
    "f64_of_int start = Fin (of_int start)"
    "f64_of_int (target - start) = Fin (of_int (target - start))"
    using assms by (simp_all add: small_int)
  have "f_to_i64 oor (f_round (Fin ?v)) = \<lfloor>?v + 1 / 2\<rfloor>"
  proof -
    have "f_round (Fin ?v) = Fin (of_int \<lfloor>?v + 1 / 2\<rfloor>)"
      using nn v(1) by (cases "?v = 0") simp_all
    moreover have "in_i64 \<lfloor>?v + 1 / 2\<rfloor>"
    proof -
      have "target < 9007199254740992" using assms(6) by simp
      then have "- 9223372036854775808 \<le> \<lfloor>?v + 1 / 2\<rfloor>" "\<lfloor>?v + 1 / 2\<rfloor> \<le> 9223372036854775807"
        using v by linarith+
      then show ?thesis by (simp only: in_i64_numeral simp_thms)
    qed
    ultimately show ?thesis using f_to_i64_of_int by simp
  qed
  then show ?thesis
    using assms v s q m a i unfolding concurrencyAt_def Let_def
    by (simp del: of_int_diff f_to_i64.simps f_round.simps)
qed

lemma ramp_value_mono:
  assumes "0 < e" "e \<le> e'" "e' < up" "start \<le> target"
  shows "ramp_value start target up e \<le> ramp_value start target up e'"
proof -
  have "rnd (of_int e / of_int up) \<le> rnd (of_int e' / of_int up)"
    using assms by (intro rnd_mono divide_right_mono) simp_all
  then have "of_int (target - start) * rnd (of_int e / of_int up)
      \<le> of_int (target - start) * rnd (of_int e' / of_int up)"
    using assms(4) by (intro mult_left_mono) simp_all
  then show ?thesis unfolding ramp_value_def by (intro rnd_mono add_left_mono)
qed

definition ramp_sized :: "RampPlan \<Rightarrow> int \<Rightarrow> bool" where
  "ramp_sized p target \<longleftrightarrow> 0 < rp_Up p \<and> rp_Up p < 2 ^ 53 \<and> 1 \<le> rp_StartConcurrency p
     \<and> rp_StartConcurrency p \<le> target \<and> target < 2 ^ 53"

lemma ramp_facts:
  assumes "ramp_sized p target" and "e \<le> e'"
  shows "concurrencyAt oor p target e \<le> concurrencyAt oor p target e'
       \<and> rp_StartConcurrency p \<le> concurrencyAt oor p target e \<and> concurrencyAt oor p target e \<le> target
       \<and> concurrencyAt oor p target 0 = rp_StartConcurrency p
       \<and> (rp_Up p \<le> e \<longrightarrow> concurrencyAt oor p target e = target)"
proof -
  obtain up start where p: "p = \<lparr>rp_Up = up, rp_StartConcurrency = start\<rparr>" by (cases p) auto
  have a: "0 < up" "up < 2 ^ 53" "1 \<le> start" "start \<le> target" "target < 2 ^ 53"
    using assms(1) by (simp_all add: p ramp_sized_def)
  have early: "e \<le> 0 \<Longrightarrow> concurrencyAt oor p target e = start" for e
    using a by (simp add: p concurrencyAt_def Let_def)
  have late: "up \<le> e \<Longrightarrow> concurrencyAt oor p target e = target" for e
    using a by (simp add: p concurrencyAt_def Let_def)
  have mid: "concurrencyAt oor p target e = \<lfloor>ramp_value start target up e + 1 / 2\<rfloor>"
    "start \<le> concurrencyAt oor p target e" "concurrencyAt oor p target e \<le> target"
    if "0 < e" "e < up" for e
  proof -
    show eq: "concurrencyAt oor p target e = \<lfloor>ramp_value start target up e + 1 / 2\<rfloor>"
      unfolding p by (rule concurrencyAt_ramping) (use a that in auto)
    have b: "of_int start \<le> ramp_value start target up e" "ramp_value start target up e \<le> of_int target"
      using ramp_value_bounds [OF that a(3,4,5)] by blast+
    show "start \<le> concurrencyAt oor p target e" unfolding eq le_floor_iff using b(1) by simp
    show "concurrencyAt oor p target e \<le> target" unfolding eq floor_le_iff using b(2) by simp
  qed
  have bounds: "start \<le> concurrencyAt oor p target e \<and> concurrencyAt oor p target e \<le> target" for e
    using early [of e] late [of e] mid [of e] a(4) by (cases "e \<le> 0"; cases "up \<le> e") auto
  have "concurrencyAt oor p target e \<le> concurrencyAt oor p target e'"
  proof (cases "e \<le> 0 \<or> up \<le> e'")
    case True
    then show ?thesis using early [of e] late [of e'] bounds [of e] bounds [of e'] by auto
  next
    case False
    then have "0 < e" "e < up" "0 < e'" "e' < up" using assms(2) by auto
    then show ?thesis
      using mid(1) ramp_value_mono [of e e' up start target] assms(2) a(4)
      by (simp add: floor_mono)
  qed
  then show ?thesis using bounds early [of 0] late [of e] by (simp add: p)
qed

text \<open>A validated ramp starts at its floor, never leaves [start, target], never goes down as time
  passes, and is at full target from the end of the window on: rounding errors never make it
  overshoot or step back.\<close>

theorem ramp_is_monotone_and_bounded:
  assumes "ramp_sized p target" and "e \<le> e'"
  shows "concurrencyAt oor p target e \<le> concurrencyAt oor p target e'
       \<and> rp_StartConcurrency p \<le> concurrencyAt oor p target e \<and> concurrencyAt oor p target e \<le> target
       \<and> concurrencyAt oor p target 0 = rp_StartConcurrency p
       \<and> (rp_Up p \<le> e \<longrightarrow> concurrencyAt oor p target e = target)"
  using ramp_facts [OF assms] .

theorem ramp_is_monotone_and_bounded_witness:
  "concurrencyAt (\<lambda>_. 0) \<lparr>rp_Up = 10 * second, rp_StartConcurrency = 1\<rparr> 20 (3 * second)
     \<le> concurrencyAt (\<lambda>_. 0) \<lparr>rp_Up = 10 * second, rp_StartConcurrency = 1\<rparr> 20 (7 * second)"
  using ramp_is_monotone_and_bounded [of "\<lparr>rp_Up = 10 * second, rp_StartConcurrency = 1\<rparr>" 20
      "3 * second" "7 * second" "\<lambda>_. 0"]
  by (simp add: ramp_sized_def time_units)

section \<open>The backoff\<close>

lemma backoff_bound:
  assumes "rand_Float64 R r = Some (u, r')" and "unit_draw u" and "0 \<le> mx" and "mx < 2 ^ 53"
  shows "\<exists>d. backoffDelay oor R attempt base mx r = Some (d, r') \<and> 0 \<le> d \<and> d \<le> mx"
proof -
  define e where "e = (let e = shift_left base attempt in if e \<le> 0 \<or> e > mx then mx else e)"
  have e: "0 \<le> e" "e \<le> mx" using assms(3) by (simp_all add: e_def Let_def)
  then have "0 \<le> f_to_i64 oor (f_mul u (f64_of_int e))" "f_to_i64 oor (f_mul u (f64_of_int e)) \<le> mx"
    using unit_scale [OF assms(2), of e oor] assms(4) by simp_all
  then show ?thesis using assms(1) unfolding backoffDelay_def e_def Let_def by simp
qed

lemma backoff_scripted:
  assumes "fake_ok k f" "backoffDelay oor fakeRand_ops attempt base mx f = Some (d, f')" "0 \<le> mx" "mx < 2 ^ 53"
  shows "0 \<le> d \<and> d \<le> mx \<and> fake_ok k f'"
proof -
  obtain u f1 where u: "rand_Float64 fakeRand_ops f = Some (u, f1)"
    using assms(2) by (auto simp: backoffDelay_def Let_def split: option.splits)
  have inv: "unit_draw u \<and> fake_ok k f1" using scripted.Float64_unit [OF assms(1) u] .
  then show ?thesis
    using backoff_bound [OF u _ assms(3,4), of oor attempt base] assms(2) by auto
qed

text \<open>Full jitter never exceeds the cap: whatever the attempt count (also when the exponential
  overflows 64 bits), the delay is between 0 and \<open>max\<close>, for every unit draw of any source and so
  for a scripted source all along its script.\<close>

theorem backoff_is_bounded:
  assumes "0 \<le> mx" and "mx < 2 ^ 53"
  shows "(rand_Float64 R r = Some (u, r') \<and> unit_draw u \<longrightarrow>
            (\<exists>d. backoffDelay oor R attempt base mx r = Some (d, r') \<and> 0 \<le> d \<and> d \<le> mx))
       \<and> (fake_ok k f \<and> backoffDelay oor fakeRand_ops attempt base mx f = Some (d, f') \<longrightarrow>
            0 \<le> d \<and> d \<le> mx \<and> fake_ok k f')"
  using assms backoff_bound [of R r u r' mx oor attempt base]
    backoff_scripted [of k f oor attempt base mx d f'] by blast

theorem backoff_is_bounded_witness:
  "\<exists>d r'. backoffDelay (\<lambda>_. 0) fakeRand_ops 70 (100 * millisecond) second
     (fake_New \<lparr>fs_Floats = [Fin (1 / 2)], fs_Norms = [], fs_Exps = [], fs_Ints = [], fs_Int63s = [],
        fs_Perms = []\<rparr>) = Some (d, r') \<and> d \<le> second"
proof -
  let ?r = "fake_New \<lparr>fs_Floats = [Fin (1 / 2)], fs_Norms = [], fs_Exps = [], fs_Ints = [],
      fs_Int63s = [], fs_Perms = []\<rparr>"
  obtain r' where r: "rand_Float64 fakeRand_ops ?r = Some (Fin (1 / 2), r')"
    by (simp add: fakeRand_ops_def fake_Float64_def tape_def fake_New_def copyScript_def)
  have "unit_draw (Fin (1 / 2))" unfolding unit_draw_def by (intro exI [of _ "1 / 2"]) simp
  then obtain d where "backoffDelay (\<lambda>_. 0) fakeRand_ops 70 (100 * millisecond) second ?r = Some (d, r')"
    "d \<le> second"
    using backoff_is_bounded [of second fakeRand_ops ?r "Fin (1 / 2)" r' "\<lambda>_. 0" 70 "100 * millisecond",
        THEN conjunct1] r by (auto simp: time_units)
  then show ?thesis by blast
qed

end
