(* ===== verification/ScenarioTypes.thy ===== *)
theory ScenarioTypes
  imports Caps Ramp Protocols
begin

text \<open>
  The data of the scenario package: the enumerations with their YAML parsers
  (\<open>internal/scenario/enums.go\<close>, the parsers of \<open>validate.go\<close>), the on-disk shapes
  (\<open>raw.go\<close>) and the frozen, validated scenario (\<open>scenario.go\<close>).

  A block carries its resolved persona, whose type is the parameter \<open>'p\<close>; a schedule
  carries its \<open>time.Location\<close>, whose type is the parameter \<open>'loc\<close>.
\<close>

section \<open>Enumerations\<close>

datatype RotationStrategy = RotationSequential | RotationRandom | RotationOther "8 word"
datatype ExecutionMode = ExecParallel | ExecSequential | ExecOther "8 word"
datatype WeightBasis = WeightByVuserPopulation | WeightByConcurrency | WeightByRequestRate
  | WeightOther "8 word"

fun RotationStrategy_String :: "RotationStrategy \<Rightarrow> string" where
  "RotationStrategy_String RotationSequential = ''sequential''"
| "RotationStrategy_String RotationRandom = ''random''"
| "RotationStrategy_String _ = ''unknown''"

fun ExecutionMode_String :: "ExecutionMode \<Rightarrow> string" where
  "ExecutionMode_String ExecParallel = ''parallel''"
| "ExecutionMode_String ExecSequential = ''sequential''"
| "ExecutionMode_String _ = ''unknown''"

fun WeightBasis_String :: "WeightBasis \<Rightarrow> string" where
  "WeightBasis_String WeightByVuserPopulation = ''vuser_population''"
| "WeightBasis_String WeightByConcurrency = ''concurrency''"
| "WeightBasis_String WeightByRequestRate = ''request_rate''"
| "WeightBasis_String _ = ''unknown''"

definition parseRotation :: "string \<Rightarrow> RotationStrategy \<times> bool" where
  "parseRotation s =
     (if s = '''' \<or> s = ''sequential'' then (RotationSequential, True)
      else if s = ''random'' then (RotationRandom, True)
      else (RotationSequential, False))"

definition parseMode :: "string \<Rightarrow> ExecutionMode \<times> bool" where
  "parseMode s =
     (if s = '''' \<or> s = ''parallel'' then (ExecParallel, True)
      else if s = ''sequential'' then (ExecSequential, True)
      else (ExecParallel, False))"

definition parseWeightBasis :: "string \<Rightarrow> WeightBasis \<times> bool" where
  "parseWeightBasis s =
     (if s = '''' \<or> s = ''vuser_population'' then (WeightByVuserPopulation, True)
      else if s = ''concurrency'' then (WeightByConcurrency, True)
      else if s = ''request_rate'' then (WeightByRequestRate, True)
      else (WeightByVuserPopulation, False))"

definition parseProtocol :: "string \<Rightarrow> ProtocolID \<times> bool" where
  "parseProtocol s = (if IsKnownProtocol s then (s, True) else ('''', False))"

text \<open>Parsing is the inverse of printing on the declared constants.\<close>

lemma parse_print_enums:
  "r \<in> {RotationSequential, RotationRandom} \<Longrightarrow> parseRotation (RotationStrategy_String r) = (r, True)"
  "m \<in> {ExecParallel, ExecSequential} \<Longrightarrow> parseMode (ExecutionMode_String m) = (m, True)"
  "w \<in> {WeightByVuserPopulation, WeightByConcurrency, WeightByRequestRate} \<Longrightarrow>
     parseWeightBasis (WeightBasis_String w) = (w, True)"
  by (auto simp: parseRotation_def parseMode_def parseWeightBasis_def)

section \<open>On disk\<close>

record RawCaps =
  rc_PerTargetRPS :: f64
  rc_GlobalRPS :: f64
  rc_MaxConcurrentSessions :: int
  rc_TotalRequestBudget :: int
  rc_StreamingByteRateKbps :: int
  rc_ConcurrentStreams :: int
  rc_PerSessionMaxDurationSeconds :: int
  rc_PerSessionMaxActions :: int

record RawExecution =
  rx_Mode :: string
  rx_StopOnError :: bool

record RawRamp =
  rr_UpSeconds :: int
  rr_StartConcurrency :: int

record RawWindow =
  rw_Days :: "string list"
  rw_Start :: string
  rw_End :: string

record RawSchedule =
  rsd_Timezone :: string
  rsd_Windows :: "RawWindow list"

record RawBlock =
  rb_ID :: string
  rb_Protocol :: string
  rb_Targets :: "string list"
  rb_TargetRotation :: string
  rb_TargetRotationIntervalSeconds :: int
  rb_AllowInsecure :: bool
  rb_AllowInsecureReason :: string
  rb_Persona :: string
  rb_Concurrency :: int
  rb_DurationMinutes :: int
  rb_Weight :: int
  rb_Ramp :: "RawRamp option"

text \<open>\<open>'rp\<close> is the decoded persona document.\<close>

record 'rp Raw =
  raw_Name :: string
  raw_Description :: string
  raw_AllowedDomains :: "string list"
  raw_Caps :: RawCaps
  raw_Execution :: RawExecution
  raw_Scenarios :: "RawBlock list"
  raw_Personas :: "'rp list"
  raw_WeightBasis :: string
  raw_Schedule :: "RawSchedule option"

section \<open>The frozen scenario\<close>

text \<open>\<open>Days\<close> is indexed by weekday, Sunday first.\<close>

record ScheduleWindow =
  sw_Days :: "bool list"
  sw_Start :: duration
  sw_End :: duration

record 'loc Schedule =
  sd_Loc :: "'loc option"
  sd_Windows :: "ScheduleWindow list"

record 'p Block =
  bl_ID :: string
  bl_Protocol :: ProtocolID
  bl_Targets :: "Target list"
  bl_Rotation :: RotationStrategy
  bl_RotationInterval :: duration
  bl_AllowInsecure :: bool
  bl_AllowInsecureReason :: string
  bl_Persona :: "'p option"
  bl_Concurrency :: int
  bl_Duration :: duration
  bl_Weight :: int
  bl_Ramp :: RampPlan

record Execution =
  ex_Mode :: ExecutionMode
  ex_StopOnError :: bool

record ('p, 'loc) Scenario =
  sc_Name :: string
  sc_Description :: string
  sc_AllowedDomains :: "string list"
  sc_AgentCount :: int
  sc_Caps :: CapSpec
  sc_Ceiling :: Ceiling
  sc_CapOverride :: bool
  sc_Execution :: Execution
  sc_Blocks :: "'p Block list"
  sc_Targets :: TargetSet
  sc_WeightBasis :: WeightBasis
  sc_Schedule :: "'loc Schedule"

end
