(* ===== verification/Clock.thy ===== *)
theory Clock
  imports Prelude
begin

text \<open>
  The injected time source (\<open>internal/clock/clock.go\<close>) and the deterministic \<open>FakeClock\<close>
  (\<open>internal/clock/fake.go\<close>).

  An operation that reads the clock is given the readings it will make, in order
  (\<open>clock\<close>), and returns the ones it did not use. A clock that goes backwards, stands
  still or jumps between two readings of one operation is a value of the type; the laws a
  caller relies on are the locale \<open>monotone_clock\<close>.

  \<open>FakeClock\<close> is modelled with its heap of waiters (a \<open>Timer\<close> keeps its pointer after the
  clock has dropped the waiter), its one-element channels, and the callbacks of \<open>AfterFunc\<close>,
  which an operation returns in the order it runs them.
\<close>

section \<open>The interface\<close>

type_synonym clock = "nat \<Rightarrow> instant"

definition Now :: "clock \<Rightarrow> instant \<times> clock" where
  "Now clk = (clk 0, \<lambda>i. clk (Suc i))"

definition Since :: "clock \<Rightarrow> instant \<Rightarrow> duration \<times> clock" where
  "Since clk t = (time_sub (clk 0) t, \<lambda>i. clk (Suc i))"

text \<open>\<open>Sleep\<close> returns the context's error when it is already done, and nil at once for a
  non-positive duration; otherwise what ends the wait is the environment's \<open>outcome\<close>: the
  timer, or the context's error.\<close>

definition Sleep :: "'e option \<Rightarrow> duration \<Rightarrow> 'e option \<Rightarrow> 'e option" where
  "Sleep ctx_err d outcome =
     (case ctx_err of Some e \<Rightarrow> Some e | None \<Rightarrow> if d \<le> 0 then None else outcome)"

locale monotone_clock =
  fixes clk :: clock
  assumes clk_mono: "i \<le> j \<Longrightarrow> clk i \<le> clk j"
begin

lemma Now_le_later: "fst (Now clk) \<le> snd (Now clk) i"
  by (simp add: Now_def clk_mono)

lemma Since_Now_nonneg: "0 \<le> fst (Since (snd (Now clk)) (fst (Now clk)))"
  by (simp add: Now_def Since_def clk_mono time_sub_nonneg)

lemma later_mono: "i \<le> j \<Longrightarrow> snd (Now clk) i \<le> snd (Now clk) j"
  by (simp add: Now_def clk_mono)

end

section \<open>FakeClock\<close>

record fakeWaiter =
  w_deadline :: instant
  w_ch :: "instant list"
  w_fn :: "nat option"
  w_fired :: bool
  w_stopped :: bool

record FakeClock =
  fc_now :: instant
  fc_heap :: "fakeWaiter list"
  fc_waiters :: "nat list"

definition NewFake :: "instant \<Rightarrow> FakeClock" where
  "NewFake t = \<lparr>fc_now = t, fc_heap = [], fc_waiters = []\<rparr>"

definition fake_Now :: "FakeClock \<Rightarrow> instant" where
  "fake_Now c = fc_now c"

definition fake_Since :: "FakeClock \<Rightarrow> instant \<Rightarrow> duration" where
  "fake_Since c t = time_sub (fc_now c) t"

definition fire_waiter :: "fakeWaiter \<Rightarrow> fakeWaiter" where
  "fire_waiter w =
     (if w_fired w \<or> w_stopped w then w
      else if w_fn w = None then w\<lparr>w_fired := True, w_ch := w_ch w @ [w_deadline w]\<rparr>
      else w\<lparr>w_fired := True\<rparr>)"

definition fire :: "FakeClock \<Rightarrow> nat \<Rightarrow> FakeClock" where
  "fire c p = c\<lparr>fc_heap := (fc_heap c)[p := fire_waiter (fc_heap c ! p)]\<rparr>"

text \<open>\<open>addWaiter\<close> returns the waiter and the callback to run once the lock is released.\<close>

definition addWaiter ::
  "FakeClock \<Rightarrow> duration \<Rightarrow> nat option \<Rightarrow> FakeClock \<times> nat \<times> nat option" where
  "addWaiter c d fn =
     (let w = \<lparr>w_deadline = time_add (fc_now c) d, w_ch = [], w_fn = fn,
               w_fired = False, w_stopped = False\<rparr>;
          p = length (fc_heap c);
          c1 = c\<lparr>fc_heap := fc_heap c @ [w]\<rparr>
      in if d \<le> 0 then (fire c1 p, p, fn)
         else (c1\<lparr>fc_waiters := fc_waiters c @ [p]\<rparr>, p, None))"

definition fake_NewTimer :: "FakeClock \<Rightarrow> duration \<Rightarrow> FakeClock \<times> nat" where
  "fake_NewTimer c d = (case addWaiter c d None of (c', p, _) \<Rightarrow> (c', p))"

definition fake_AfterFunc ::
  "FakeClock \<Rightarrow> duration \<Rightarrow> nat \<Rightarrow> FakeClock \<times> nat \<times> nat list" where
  "fake_AfterFunc c d f =
     (case addWaiter c d (Some f) of (c', p, run) \<Rightarrow>
        (c', p, case run of None \<Rightarrow> [] | Some g \<Rightarrow> [g]))"

definition timer_Stop :: "FakeClock \<Rightarrow> nat \<Rightarrow> FakeClock \<times> bool" where
  "timer_Stop c p =
     (let w = fc_heap c ! p
      in if w_fired w \<or> w_stopped w then (c, False)
         else (c\<lparr>fc_heap := (fc_heap c)[p := w\<lparr>w_stopped := True\<rparr>]\<rparr>, True))"

text \<open>A receive from the channel of a timer, \<open><-t.C()\<close>, when its buffer holds a value.\<close>

definition timer_receive :: "FakeClock \<Rightarrow> nat \<Rightarrow> FakeClock \<times> instant option" where
  "timer_receive c p =
     (let w = fc_heap c ! p
      in case w_ch w of [] \<Rightarrow> (c, None)
         | t # ts \<Rightarrow> (c\<lparr>fc_heap := (fc_heap c)[p := w\<lparr>w_ch := ts\<rparr>]\<rparr>, Some t))"

text \<open>The stable sort of the due waiters by deadline, the firing, the collected callbacks.\<close>

definition due_waiters :: "FakeClock \<Rightarrow> nat list" where
  "due_waiters c =
     filter (\<lambda>p. \<not> w_stopped (fc_heap c ! p) \<and> w_deadline (fc_heap c ! p) \<le> fc_now c)
       (fc_waiters c)"

definition rest_waiters :: "FakeClock \<Rightarrow> nat list" where
  "rest_waiters c =
     filter (\<lambda>p. \<not> w_stopped (fc_heap c ! p) \<and> \<not> w_deadline (fc_heap c ! p) \<le> fc_now c)
       (fc_waiters c)"

definition fireDue :: "FakeClock \<Rightarrow> FakeClock \<times> nat list" where
  "fireDue c =
     (let due = sort_key (\<lambda>p. w_deadline (fc_heap c ! p)) (due_waiters c);
          c1 = foldl fire (c\<lparr>fc_waiters := rest_waiters c\<rparr>) due
      in (c1, List.map_filter (\<lambda>p. w_fn (fc_heap c ! p)) due))"

definition Advance :: "FakeClock \<Rightarrow> duration \<Rightarrow> FakeClock \<times> nat list" where
  "Advance c d = fireDue (c\<lparr>fc_now := time_add (fc_now c) d\<rparr>)"

definition SetTime :: "FakeClock \<Rightarrow> instant \<Rightarrow> FakeClock \<times> nat list" where
  "SetTime c t = fireDue (c\<lparr>fc_now := t\<rparr>)"

text \<open>A \<open>Sleep\<close> on the fake clock: the waiter it registers, or its immediate answer. A
  cancelled wait marks the waiter stopped.\<close>

definition fake_Sleep_start ::
  "FakeClock \<Rightarrow> 'e option \<Rightarrow> duration \<Rightarrow> FakeClock \<times> ('e option + nat)" where
  "fake_Sleep_start c ctx_err d =
     (case ctx_err of Some e \<Rightarrow> (c, Inl (Some e))
      | None \<Rightarrow> if d \<le> 0 then (c, Inl None)
                else (case addWaiter c d None of (c', p, _) \<Rightarrow> (c', Inr p)))"

definition fake_Sleep_cancel :: "FakeClock \<Rightarrow> nat \<Rightarrow> FakeClock" where
  "fake_Sleep_cancel c p =
     c\<lparr>fc_heap := (fc_heap c)[p := (fc_heap c ! p)\<lparr>w_stopped := True\<rparr>]\<rparr>"

section \<open>The waiters' invariant\<close>

text \<open>A channel holds at most the deadline of its waiter, and only once that has fired.\<close>

definition ch_ok :: "fakeWaiter \<Rightarrow> bool" where
  "ch_ok w \<longleftrightarrow> w_ch w = [] \<or> w_fired w \<and> w_fn w = None \<and> w_ch w = [w_deadline w]"

lemma ch_ok_keep [simp]:
  "ch_ok (w\<lparr>w_stopped := b\<rparr>) = ch_ok w" "ch_ok w \<Longrightarrow> ch_ok (w\<lparr>w_ch := tl (w_ch w)\<rparr>)"
  by (auto simp: ch_ok_def)

definition fc_wf :: "FakeClock \<Rightarrow> bool" where
  "fc_wf c \<longleftrightarrow> distinct (fc_waiters c)
     \<and> (\<forall>p \<in> set (fc_waiters c). p < length (fc_heap c) \<and> \<not> w_fired (fc_heap c ! p))
     \<and> (\<forall>p < length (fc_heap c). \<not> w_fired (fc_heap c ! p) \<and> \<not> w_stopped (fc_heap c ! p)
          \<longrightarrow> p \<in> set (fc_waiters c))
     \<and> (\<forall>p < length (fc_heap c). ch_ok (fc_heap c ! p))"

definition fc_pending_future :: "FakeClock \<Rightarrow> bool" where
  "fc_pending_future c \<longleftrightarrow>
     (\<forall>p \<in> set (fc_waiters c). \<not> w_stopped (fc_heap c ! p) \<longrightarrow> fc_now c < w_deadline (fc_heap c ! p))"

definition fc_inv :: "FakeClock \<Rightarrow> bool" where
  "fc_inv c \<longleftrightarrow> fc_wf c \<and> fc_pending_future c"

lemma fire_waiter_fields [simp]:
  "w_deadline (fire_waiter w) = w_deadline w" "w_fn (fire_waiter w) = w_fn w"
  "w_stopped (fire_waiter w) = w_stopped w"
  "w_fired (fire_waiter w) \<longleftrightarrow> w_fired w \<or> \<not> w_stopped w"
  by (simp_all add: fire_waiter_def)

lemma fire_fields [simp]:
  "fc_now (fire c p) = fc_now c" "fc_waiters (fire c p) = fc_waiters c"
  "length (fc_heap (fire c p)) = length (fc_heap c)"
  by (simp_all add: fire_def)

lemma foldl_fire_fields [simp]:
  "fc_now (foldl fire c ps) = fc_now c" "fc_waiters (foldl fire c ps) = fc_waiters c"
  "length (fc_heap (foldl fire c ps)) = length (fc_heap c)"
  by (induction ps arbitrary: c) simp_all

lemma foldl_fire_heap:
  assumes "distinct ps" "\<forall>p \<in> set ps. p < length (fc_heap c)" "q < length (fc_heap c)"
  shows "fc_heap (foldl fire c ps) ! q =
    (if q \<in> set ps then fire_waiter (fc_heap c ! q) else fc_heap c ! q)"
  using assms
proof (induction ps arbitrary: c)
  case Nil
  then show ?case by simp
next
  case (Cons p ps)
  then show ?case by (auto simp: fire_def nth_list_update)
qed

lemma set_due: "p \<in> set (due_waiters c) \<longleftrightarrow>
    p \<in> set (fc_waiters c) \<and> \<not> w_stopped (fc_heap c ! p) \<and> w_deadline (fc_heap c ! p) \<le> fc_now c"
  by (auto simp: due_waiters_def)

lemma set_rest: "p \<in> set (rest_waiters c) \<longleftrightarrow>
    p \<in> set (fc_waiters c) \<and> \<not> w_stopped (fc_heap c ! p) \<and> fc_now c < w_deadline (fc_heap c ! p)"
  by (auto simp: rest_waiters_def)

lemma fireDue_heap:
  assumes "fc_wf c" "q < length (fc_heap c)"
  shows "fc_heap (fst (fireDue c)) ! q =
    (if q \<in> set (due_waiters c) then fire_waiter (fc_heap c ! q) else fc_heap c ! q)"
proof -
  let ?due = "sort_key (\<lambda>p. w_deadline (fc_heap c ! p)) (due_waiters c)"
  have "distinct ?due" using assms(1) by (simp add: fc_wf_def due_waiters_def)
  moreover have "\<forall>p \<in> set ?due. p < length (fc_heap c)"
    using assms(1) by (simp add: fc_wf_def due_waiters_def)
  ultimately show ?thesis using assms(2)
    by (simp add: fireDue_def foldl_fire_heap Let_def)
qed

lemma fireDue_fields [simp]:
  "fc_now (fst (fireDue c)) = fc_now c" "length (fc_heap (fst (fireDue c))) = length (fc_heap c)"
  "fc_waiters (fst (fireDue c)) = rest_waiters c"
  by (simp_all add: fireDue_def Let_def)

lemma due_unfired: "fc_wf c \<Longrightarrow> p \<in> set (due_waiters c) \<Longrightarrow> \<not> w_fired (fc_heap c ! p)"
  by (auto simp: fc_wf_def set_due)

lemma fireDue_inv:
  assumes "fc_wf c" shows "fc_inv (fst (fireDue c))"
proof -
  let ?c = "fst (fireDue c)"
  have h: "q < length (fc_heap c) \<Longrightarrow> fc_heap ?c ! q =
      (if q \<in> set (due_waiters c) then fire_waiter (fc_heap c ! q) else fc_heap c ! q)" for q
    using assms by (rule fireDue_heap)
  have lt: "p \<in> set (fc_waiters c) \<Longrightarrow> p < length (fc_heap c)" for p
    using assms by (simp add: fc_wf_def)
  have "fc_wf ?c"
    unfolding fc_wf_def
  proof (intro conjI ballI allI impI)
    show "distinct (fc_waiters ?c)" using assms by (simp add: fc_wf_def rest_waiters_def)
  next
    fix p assume "p \<in> set (fc_waiters ?c)"
    then have p: "p \<in> set (rest_waiters c)" by simp
    then show "p < length (fc_heap ?c)" by (simp add: set_rest lt)
    from p have "p \<notin> set (due_waiters c)" by (auto simp: set_rest set_due)
    with p show "\<not> w_fired (fc_heap ?c ! p)"
      using assms lt by (auto simp: h set_rest fc_wf_def)
  next
    fix p assume p: "p < length (fc_heap ?c)" and u: "\<not> w_fired (fc_heap ?c ! p) \<and> \<not> w_stopped (fc_heap ?c ! p)"
    then have nd: "p \<notin> set (due_waiters c)" by (auto simp: h)
    with p u have "p \<in> set (fc_waiters c)" using assms by (simp add: h fc_wf_def)
    with nd p u show "p \<in> set (fc_waiters ?c)" by (auto simp: h set_due set_rest)
  next
    fix p assume p: "p < length (fc_heap ?c)"
    show "ch_ok (fc_heap ?c ! p)"
    proof (cases "p \<in> set (due_waiters c)")
      case True
      then have "\<not> w_fired (fc_heap c ! p)" "\<not> w_stopped (fc_heap c ! p)"
        using assms by (auto simp: due_unfired set_due)
      moreover have "w_ch (fc_heap c ! p) = []" using assms p calculation by (auto simp: fc_wf_def ch_ok_def)
      ultimately show ?thesis using True p by (simp add: h) (simp add: fire_waiter_def ch_ok_def)
    next
      case False
      then show ?thesis using p assms by (simp add: h fc_wf_def)
    qed
  qed
  moreover have "fc_pending_future ?c"
    unfolding fc_pending_future_def
  proof (intro ballI impI)
    fix p assume p: "p \<in> set (fc_waiters ?c)"
    then have "p \<in> set (rest_waiters c)" by simp
    moreover from this have "p \<notin> set (due_waiters c)" by (auto simp: set_rest set_due)
    ultimately show "fc_now ?c < w_deadline (fc_heap ?c ! p)" by (simp add: h set_rest lt)
  qed
  ultimately show ?thesis by (simp add: fc_inv_def)
qed

lemma all_heap_append:
  "(\<forall>p < length (xs @ [w]). P p ((xs @ [w]) ! p)) \<longleftrightarrow>
     (\<forall>p < length xs. P p (xs ! p)) \<and> P (length xs) w"
  by (simp add: less_Suc_eq nth_append all_conj_distrib disj_imp conj_commute imp_conjL)

text \<open>A fresh waiter: fired on the spot, or registered with its deadline ahead.\<close>

lemma append_waiter_inv:
  assumes inv: "fc_inv c"
    and ch: "ch_ok w"
    and ws: "ws = fc_waiters c \<and> w_fired w
       \<or> ws = fc_waiters c @ [length (fc_heap c)] \<and> \<not> w_fired w \<and> fc_now c < w_deadline w"
  shows "fc_inv (c\<lparr>fc_heap := fc_heap c @ [w], fc_waiters := ws\<rparr>)"
proof -
  let ?c = "c\<lparr>fc_heap := fc_heap c @ [w], fc_waiters := ws\<rparr>"
  have lt: "\<forall>p \<in> set (fc_waiters c). p < length (fc_heap c)"
    using inv by (simp add: fc_inv_def fc_wf_def)
  have h: "p < length (fc_heap c) \<Longrightarrow> (fc_heap c @ [w]) ! p = fc_heap c ! p" for p
    by (simp add: nth_append)
  have cases: "q \<in> set ws \<longleftrightarrow> q \<in> set (fc_waiters c) \<or> q = length (fc_heap c) \<and> \<not> w_fired w" for q
    using ws by auto
  have fields: "fc_heap ?c = fc_heap c @ [w]" "fc_waiters ?c = ws" by simp_all
  have live: "\<forall>p < length (fc_heap c).
      \<not> w_fired (fc_heap c ! p) \<and> \<not> w_stopped (fc_heap c ! p) \<longrightarrow> p \<in> set (fc_waiters c)"
    using inv unfolding fc_inv_def fc_wf_def by blast
  have chs: "\<forall>p < length (fc_heap c). ch_ok (fc_heap c ! p)"
    using inv unfolding fc_inv_def fc_wf_def by (elim conjE)
  have "distinct ws" using ws lt inv by (auto simp: fc_inv_def fc_wf_def)
  moreover have "\<forall>p \<in> set ws. p < length (fc_heap c @ [w]) \<and> \<not> w_fired ((fc_heap c @ [w]) ! p)"
    using lt inv by (auto simp: cases h fc_inv_def fc_wf_def less_Suc_eq)
  moreover have "\<forall>p < length (fc_heap c @ [w]).
      \<not> w_fired ((fc_heap c @ [w]) ! p) \<and> \<not> w_stopped ((fc_heap c @ [w]) ! p) \<longrightarrow> p \<in> set ws"
  proof (intro allI impI)
    fix p assume "p < length (fc_heap c @ [w])"
      and u: "\<not> w_fired ((fc_heap c @ [w]) ! p) \<and> \<not> w_stopped ((fc_heap c @ [w]) ! p)"
    then consider "p < length (fc_heap c)" | "p = length (fc_heap c)" by fastforce
    then show "p \<in> set ws"
    proof cases
      case 1
      with u live have "p \<in> set (fc_waiters c)" by (simp add: h)
      then show ?thesis by (simp add: cases)
    next
      case 2
      with u show ?thesis by (simp add: cases)
    qed
  qed
  moreover have "\<forall>p < length (fc_heap c @ [w]). ch_ok ((fc_heap c @ [w]) ! p)"
    using all_heap_append [where P = "\<lambda>p v. ch_ok v", THEN iffD2, OF conjI, OF chs ch] by blast
  ultimately have "fc_wf ?c" unfolding fc_wf_def fields by (intro conjI)
  moreover have "fc_pending_future ?c"
  proof -
    have "w_fired w \<or> fc_now c < w_deadline w" using ws by blast
    then show ?thesis using lt inv
      by (auto simp: cases h fc_pending_future_def fc_inv_def)
  qed
  ultimately show ?thesis by (simp add: fc_inv_def)
qed

lemma addWaiter_inv:
  assumes "fc_inv c" shows "fc_inv (fst (addWaiter c d fn))"
proof (cases "d \<le> 0")
  case True
  let ?w = "fire_waiter \<lparr>w_deadline = time_add (fc_now c) d, w_ch = [], w_fn = fn,
               w_fired = False, w_stopped = False\<rparr>"
  have "fst (addWaiter c d fn) =
      c\<lparr>fc_heap := fc_heap c @ [?w], fc_waiters := fc_waiters c\<rparr>"
    using True by (simp add: addWaiter_def fire_def Let_def)
  moreover have "fc_inv \<dots>"
    by (rule append_waiter_inv [OF assms]) (simp_all add: fire_waiter_def ch_ok_def)
  ultimately show ?thesis by simp
next
  case False
  then have "fst (addWaiter c d fn) =
      c\<lparr>fc_heap := fc_heap c @ [\<lparr>w_deadline = time_add (fc_now c) d, w_ch = [], w_fn = fn,
               w_fired = False, w_stopped = False\<rparr>],
        fc_waiters := fc_waiters c @ [length (fc_heap c)]\<rparr>"
    by (simp add: addWaiter_def Let_def)
  moreover have "fc_inv \<dots>"
    by (rule append_waiter_inv [OF assms]) (use False in \<open>simp_all add: time_add_def ch_ok_def\<close>)
  ultimately show ?thesis by simp
qed

lemma stop_waiter_inv:
  assumes "fc_inv c" "p < length (fc_heap c)"
  shows "fc_inv (c\<lparr>fc_heap := (fc_heap c)[p := (fc_heap c ! p)\<lparr>w_stopped := True\<rparr>]\<rparr>)"
proof -
  let ?h = "(fc_heap c)[p := (fc_heap c ! p)\<lparr>w_stopped := True\<rparr>]"
  have h: "?h ! q = (if q = p then (fc_heap c ! p)\<lparr>w_stopped := True\<rparr> else fc_heap c ! q)" for q
    using assms(2) by (simp add: nth_list_update)
  have f: "w_fired (?h ! q) = w_fired (fc_heap c ! q)" "w_fn (?h ! q) = w_fn (fc_heap c ! q)"
    "ch_ok (?h ! q) = ch_ok (fc_heap c ! q)" "w_deadline (?h ! q) = w_deadline (fc_heap c ! q)"
    "w_stopped (?h ! q) = (q = p \<or> w_stopped (fc_heap c ! q))" for q
    by (simp_all add: h)
  show ?thesis
    using assms(1) by (simp add: fc_inv_def fc_wf_def fc_pending_future_def f)
qed

lemma timer_receive_inv:
  assumes "fc_inv c" "p < length (fc_heap c)" shows "fc_inv (fst (timer_receive c p))"
proof -
  let ?h = "(fc_heap c)[p := (fc_heap c ! p)\<lparr>w_ch := tl (w_ch (fc_heap c ! p))\<rparr>]"
  have h: "?h ! q = (if q = p then (fc_heap c ! p)\<lparr>w_ch := tl (w_ch (fc_heap c ! p))\<rparr> else fc_heap c ! q)" for q
    using assms(2) by (simp add: nth_list_update)
  have f: "w_fired (?h ! q) = w_fired (fc_heap c ! q)" "w_fn (?h ! q) = w_fn (fc_heap c ! q)"
    "w_deadline (?h ! q) = w_deadline (fc_heap c ! q)" "w_stopped (?h ! q) = w_stopped (fc_heap c ! q)"
    "ch_ok (fc_heap c ! q) \<Longrightarrow> ch_ok (?h ! q)" for q
    by (auto simp: h ch_ok_def)
  have "fc_inv (c\<lparr>fc_heap := ?h\<rparr>)"
    using assms(1) by (simp add: fc_inv_def fc_wf_def fc_pending_future_def f)
  then show ?thesis using assms(1) by (auto simp: timer_receive_def Let_def split: list.split)
qed

lemma rewind_wf: "fc_wf c \<Longrightarrow> fc_wf (c\<lparr>fc_now := t\<rparr>)"
  by (simp add: fc_wf_def)

text \<open>Every use of a fake clock: the calls of the interface, a receive from the channel of a timer or a
  sleep, and a callback that re-enters the clock.\<close>

inductive fake_step :: "FakeClock \<Rightarrow> FakeClock \<Rightarrow> bool" where
  NewTimer: "fake_step c (fst (fake_NewTimer c d))"
| AfterFunc: "fake_step c (fst (fake_AfterFunc c d f))"
| Stop: "p < length (fc_heap c) \<Longrightarrow> fake_step c (fst (timer_Stop c p))"
| Sleep_start: "fake_step c (fst (fake_Sleep_start c (e :: unit option) d))"
| Sleep_cancel: "p < length (fc_heap c) \<Longrightarrow> fake_step c (fake_Sleep_cancel c p)"
| Receive: "p < length (fc_heap c) \<Longrightarrow> fake_step c (fst (timer_receive c p))"
| Advance: "fake_step c (fst (Advance c d))"
| SetTime: "fake_step c (fst (SetTime c t))"

inductive fake_reachable :: "FakeClock \<Rightarrow> bool" where
  start: "fake_reachable (NewFake t)"
| step: "fake_reachable c \<Longrightarrow> fake_step c c' \<Longrightarrow> fake_reachable c'"

lemma fake_step_inv: "fake_step c c' \<Longrightarrow> fc_inv c \<Longrightarrow> fc_inv c'"
proof (induction rule: fake_step.induct)
  case (NewTimer c d)
  then show ?case using addWaiter_inv [of c d None]
    by (cases "addWaiter c d None") (simp add: fake_NewTimer_def)
next
  case (AfterFunc c d f)
  then show ?case using addWaiter_inv [of c d "Some f"]
    by (cases "addWaiter c d (Some f)") (simp add: fake_AfterFunc_def)
next
  case (Stop p c)
  then show ?case by (auto simp: timer_Stop_def Let_def stop_waiter_inv)
next
  case (Sleep_start c e d)
  then show ?case using addWaiter_inv [of c d None]
    by (cases "addWaiter c d None") (simp add: fake_Sleep_start_def split: option.splits)
next
  case (Sleep_cancel p c)
  then show ?case by (simp add: fake_Sleep_cancel_def stop_waiter_inv)
next
  case (Receive p c)
  then show ?case by (simp add: timer_receive_inv)
next
  case (Advance c d)
  then show ?case by (simp add: Advance_def fc_inv_def [of c] rewind_wf fireDue_inv)
next
  case (SetTime c t)
  then show ?case by (simp add: SetTime_def fc_inv_def [of c] rewind_wf fireDue_inv)
qed

lemma fake_reachable_inv: "fake_reachable c \<Longrightarrow> fc_inv c"
proof (induction rule: fake_reachable.induct)
  case (start t)
  show ?case by (simp add: fc_inv_def fc_wf_def fc_pending_future_def NewFake_def)
next
  case (step c c')
  then show ?case by (blast intro: fake_step_inv)
qed

lemma Advance_fired:
  assumes "fc_inv c" "p < length (fc_heap c)"
  shows "w_fired (fc_heap (fst (Advance c d)) ! p) \<longleftrightarrow>
     w_fired (fc_heap c ! p)
     \<or> \<not> w_stopped (fc_heap c ! p) \<and> w_deadline (fc_heap c ! p) \<le> fc_now c + d"
proof -
  let ?c = "c\<lparr>fc_now := time_add (fc_now c) d\<rparr>"
  have wf: "fc_wf ?c" using assms(1) by (simp add: fc_inv_def rewind_wf)
  have "w_fired (fc_heap (fst (fireDue ?c)) ! p) \<longleftrightarrow>
      w_fired (fc_heap c ! p) \<or> p \<in> set (due_waiters ?c) \<and> \<not> w_stopped (fc_heap c ! p)"
    using fireDue_heap [OF wf] assms(2) by simp
  moreover have "\<not> w_fired (fc_heap c ! p) \<and> \<not> w_stopped (fc_heap c ! p) \<longrightarrow> p \<in> set (fc_waiters c)"
    using assms by (simp add: fc_inv_def fc_wf_def)
  ultimately show ?thesis by (auto simp: Advance_def set_due time_add_def)
qed

lemma Advance_delivers:
  assumes "fc_inv c" "p < length (fc_heap c)"
  shows "w_ch (fc_heap (fst (Advance c d)) ! p) = w_ch (fc_heap c ! p) @
     (if \<not> w_fired (fc_heap c ! p) \<and> \<not> w_stopped (fc_heap c ! p)
         \<and> w_deadline (fc_heap c ! p) \<le> fc_now c + d \<and> w_fn (fc_heap c ! p) = None
      then [w_deadline (fc_heap c ! p)] else [])"
proof -
  let ?c = "c\<lparr>fc_now := time_add (fc_now c) d\<rparr>"
  have wf: "fc_wf ?c" using assms(1) by (simp add: fc_inv_def rewind_wf)
  have "\<not> w_fired (fc_heap c ! p) \<and> \<not> w_stopped (fc_heap c ! p) \<longrightarrow> p \<in> set (fc_waiters c)"
    "p \<in> set (fc_waiters c) \<longrightarrow> \<not> w_fired (fc_heap c ! p)"
    using assms by (simp_all add: fc_inv_def fc_wf_def)
  then show ?thesis using fireDue_heap [OF wf, of p] assms(2)
    by (auto simp: Advance_def set_due time_add_def fire_waiter_def)
qed

text \<open>C35. Timers of a reachable fake clock, whatever was started, stopped, received or advanced before: an
  \<open>Advance\<close> fires exactly the pending waiters whose deadline it reaches; each of these without a
  callback gets its deadline sent to its channel, exactly once, and no other channel changes; the
  buffer of one place is never exceeded; the callbacks of the others run in deadline order; and no
  stopped waiter fires.\<close>

theorem fake_clock_fires_exactly_the_due:
  assumes "fake_reachable c" and "p < length (fc_heap c)"
  shows "(w_fired (fc_heap (fst (Advance c d)) ! p) \<longleftrightarrow>
            w_fired (fc_heap c ! p)
            \<or> \<not> w_stopped (fc_heap c ! p) \<and> w_deadline (fc_heap c ! p) \<le> fc_now c + d)
       \<and> w_ch (fc_heap (fst (Advance c d)) ! p) = w_ch (fc_heap c ! p) @
            (if \<not> w_fired (fc_heap c ! p) \<and> \<not> w_stopped (fc_heap c ! p)
                \<and> w_deadline (fc_heap c ! p) \<le> fc_now c + d \<and> w_fn (fc_heap c ! p) = None
             then [w_deadline (fc_heap c ! p)] else [])
       \<and> length (w_ch (fc_heap (fst (Advance c d)) ! p)) \<le> 1
       \<and> (\<exists>ps. snd (Advance c d) = List.map_filter (\<lambda>p. w_fn (fc_heap c ! p)) ps
            \<and> sorted (map (\<lambda>p. w_deadline (fc_heap c ! p)) ps) \<and> distinct ps
            \<and> set ps = {p \<in> set (fc_waiters c). \<not> w_stopped (fc_heap c ! p)
                          \<and> w_deadline (fc_heap c ! p) \<le> fc_now c + d})"
proof -
  have inv: "fc_inv c" using assms(1) by (rule fake_reachable_inv)
  have "fc_inv (fst (Advance c d))" using fake_step.Advance inv by (rule fake_step_inv)
  moreover have "p < length (fc_heap (fst (Advance c d)))" using assms(2) by (simp add: Advance_def)
  ultimately have one: "length (w_ch (fc_heap (fst (Advance c d)) ! p)) \<le> 1"
    by (auto simp: fc_inv_def fc_wf_def ch_ok_def)
  let ?c = "c\<lparr>fc_now := time_add (fc_now c) d\<rparr>"
  have "set (due_waiters ?c) = {p \<in> set (fc_waiters c). \<not> w_stopped (fc_heap c ! p)
      \<and> w_deadline (fc_heap c ! p) \<le> fc_now c + d}"
    by (auto simp: set_due time_add_def)
  moreover have "distinct (due_waiters ?c)"
    using inv by (simp add: fc_inv_def fc_wf_def due_waiters_def)
  ultimately have "\<exists>ps. snd (Advance c d) = List.map_filter (\<lambda>p. w_fn (fc_heap c ! p)) ps
            \<and> sorted (map (\<lambda>p. w_deadline (fc_heap c ! p)) ps) \<and> distinct ps
            \<and> set ps = {p \<in> set (fc_waiters c). \<not> w_stopped (fc_heap c ! p)
                          \<and> w_deadline (fc_heap c ! p) \<le> fc_now c + d}"
    by (intro exI [of _ "sort_key (\<lambda>p. w_deadline (fc_heap c ! p)) (due_waiters ?c)"])
       (simp add: Advance_def fireDue_def Let_def)
  then show ?thesis using Advance_fired [OF inv assms(2)] Advance_delivers [OF inv assms(2)] one by blast
qed

theorem fake_clock_fires_exactly_the_due_witness:
  "w_fired (fc_heap (fst (Advance (fst (fake_NewTimer (NewFake 0) 5)) 7)) ! 0)
   \<and> w_ch (fc_heap (fst (Advance (fst (fake_NewTimer (NewFake 0) 5)) 7)) ! 0) = [5]"
proof -
  let ?c = "fst (fake_NewTimer (NewFake 0) 5)"
  have r: "fake_reachable ?c"
    by (rule fake_reachable.step [OF fake_reachable.start fake_step.NewTimer])
  have c: "0 < length (fc_heap ?c)" "w_ch (fc_heap ?c ! 0) = []" "w_deadline (fc_heap ?c ! 0) = 5"
    "\<not> w_fired (fc_heap ?c ! 0)" "\<not> w_stopped (fc_heap ?c ! 0)" "w_fn (fc_heap ?c ! 0) = None" "fc_now ?c = 0"
    by (simp_all add: fake_NewTimer_def addWaiter_def NewFake_def Let_def time_add_def)
  note due = fake_clock_fires_exactly_the_due [OF r c(1), of 7, unfolded c(2-) append_Nil]
  show ?thesis using due [THEN conjunct1] due [THEN conjunct2, THEN conjunct1] c(4,5) by simp
qed

section \<open>A fake clock nobody advances satisfies the interface\<close>

definition fake_readings :: "FakeClock \<Rightarrow> clock" where
  "fake_readings c = (\<lambda>_. fake_Now c)"

interpretation frozen: monotone_clock "fake_readings c" for c
  by unfold_locales (simp add: fake_readings_def)

end
