(* ===== verification/Selector.thy ===== *)
theory Selector
  imports ScenarioTypes Rng Clock
begin

text \<open>
  Choosing the next target: the interface \<open>behavior.TargetSelector\<close> with its round-robin
  default (\<open>internal/behavior/selector.go\<close>) and the engine's clock-driven rotation
  (\<open>internal/engine/selector.go\<close>).

  The contract of the interface is the locale \<open>target_selector\<close>: a selector only returns
  targets of the pool it was built from, and refuses exactly the protocols without targets.
  Both implementations are interpretations of it.
\<close>

section \<open>The interface\<close>

text \<open>\<open>next s p s' t\<close>: a call of \<open>Next\<close> in state \<open>s\<close> may end in \<open>s'\<close> with target \<open>t\<close> (None is
  \<open>ok = false\<close>). \<open>pool s p\<close> is the target list of a protocol.\<close>

locale target_selector =
  fixes pool :: "'s \<Rightarrow> ProtocolID \<Rightarrow> Target list"
    and step :: "'s \<Rightarrow> ProtocolID \<Rightarrow> 's \<Rightarrow> Target option \<Rightarrow> bool"
    and ok :: "'s \<Rightarrow> bool"
  assumes step_pool: "ok s \<Longrightarrow> step s p s' ot \<Longrightarrow> pool s' q = pool s q \<and> ok s'"
    and step_target: "ok s \<Longrightarrow> step s p s' (Some t) \<Longrightarrow> t \<in> set (pool s p)"
    and step_skip: "ok s \<Longrightarrow> step s p s' None \<Longrightarrow> pool s p = []"
begin

inductive walk :: "'s \<Rightarrow> (ProtocolID \<times> Target option) list \<Rightarrow> 's \<Rightarrow> bool" where
  walk_Nil: "walk s [] s"
| walk_Cons: "step s p s' t \<Longrightarrow> walk s' ys s'' \<Longrightarrow> walk s ((p, t) # ys) s''"

text \<open>Whatever the sequence of calls, every target handed out is one the selector was built from.\<close>

lemma walk_targets:
  "walk s ys s' \<Longrightarrow> ok s \<Longrightarrow>
     ok s' \<and> (\<forall>q. pool s' q = pool s q) \<and> (\<forall>(p, t) \<in> set ys. case t of None \<Rightarrow> pool s p = [] | Some x \<Rightarrow> x \<in> set (pool s p))"
proof (induction rule: walk.induct)
  case (walk_Nil s)
  then show ?case by simp
next
  case (walk_Cons s p s' t ys s'')
  have "pool s' q = pool s q" for q using step_pool walk_Cons by blast
  moreover have "ok s'" using step_pool walk_Cons by blast
  moreover have "case t of None \<Rightarrow> pool s p = [] | Some x \<Rightarrow> x \<in> set (pool s p)"
    using step_target step_skip walk_Cons.hyps(1) walk_Cons.prems by (cases t) auto
  ultimately show ?case using walk_Cons.IH by (auto split: prod.splits option.splits)
qed

lemma next_in_pool: "ok s \<Longrightarrow> step s p s' (Some t) \<Longrightarrow> pool s p \<noteq> [] \<and> t \<in> set (pool s p)"
  using step_target by fastforce

end

section \<open>RoundRobinSelector\<close>

record RoundRobinSelector =
  rrs_byProto :: "ProtocolID \<Rightarrow> Target list"
  rrs_idx :: "ProtocolID \<Rightarrow> int"

definition NewRoundRobinSelector :: "(ProtocolID \<Rightarrow> Target list) \<Rightarrow> RoundRobinSelector" where
  "NewRoundRobinSelector byProto = \<lparr>rrs_byProto = byProto, rrs_idx = \<lambda>_. 0\<rparr>"

text \<open>The outer None is the panic of an index out of range: Go's remainder of a counter that has
  wrapped below zero is negative.\<close>

definition rr_Next :: "RoundRobinSelector \<Rightarrow> ProtocolID \<Rightarrow> (Target option \<times> RoundRobinSelector) option" where
  "rr_Next s p =
     (let ts = rrs_byProto s p
      in if length ts = 0 then Some (None, s)
         else let n = rrs_idx s p;
                  i = go_rem n (int (length ts));
                  s' = s\<lparr>rrs_idx := (rrs_idx s)(p := i64 (n + 1))\<rparr>
              in if 0 \<le> i \<and> i < int (length ts) then Some (Some (ts ! nat i), s') else None)"

section \<open>The rotating selector\<close>

record protoState =
  ps_targets :: "Target list"
  ps_idx :: int
  ps_lastRotate :: instant

record rotatingSelector =
  rsel_strategy :: RotationStrategy
  rsel_interval :: duration
  rsel_byProto :: "ProtocolID \<rightharpoonup> protoState"

definition newRotatingSelector ::
  "clock \<Rightarrow> RotationStrategy \<Rightarrow> duration \<Rightarrow> (ProtocolID \<rightharpoonup> Target list) \<Rightarrow> rotatingSelector \<times> clock" where
  "newRotatingSelector clk strategy interval byProto =
     (case Now clk of (now, clk1) \<Rightarrow>
        (\<lparr>rsel_strategy = strategy, rsel_interval = interval,
          rsel_byProto = (\<lambda>p. map_option (\<lambda>ts. \<lparr>ps_targets = ts, ps_idx = 0, ps_lastRotate = now\<rparr>)
                            (byProto p))\<rparr>, clk1))"

text \<open>\<open>maybeRotate\<close>; None is a panic of the random source.\<close>

definition maybeRotate ::
  "'r Rand \<Rightarrow> clock \<Rightarrow> 'r \<Rightarrow> rotatingSelector \<Rightarrow> protoState \<Rightarrow> (protoState \<times> 'r \<times> clock) option" where
  "maybeRotate R clk r s st =
     (if rsel_interval s \<le> 0 then Some (st, r, clk)
      else case Since clk (ps_lastRotate st) of (since, clk1) \<Rightarrow>
        if since < rsel_interval s then Some (st, r, clk1)
        else let n = int (length (ps_targets st));
                 pick = (if rsel_strategy s = RotationRandom then rand_IntN R r n
                         else Some (go_rem (i64 (ps_idx st + 1)) n, r))
             in case pick of None \<Rightarrow> None
                | Some (i, r') \<Rightarrow>
                    (case Now clk1 of (now, clk2) \<Rightarrow>
                       Some (st\<lparr>ps_idx := i, ps_lastRotate := now\<rparr>, r', clk2)))"

definition sel_Next ::
  "'r Rand \<Rightarrow> clock \<Rightarrow> 'r \<Rightarrow> rotatingSelector \<Rightarrow> ProtocolID
     \<Rightarrow> (Target option \<times> rotatingSelector \<times> 'r \<times> clock) option" where
  "sel_Next R clk r s p =
     (case rsel_byProto s p of
        None \<Rightarrow> Some (None, s, r, clk)
      | Some st \<Rightarrow>
          if length (ps_targets st) = 0 then Some (None, s, r, clk)
          else case maybeRotate R clk r s st of
                 None \<Rightarrow> None
               | Some (st', r', clk') \<Rightarrow>
                   let s' = s\<lparr>rsel_byProto := (rsel_byProto s)(p \<mapsto> st')\<rparr>
                   in if 0 \<le> ps_idx st' \<and> ps_idx st' < int (length (ps_targets st'))
                      then Some (Some (ps_targets st' ! nat (ps_idx st')), s', r', clk') else None)"

definition currentInterval :: "rotatingSelector \<Rightarrow> duration" where
  "currentInterval s = rsel_interval s"

definition setInterval :: "rotatingSelector \<Rightarrow> duration \<Rightarrow> rotatingSelector" where
  "setInterval s d = s\<lparr>rsel_interval := d\<rparr>"

definition addTarget :: "clock \<Rightarrow> rotatingSelector \<Rightarrow> ProtocolID \<Rightarrow> Target \<Rightarrow> rotatingSelector \<times> clock" where
  "addTarget clk s p t =
     (case rsel_byProto s p of
        Some st \<Rightarrow>
          (s\<lparr>rsel_byProto := (rsel_byProto s)(p \<mapsto> st\<lparr>ps_targets := ps_targets st @ [t]\<rparr>)\<rparr>, clk)
      | None \<Rightarrow>
          (case Now clk of (now, clk1) \<Rightarrow>
             (s\<lparr>rsel_byProto := (rsel_byProto s)(p \<mapsto>
                  \<lparr>ps_targets = [t], ps_idx = 0, ps_lastRotate = now\<rparr>)\<rparr>, clk1)))"

section \<open>Both keep to their pool\<close>

interpretation round_robin: target_selector rrs_byProto
  "\<lambda>s p s' t. rr_Next s p = Some (t, s')" "\<lambda>_. True"
  by unfold_locales (auto simp: rr_Next_def Let_def split: if_splits)

definition sel_pool :: "rotatingSelector \<Rightarrow> ProtocolID \<Rightarrow> Target list" where
  "sel_pool s p = (case rsel_byProto s p of None \<Rightarrow> [] | Some st \<Rightarrow> ps_targets st)"

text \<open>A cursor points into its list; \<open>b\<close> bounds the lists from below where a random source is
  only trusted above it.\<close>

definition cursor_ok :: "int \<Rightarrow> protoState \<Rightarrow> bool" where
  "cursor_ok b st \<longleftrightarrow> ps_targets st = [] \<or>
     (b \<le> int (length (ps_targets st)) \<and> int (length (ps_targets st)) \<le> int64_max
      \<and> 0 \<le> ps_idx st \<and> ps_idx st < int (length (ps_targets st)))"

definition sel_ok :: "int \<Rightarrow> rotatingSelector \<Rightarrow> bool" where
  "sel_ok b s \<longleftrightarrow> (\<forall>p st. rsel_byProto s p = Some st \<longrightarrow> cursor_ok b st)"

lemma sequential_index:
  "0 \<le> i \<Longrightarrow> i < n \<Longrightarrow> n \<le> int64_max \<Longrightarrow> go_rem (i64 (i + 1)) n = (i + 1) mod n"
  by (simp add: i64_id in_i64_def int64_min_def go_rem_pos)

lemma maybeRotate_cases:
  assumes "maybeRotate R clk r s st = Some (st', r', clk')"
  obtains (stay) "st' = st" "r' = r"
    | (random) i now where "rand_IntN R r (int (length (ps_targets st))) = Some (i, r')"
        "st' = st\<lparr>ps_idx := i, ps_lastRotate := now\<rparr>"
    | (next_one) now where "r' = r"
        "st' = st\<lparr>ps_idx := go_rem (i64 (ps_idx st + 1)) (int (length (ps_targets st))), ps_lastRotate := now\<rparr>"
proof (cases "rsel_interval s \<le> 0 \<or> fst (Since clk (ps_lastRotate st)) < rsel_interval s")
  case True
  then show ?thesis using assms stay
    by (auto simp: maybeRotate_def split: prod.splits if_splits)
next
  case False
  then obtain d clk1 where d: "Since clk (ps_lastRotate st) = (d, clk1)" "\<not> d < rsel_interval s"
    by (cases "Since clk (ps_lastRotate st)") simp
  obtain now clk2 where n: "Now clk1 = (now, clk2)" by (cases "Now clk1")
  show ?thesis
  proof (cases "rsel_strategy s = RotationRandom")
    case True
    with assms False d n obtain i where "rand_IntN R r (int (length (ps_targets st))) = Some (i, r')"
      "st' = st\<lparr>ps_idx := i, ps_lastRotate := now\<rparr>"
      by (auto simp: maybeRotate_def Let_def split: option.splits)
    then show ?thesis by (rule random)
  next
    case False
    with assms d n \<open>\<not> (_ \<or> _)\<close> show ?thesis
      by (intro next_one [of now]) (auto simp: maybeRotate_def Let_def)
  qed
qed

lemma cursor_ok_iff:
  "ps_targets st \<noteq> [] \<Longrightarrow> cursor_ok b st \<longleftrightarrow>
     b \<le> int (length (ps_targets st)) \<and> int (length (ps_targets st)) \<le> int64_max
      \<and> 0 \<le> ps_idx st \<and> ps_idx st < int (length (ps_targets st))"
  by (simp add: cursor_ok_def)

lemma maybeRotate_cursor:
  assumes "cursor_ok b st" "ps_targets st \<noteq> []" "I r"
    "maybeRotate R clk r s st = Some (st', r', clk')"
    and IntN: "\<And>r n i r'. I r \<Longrightarrow> b \<le> n \<Longrightarrow> rand_IntN R r n = Some (i, r') \<Longrightarrow> 0 \<le> i \<and> i < n \<and> I r'"
  shows "ps_targets st' = ps_targets st \<and> cursor_ok b st' \<and> I r'"
  using assms(4)
proof (cases rule: maybeRotate_cases)
  case stay
  then show ?thesis using assms by simp
next
  case (random i now)
  then show ?thesis using assms(1,2) IntN [OF assms(3) _ random(1)] by (simp add: cursor_ok_iff)
next
  case (next_one now)
  let ?n = "int (length (ps_targets st))"
  have "0 \<le> (ps_idx st + 1) mod ?n" "(ps_idx st + 1) mod ?n < ?n" using assms(2) by simp_all
  then show ?thesis using next_one assms(1-3) by (simp add: cursor_ok_iff sequential_index)
qed

lemma sel_Next_cases:
  assumes "sel_Next R clk r s p = Some (t, s', r', clk')"
  obtains (skip) "sel_pool s p = []" "t = None" "s' = s" "r' = r" "clk' = clk"
    | (go) st st' where "rsel_byProto s p = Some st" "ps_targets st \<noteq> []"
        "maybeRotate R clk r s st = Some (st', r', clk')"
        "s' = s\<lparr>rsel_byProto := (rsel_byProto s)(p \<mapsto> st')\<rparr>"
        "0 \<le> ps_idx st'" "ps_idx st' < int (length (ps_targets st'))"
        "t = Some (ps_targets st' ! nat (ps_idx st'))"
proof (cases "sel_pool s p = []")
  case True
  then show ?thesis using assms skip
    by (auto simp: sel_Next_def sel_pool_def split: option.splits)
next
  case False
  then obtain st where st: "rsel_byProto s p = Some st" "ps_targets st \<noteq> []"
    by (auto simp: sel_pool_def split: option.splits)
  then obtain st' r1 clk1 where m: "maybeRotate R clk r s st = Some (st', r1, clk1)"
    using assms by (auto simp: sel_Next_def split: option.splits)
  then show ?thesis using assms st
    by (intro go [OF st, of st']) (simp_all add: sel_Next_def Let_def split: if_splits)
qed

lemma sel_Next_keeps:
  assumes "sel_ok b s" "I r" "sel_Next R clk r s p = Some (t, s', r', clk')"
    and IntN: "\<And>r n i r'. I r \<Longrightarrow> b \<le> n \<Longrightarrow> rand_IntN R r n = Some (i, r') \<Longrightarrow> 0 \<le> i \<and> i < n \<and> I r'"
  shows "sel_ok b s' \<and> I r' \<and> sel_pool s' q = sel_pool s q
    \<and> (case t of None \<Rightarrow> sel_pool s p = [] | Some x \<Rightarrow> x \<in> set (sel_pool s p))"
  using assms(3)
proof (cases rule: sel_Next_cases)
  case skip
  then show ?thesis using assms(1,2) by simp
next
  case (go st st')
  have "cursor_ok b st" using assms(1) go(1) by (simp add: sel_ok_def)
  then have m: "ps_targets st' = ps_targets st" "cursor_ok b st'" "I r'"
    using maybeRotate_cursor [of b st I r R clk s st' r' clk'] go(2,3) assms(2) IntN by simp_all
  have "ps_targets st' ! nat (ps_idx st') \<in> set (ps_targets st)"
    using go(5,6) nth_mem [of "nat (ps_idx st')" "ps_targets st'"] by (simp add: m(1))
  then show ?thesis using go m assms(1) by (auto simp: sel_ok_def sel_pool_def)
qed

definition sel_step ::
  "'r Rand \<Rightarrow> rotatingSelector \<times> 'r \<Rightarrow> ProtocolID \<Rightarrow> rotatingSelector \<times> 'r \<Rightarrow> Target option \<Rightarrow> bool" where
  "sel_step R x p y t \<longleftrightarrow>
     (\<exists>clk clk'. sel_Next R clk (snd x) (fst x) p = Some (t, fst y, snd y, clk'))"

sublocale int_source \<subseteq> rotating: target_selector
  "\<lambda>x. sel_pool (fst x)"
  "sel_step R" "\<lambda>x. sel_ok bound (fst x) \<and> inv (snd x)"
proof -
  have k: "sel_ok bound s \<Longrightarrow> inv r \<Longrightarrow> sel_Next R clk r s p = Some (t, s', r', clk') \<Longrightarrow>
      sel_ok bound s' \<and> inv r' \<and> sel_pool s' q = sel_pool s q
      \<and> (case t of None \<Rightarrow> sel_pool s p = [] | Some x \<Rightarrow> x \<in> set (sel_pool s p))"
    for clk r s p t s' r' clk' q
    by (rule sel_Next_keeps [where I = inv]) (assumption+, rule IntN_range)
  show "target_selector (\<lambda>x. sel_pool (fst x)) (sel_step R)
    (\<lambda>x. sel_ok bound (fst x) \<and> inv (snd x))"
  proof
    fix x p y ot q
    assume "sel_ok bound (fst x) \<and> inv (snd x)" "sel_step R x p y ot"
    then show "sel_pool (fst y) q = sel_pool (fst x) q \<and> sel_ok bound (fst y) \<and> inv (snd y)"
      unfolding sel_step_def by (elim exE conjE) (drule (2) k [of _ _ _ _ _ _ _ _ q], simp)
  next
    fix x p y t
    assume "sel_ok bound (fst x) \<and> inv (snd x)" "sel_step R x p y (Some t)"
    then show "t \<in> set (sel_pool (fst x) p)"
      unfolding sel_step_def by (elim exE conjE) (drule (2) k [of _ _ _ _ _ _ _ _ p], simp)
  next
    fix x p y
    assume "sel_ok bound (fst x) \<and> inv (snd x)" "sel_step R x p y None"
    then show "sel_pool (fst x) p = []"
      unfolding sel_step_def by (elim exE conjE) (drule (2) k [of _ _ _ _ _ _ _ _ p], simp)
  qed
qed

context int_source
begin

lemma walk_in_pool:
  "rotating.walk x calls y \<Longrightarrow> sel_ok bound (fst x) \<Longrightarrow> inv (snd x) \<Longrightarrow>
     sel_pool (fst y) q = sel_pool (fst x) q
     \<and> list_all (\<lambda>(p, t). case t of None \<Rightarrow> sel_pool (fst x) p = []
                  | Some tg \<Rightarrow> tg \<in> set (sel_pool (fst x) p)) calls"
  using rotating.walk_targets [of x calls y] by (simp add: list_all_iff)

end

section \<open>Rotation\<close>

text \<open>Calls of \<open>Next\<close> for one protocol at the given instants.\<close>

fun sel_calls ::
  "'r Rand \<Rightarrow> 'r \<Rightarrow> rotatingSelector \<Rightarrow> ProtocolID \<Rightarrow> instant list \<Rightarrow> Target option list option" where
  "sel_calls R r s p [] = Some []"
| "sel_calls R r s p (t # ts) =
     (case sel_Next R (\<lambda>_. t) r s p of
        None \<Rightarrow> None
      | Some (x, s', r', _) \<Rightarrow> map_option (Cons x) (sel_calls R r' s' p ts))"

text \<open>The reference: the cursor and the instant of the last rotation after a call at \<open>t\<close>.\<close>

definition rotation_step :: "duration \<Rightarrow> nat \<Rightarrow> nat \<times> instant \<Rightarrow> instant \<Rightarrow> nat \<times> instant" where
  "rotation_step d n c t =
     (if 0 < d \<and> snd c + d \<le> t then ((fst c + 1) mod n, t) else c)"

fun rotation_trace :: "duration \<Rightarrow> nat \<Rightarrow> nat \<times> instant \<Rightarrow> instant list \<Rightarrow> nat list" where
  "rotation_trace d n c [] = []"
| "rotation_trace d n c (t # ts) =
     (let c' = rotation_step d n c t in fst c' # rotation_trace d n c' ts)"

definition sel_at :: "rotatingSelector \<Rightarrow> ProtocolID \<Rightarrow> Target list \<Rightarrow> nat \<times> instant \<Rightarrow> bool" where
  "sel_at s p ts c \<longleftrightarrow>
     rsel_byProto s p = Some \<lparr>ps_targets = ts, ps_idx = int (fst c), ps_lastRotate = snd c\<rparr>"

lemma sel_Next_at:
  assumes "sel_at s p ts c" "fst c < length ts" "int (length ts) \<le> int64_max"
    and "rsel_strategy s \<noteq> RotationRandom" "in_i64 (rsel_interval s)"
  shows "\<exists>s'. sel_Next R (\<lambda>_. t) r s p
      = Some (Some (ts ! fst (rotation_step (rsel_interval s) (length ts) c t)), s', r, \<lambda>_. t)
    \<and> sel_at s' p ts (rotation_step (rsel_interval s) (length ts) c t)
    \<and> rsel_strategy s' = rsel_strategy s \<and> rsel_interval s' = rsel_interval s"
proof -
  have g: "go_rem (i64 (int (fst c) + 1)) (int (length ts)) = int ((fst c + 1) mod length ts)"
    using sequential_index [of "int (fst c)" "int (length ts)"] assms(2,3)
    by (simp add: zmod_int add.commute)
  have d: "time_sub t (snd c) < rsel_interval s \<longleftrightarrow> t < snd c + rsel_interval s" if "0 < rsel_interval s"
    using time_sub_ge_iff [OF assms(5) that, of t "snd c"] by auto
  have "(fst c + 1) mod length ts < length ts" using assms(2) by (intro mod_less_divisor) (cases ts, simp_all)
  then show ?thesis using assms g d
    by (auto simp: sel_Next_def maybeRotate_def Since_def Now_def sel_at_def rotation_step_def Let_def)
qed

lemma rotation_step_lt: "fst c < n \<Longrightarrow> fst (rotation_step d n c t) < n"
  by (simp add: rotation_step_def)

lemma sel_calls_trace:
  assumes "sel_at s p ts c" "fst c < length ts" "int (length ts) \<le> int64_max"
    and "rsel_strategy s \<noteq> RotationRandom" "in_i64 (rsel_interval s)"
  shows "sel_calls R r s p ats
    = Some (map (\<lambda>i. Some (ts ! i)) (rotation_trace (rsel_interval s) (length ts) c ats))"
  using assms
proof (induction ats arbitrary: s c)
  case Nil
  then show ?case by simp
next
  case (Cons t ats)
  obtain s' where s': "sel_Next R (\<lambda>_. t) r s p
      = Some (Some (ts ! fst (rotation_step (rsel_interval s) (length ts) c t)), s', r, \<lambda>_. t)"
    "sel_at s' p ts (rotation_step (rsel_interval s) (length ts) c t)"
    "rsel_strategy s' = rsel_strategy s" "rsel_interval s' = rsel_interval s"
    using sel_Next_at [OF Cons.prems] by metis
  then show ?case
    using Cons.IH [OF s'(2)] Cons.prems rotation_step_lt [OF Cons.prems(2)]
    by (simp add: Let_def)
qed

lemma newRotatingSelector_at:
  "byProto p = Some ts \<Longrightarrow> sel_at (fst (newRotatingSelector (\<lambda>_. t0) strat d byProto)) p ts (0, t0)"
  by (simp add: newRotatingSelector_def Now_def sel_at_def)

text \<open>C36. A new sequential selector with positive interval \<open>d\<close>: calls at any instants hand out the
  target the reference rotation points at; calls within one interval of the last rotation all get
  the same target, and calls at least an interval apart each go one target further, wrapping
  around, whatever the number of users that share the selector.\<close>

theorem sequential_rotation_is_the_reference:
  assumes "byProto p = Some ts" "ts \<noteq> []" "int (length ts) \<le> int64_max" "in_i64 d"
    and "s = fst (newRotatingSelector (\<lambda>_. t0) RotationSequential d byProto)"
  shows "sel_calls R r s p ats
      = Some (map (\<lambda>i. Some (ts ! i)) (rotation_trace d (length ts) (0, t0) ats))
    \<and> (list_all (\<lambda>t. t < t0 + d) ats \<longrightarrow> rotation_trace d (length ts) (0, t0) ats = replicate (length ats) 0)
    \<and> (0 < d \<and> sorted_wrt (\<lambda>a b. a + d \<le> b) (t0 # ats) \<longrightarrow>
        rotation_trace d (length ts) (0, t0) ats = map (\<lambda>k. Suc k mod length ts) [0 ..< length ats])"
proof (intro conjI impI)
  have "rsel_interval s = d" "rsel_strategy s = RotationSequential"
    unfolding assms(5) by (simp_all add: newRotatingSelector_def Now_def)
  then show "sel_calls R r s p ats
      = Some (map (\<lambda>i. Some (ts ! i)) (rotation_trace d (length ts) (0, t0) ats))"
    using sel_calls_trace [of s p ts "(0, t0)"] newRotatingSelector_at [of byProto p ts t0] assms by simp
next
  assume "list_all (\<lambda>t. t < t0 + d) ats"
  then show "rotation_trace d (length ts) (0, t0) ats = replicate (length ats) 0"
    by (induction ats) (simp_all add: rotation_step_def)
next
  assume "0 < d \<and> sorted_wrt (\<lambda>a b. a + d \<le> b) (t0 # ats)"
  then have "rotation_trace d (length ts) (k mod length ts, t0) ats
      = map (\<lambda>j. (k + Suc j) mod length ts) [0 ..< length ats]" for k
  proof (induction ats arbitrary: k t0)
    case Nil
    then show ?case by simp
  next
    case (Cons t ats)
    then have "rotation_trace d (length ts) (Suc k mod length ts, t) ats
        = map (\<lambda>j. (Suc k + Suc j) mod length ts) [0 ..< length ats]" by auto
    then show ?case using Cons.prems
      by (simp add: rotation_step_def mod_Suc_eq map_upt_Suc del: upt_Suc)
  qed
  from this [of 0] show "rotation_trace d (length ts) (0, t0) ats
      = map (\<lambda>k. Suc k mod length ts) [0 ..< length ats]" by simp
qed

definition demo_target :: "string \<Rightarrow> Target" where
  "demo_target h = \<lparr>t_ID = h, t_Proto = ProtoHTTP, t_Addr = h, t_Cred = zero_CredentialRef, t_Proxy = []\<rparr>"

theorem sequential_rotation_is_the_reference_witness:
  "sel_calls fakeRand_ops (fake_New \<lparr>fs_Floats = [], fs_Norms = [], fs_Exps = [], fs_Ints = [],
       fs_Int63s = [], fs_Perms = []\<rparr>)
     (fst (newRotatingSelector (\<lambda>_. 0) RotationSequential 10
       [ProtoHTTP \<mapsto> [demo_target ''a'', demo_target ''b'']])) ProtoHTTP [3, 10, 19, 20]
   = Some [Some (demo_target ''a''), Some (demo_target ''b''), Some (demo_target ''b''), Some (demo_target ''a'')]"
proof -
  have tr: "rotation_trace 10 (Suc (Suc 0)) (0, 0) [3, 10, 19, 20] = [0, 1, 1, 0]"
    by (simp add: rotation_step_def Let_def)
  show ?thesis
    by (subst conjunct1 [OF sequential_rotation_is_the_reference
          [of _ ProtoHTTP "[demo_target ''a'', demo_target ''b'']", OF _ _ _ _ refl]])
       (simp_all add: in_i64_numeral int64_max_def tr del: rotation_trace.simps)
qed

text \<open>Whatever the strategy, the interval, the clock and the users that share it, a selector
  over a random source that respects its bounds hands out only targets of the pool of the
  protocol asked for, skips only a protocol with no target, and never changes a pool.\<close>

theorem rotation_stays_in_pool:
  assumes "int_source R rok b" "target_selector.walk (sel_step R) x calls y"
    and "sel_ok b (fst x)" "rok (snd x)"
  shows "sel_pool (fst y) q = sel_pool (fst x) q
    \<and> list_all (\<lambda>(p, t). case t of None \<Rightarrow> sel_pool (fst x) p = []
                 | Some tg \<Rightarrow> tg \<in> set (sel_pool (fst x) p)) calls"
  using assms by (rule int_source.walk_in_pool)

definition demo_selector :: "instant \<Rightarrow> int \<Rightarrow> rotatingSelector" where
  "demo_selector t i = \<lparr>rsel_strategy = RotationRandom, rsel_interval = 5,
     rsel_byProto = [ProtoHTTP \<mapsto> \<lparr>ps_targets = [demo_target ''a'', demo_target ''b''],
       ps_idx = i, ps_lastRotate = t\<rparr>]\<rparr>"

definition demo_rand :: "nat \<Rightarrow> fakeRand" where
  "demo_rand k = (fake_New \<lparr>fs_Floats = [], fs_Norms = [], fs_Exps = [], fs_Ints = [1, 0],
     fs_Int63s = [], fs_Perms = []\<rparr>)\<lparr>fr_ii := k\<rparr>"

lemma demo_walk:
  "target_selector.walk (sel_step fakeRand_ops) (demo_selector 0 0, demo_rand 0)
     [(ProtoHTTP, Some (demo_target ''b'')), (ProtoDNS, None)] (demo_selector 7 1, demo_rand 1)"
proof (rule scripted.rotating.walk_Cons, rule_tac [2] scripted.rotating.walk_Cons,
       rule_tac [3] scripted.rotating.walk_Nil)
  have "sel_Next fakeRand_ops (\<lambda>_. 7) (demo_rand 0) (demo_selector 0 0) ProtoHTTP
      = Some (Some (demo_target ''b''), demo_selector 7 1, demo_rand 1, \<lambda>_. 7)"
    by (simp add: sel_Next_def maybeRotate_def demo_selector_def demo_rand_def Since_def Now_def
        time_sub_def sat64_def int64_min_def int64_max_def fakeRand_ops_def fake_IntN_def tape_def
        fake_New_def copyScript_def Let_def)
  then show "sel_step fakeRand_ops (demo_selector 0 0, demo_rand 0) ProtoHTTP
      (demo_selector 7 1, demo_rand 1) (Some (demo_target ''b''))"
    by (auto simp: sel_step_def)
  show "sel_step fakeRand_ops (demo_selector 7 1, demo_rand 1) ProtoDNS
      (demo_selector 7 1, demo_rand 1) None"
    by (simp add: sel_step_def sel_Next_def demo_selector_def proto_defs)
qed

theorem rotation_stays_in_pool_witness:
  "sel_pool (demo_selector 7 1) ProtoHTTP = sel_pool (demo_selector 0 0) ProtoHTTP
   \<and> demo_target ''b'' \<in> set (sel_pool (demo_selector 0 0) ProtoHTTP)"
  using rotation_stays_in_pool [OF scripted.int_source_axioms demo_walk, of 2 ProtoHTTP]
  by (simp add: sel_ok_def cursor_ok_def demo_selector_def demo_rand_def fake_ok_def script_ok_def
      fake_New_def copyScript_def int64_max_def)

end
