(* ===== verification/Fingerprint.thy ===== *)
theory Fingerprint
  imports GoStrings Rng "HOL-Library.Monad_Syntax"
begin

text \<open>
  HTTP identities (\<open>internal/behavior/fingerprint.go\<close>): the validation of a fingerprint, the
  pool, and the draw of one identity per session.

  \<open>strings.IndexFunc\<close> walks the runes of a value; the unsafe ones (controls and DEL) are
  single bytes in UTF-8 and no byte of a longer rune is one, so the walk is over bytes here.
  The embedded table is a parameter (the JSON decoder is library code).
\<close>

section \<open>The code\<close>

record Fingerprint =
  fp_UserAgent :: string
  fp_SecCHUA :: string
  fp_SecCHUAPlatform :: string
  fp_AcceptLanguage :: string

definition zero_Fingerprint :: Fingerprint where
  "zero_Fingerprint = \<lparr>fp_UserAgent = '''', fp_SecCHUA = '''', fp_SecCHUAPlatform = '''', fp_AcceptLanguage = ''''\<rparr>"

datatype fp_error = MustBeNonEmpty string | TooLong string nat | UnsafeByte string nat
  | PlatformMissing | NoChromeToken | MajorMismatch int string | AtIndex nat fp_error | EmptyPool
  | DecodeError

definition fingerprintFieldMaxLen :: nat where "fingerprintFieldMaxLen = 512"

definition isUnsafeHeaderByte :: "char \<Rightarrow> bool" where
  "isUnsafeHeaderByte c \<longleftrightarrow>
     (let r = of_char c :: nat in r = 13 \<or> r = 10 \<or> r < 32 \<or> r = 127)"

fun index_func :: "(char \<Rightarrow> bool) \<Rightarrow> string \<Rightarrow> nat option" where
  "index_func p [] = None"
| "index_func p (c # s) = (if p c then Some 0 else map_option Suc (index_func p s))"

definition checkHeaderValue :: "string \<Rightarrow> string \<Rightarrow> bool \<Rightarrow> fp_error option" where
  "checkHeaderValue name val required =
     (if val = '''' then (if required then Some (MustBeNonEmpty name) else None)
      else if length val > fingerprintFieldMaxLen then Some (TooLong name fingerprintFieldMaxLen)
      else case index_func isUnsafeHeaderByte val of
             Some i \<Rightarrow> Some (UnsafeByte name i)
           | None \<Rightarrow> None)"

definition chromeMajorFromUA :: "string \<Rightarrow> int option" where
  "chromeMajorFromUA ua =
     (case Index ua ''Chrome/'' of
        None \<Rightarrow> None
      | Some i \<Rightarrow>
          let rest = drop (i + length ''Chrome/'') ua;
              ds = takeWhile is_digit rest
          in if ds = '''' then None else Atoi ds)"

definition secCHUAHasVersion :: "string \<Rightarrow> int \<Rightarrow> bool" where
  "secCHUAHasVersion s major = Contains s (''v='' @ [CHR 0x22] @ Itoa major @ [CHR 0x22])"

definition validateFingerprint :: "Fingerprint \<Rightarrow> fp_error option" where
  "validateFingerprint f =
     (case checkHeaderValue ''user_agent'' (fp_UserAgent f) True of Some e \<Rightarrow> Some e
      | None \<Rightarrow>
      case checkHeaderValue ''accept_language'' (fp_AcceptLanguage f) True of Some e \<Rightarrow> Some e
      | None \<Rightarrow>
      case checkHeaderValue ''sec_ch_ua'' (fp_SecCHUA f) False of Some e \<Rightarrow> Some e
      | None \<Rightarrow>
      case checkHeaderValue ''sec_ch_ua_platform'' (fp_SecCHUAPlatform f) False of Some e \<Rightarrow> Some e
      | None \<Rightarrow>
        if fp_SecCHUA f = '''' then None
        else if fp_SecCHUAPlatform f = '''' then Some PlatformMissing
        else case chromeMajorFromUA (fp_UserAgent f) of
               None \<Rightarrow> Some NoChromeToken
             | Some major \<Rightarrow>
                 if \<not> secCHUAHasVersion (fp_SecCHUA f) major
                 then Some (MajorMismatch major (fp_SecCHUA f)) else None)"

record staticPool = sp_prints :: "Fingerprint list"

fun first_invalid :: "nat \<Rightarrow> Fingerprint list \<Rightarrow> fp_error option" where
  "first_invalid i [] = None"
| "first_invalid i (f # fs) =
     (case validateFingerprint f of Some e \<Rightarrow> Some (AtIndex i e) | None \<Rightarrow> first_invalid (Suc i) fs)"

definition NewFingerprintPool :: "Fingerprint list \<Rightarrow> fp_error + staticPool" where
  "NewFingerprintPool prints =
     (if length prints = 0 then Inl EmptyPool
      else case first_invalid 0 prints of
             Some e \<Rightarrow> Inl e
           | None \<Rightarrow> Inr \<lparr>sp_prints = prints\<rparr>)"

definition pool_Len :: "staticPool \<Rightarrow> nat" where
  "pool_Len p = length (sp_prints p)"

text \<open>\<open>Pick\<close>; None is a panic of the source or of the index.\<close>

definition pool_Pick :: "'r Rand \<Rightarrow> staticPool \<Rightarrow> 'r \<Rightarrow> (Fingerprint \<times> 'r) option" where
  "pool_Pick R p r =
     do { (i, r') \<leftarrow> rand_IntN R r (int (length (sp_prints p)));
          if 0 \<le> i \<and> i < int (length (sp_prints p)) then Some (sp_prints p ! nat i, r') else None }"

text \<open>\<open>defaultPool\<close>: the decoded embedded table, validated once.\<close>

definition DefaultFingerprintPool :: "Fingerprint list option \<Rightarrow> fp_error + staticPool" where
  "DefaultFingerprintPool decoded =
     (case decoded of None \<Rightarrow> Inl DecodeError | Some prints \<Rightarrow> NewFingerprintPool prints)"

section \<open>What a pool hands out\<close>

definition header_safe :: "string \<Rightarrow> bool" where
  "header_safe v \<longleftrightarrow> length v \<le> 512 \<and> list_all (\<lambda>c. \<not> isUnsafeHeaderByte c) v"

definition consistent :: "Fingerprint \<Rightarrow> bool" where
  "consistent f \<longleftrightarrow> fp_SecCHUA f = '''' \<or>
     (fp_SecCHUAPlatform f \<noteq> '''' \<and>
      (case chromeMajorFromUA (fp_UserAgent f) of None \<Rightarrow> False
       | Some major \<Rightarrow> secCHUAHasVersion (fp_SecCHUA f) major))"

definition acceptable :: "Fingerprint \<Rightarrow> bool" where
  "acceptable f \<longleftrightarrow> fp_UserAgent f \<noteq> '''' \<and> fp_AcceptLanguage f \<noteq> ''''
     \<and> header_safe (fp_UserAgent f) \<and> header_safe (fp_AcceptLanguage f)
     \<and> header_safe (fp_SecCHUA f) \<and> header_safe (fp_SecCHUAPlatform f) \<and> consistent f"

lemma index_func_None: "index_func p s = None \<longleftrightarrow> list_all (\<lambda>c. \<not> p c) s"
  by (induction s) auto

lemma checkHeaderValue_None:
  "checkHeaderValue name v req = None \<longleftrightarrow> (v = '''' \<longrightarrow> \<not> req) \<and> header_safe v"
  using index_func_None [of isUnsafeHeaderByte v]
  by (auto simp: checkHeaderValue_def header_safe_def fingerprintFieldMaxLen_def split: option.splits)

lemma validateFingerprint_None: "validateFingerprint f = None \<longleftrightarrow> acceptable f"
proof (cases "checkHeaderValue ''user_agent'' (fp_UserAgent f) True = None
    \<and> checkHeaderValue ''accept_language'' (fp_AcceptLanguage f) True = None
    \<and> checkHeaderValue ''sec_ch_ua'' (fp_SecCHUA f) False = None
    \<and> checkHeaderValue ''sec_ch_ua_platform'' (fp_SecCHUAPlatform f) False = None")
  case True
  then have "validateFingerprint f = None \<longleftrightarrow> consistent f"
    by (auto simp: validateFingerprint_def consistent_def split: option.splits)
  then show ?thesis using True by (simp add: acceptable_def checkHeaderValue_None)
next
  case False
  then have "validateFingerprint f \<noteq> None"
    by (auto simp: validateFingerprint_def split: option.splits)
  moreover have "\<not> acceptable f"
    using False by (auto simp: acceptable_def checkHeaderValue_None)
  ultimately show ?thesis by simp
qed

lemma first_invalid_None: "first_invalid i fs = None \<longleftrightarrow> list_all acceptable fs"
  by (induction fs arbitrary: i) (auto simp: validateFingerprint_None [symmetric] split: option.splits)

text \<open>A pool is built exactly from a non-empty list whose every fingerprint is acceptable, and
  an identity drawn from it has no CR, LF or other control byte in any of its header values, at
  most 512 bytes in each, and client hints that agree with the browser version of its user agent.\<close>

theorem picked_fingerprint_is_safe:
  "(isl (NewFingerprintPool prints) = (\<not> (prints \<noteq> [] \<and> list_all acceptable prints)))
   \<and> (case NewFingerprintPool prints of Inl e \<Rightarrow> True
      | Inr p \<Rightarrow> (case pool_Pick R p r of None \<Rightarrow> True
                  | Some (f, r') \<Rightarrow> f \<in> set prints \<and> acceptable f))"
proof (cases "prints = [] \<or> \<not> list_all acceptable prints")
  case True
  then have "prints = [] \<or> (\<exists>x. first_invalid 0 prints = Some x)"
    using first_invalid_None [of 0 prints] by (cases "first_invalid 0 prints") auto
  then have "\<exists>e. NewFingerprintPool prints = Inl e"
    by (cases "prints = []") (auto simp: NewFingerprintPool_def)
  then show ?thesis using True by auto
next
  case False
  then have "first_invalid 0 prints = None" using first_invalid_None [of 0 prints] by simp
  then have p: "NewFingerprintPool prints = Inr \<lparr>sp_prints = prints\<rparr>"
    using False by (simp add: NewFingerprintPool_def)
  show ?thesis
  proof (cases "pool_Pick R \<lparr>sp_prints = prints\<rparr> r")
    case None
    then show ?thesis using False p by simp
  next
    case (Some x)
    then obtain i where "0 \<le> i" "i < int (length prints)" "fst x = prints ! nat i"
      by (auto simp: pool_Pick_def bind_eq_Some_conv split: if_splits)
    then have "fst x \<in> set prints" by simp
    then show ?thesis using False p Some by (auto simp: list_all_iff split: prod.splits)
  qed
qed

text \<open>The pool is a contract for the session: over a source whose draws are in range, \<open>Pick\<close> does
  not panic and keeps to the pool.\<close>

context int_source
begin

lemma Pick_in_pool:
  assumes "inv r" "bound \<le> int (length (sp_prints p))" "pool_Pick R p r = Some (f, r')"
  shows "f \<in> set (sp_prints p) \<and> inv r'"
proof -
  obtain i where i: "rand_IntN R r (int (length (sp_prints p))) = Some (i, r')"
    "0 \<le> i" "i < int (length (sp_prints p))" "f = sp_prints p ! nat i"
    using assms(3) by (auto simp: pool_Pick_def bind_eq_Some_conv split: if_splits)
  then have "nat i < length (sp_prints p)" by simp
  then show ?thesis using IntN_range [OF assms(1,2) i(1)] i(4) by simp
qed

lemma Pick_total:
  assumes "inv r" "bound \<le> int (length (sp_prints p))" "rand_IntN R r (int (length (sp_prints p))) \<noteq> None"
  shows "pool_Pick R p r \<noteq> None"
proof -
  obtain i r' where i: "rand_IntN R r (int (length (sp_prints p))) = Some (i, r')" using assms(3) by auto
  then show ?thesis using IntN_range [OF assms(1,2) i] by (simp add: pool_Pick_def)
qed

end

end
