(* ===== verification/Session.thy ===== *)
theory Session
  imports Shaping Selector Fingerprint
begin

text \<open>
  The virtual user of \<open>internal/behavior\<close>: the weighted template mix (\<open>plan.go\<close>), the branching
  bounds (\<open>bounds.go\<close>) and the session state machine (\<open>session.go\<close>) that composes the mix, the
  target selector and the shaper into one decision per call.

  A session keeps the state of its own random source. The selector is shared by the sessions of
  a block, so its state is passed beside the session's and \<open>nxt\<close> is its \<open>Next\<close>. The clock is the
  stream of readings the session itself takes. None is a panic of a source or of the selector.
\<close>

section \<open>Template mixes\<close>

record Template =
  tm_Protocol :: ProtocolID
  tm_Verb :: ActionKind
  tm_Cause :: Cause
  tm_Pacing :: PacingMode
  tm_Weight :: f64

definition Template_Ref :: "Template \<Rightarrow> Ref" where
  "Template_Ref t = \<lparr>ref_Protocol = tm_Protocol t, ref_Verb = tm_Verb t\<rparr>"

record TemplateMix =
  mx_templates :: "Template list"
  mx_cumWeights :: "f64 list"
  mx_total :: f64

definition zero_TemplateMix :: TemplateMix where
  "zero_TemplateMix = \<lparr>mx_templates = [], mx_cumWeights = [], mx_total = Fin 0\<rparr>"

datatype mix_error = EmptyMix | BadWeight nat string

definition bad_weight :: "f64 \<Rightarrow> bool" where
  "bad_weight w \<longleftrightarrow> w = NaN \<or> w = PInf \<or> w = NInf \<or> f_le w (Fin 0)"

text \<open>The loop of \<open>NewTemplateMix\<close> from index \<open>i\<close>, with the running total.\<close>

fun cum_weights :: "nat \<Rightarrow> f64 \<Rightarrow> Template list \<Rightarrow> mix_error + f64 list \<times> f64" where
  "cum_weights i acc [] = Inr ([], acc)"
| "cum_weights i acc (t # ts) =
     (if bad_weight (tm_Weight t) then Inl (BadWeight i (Ref_String (Template_Ref t)))
      else let acc' = f_add acc (tm_Weight t)
           in case cum_weights (Suc i) acc' ts of
                Inl e \<Rightarrow> Inl e
              | Inr (cs, tot) \<Rightarrow> Inr (acc' # cs, tot))"

definition NewTemplateMix :: "Template list \<Rightarrow> mix_error + TemplateMix" where
  "NewTemplateMix templates =
     (if length templates = 0 then Inl EmptyMix
      else case cum_weights 0 (Fin 0) templates of
             Inl e \<Rightarrow> Inl e
           | Inr (cum, tot) \<Rightarrow> Inr \<lparr>mx_templates = templates, mx_cumWeights = cum, mx_total = tot\<rparr>)"

text \<open>The first cumulative weight above \<open>x\<close>.\<close>

fun first_cum :: "f64 \<Rightarrow> f64 list \<Rightarrow> nat option" where
  "first_cum x [] = None"
| "first_cum x (c # cs) = (if f_lt x c then Some 0 else map_option Suc (first_cum x cs))"

definition pick_at :: "TemplateMix \<Rightarrow> f64 \<Rightarrow> nat" where
  "pick_at m x = (case first_cum x (mx_cumWeights m) of Some i \<Rightarrow> i | None \<Rightarrow> length (mx_templates m) - 1)"

definition mix_Pick :: "'r Rand \<Rightarrow> TemplateMix \<Rightarrow> 'r \<Rightarrow> (Template \<times> 'r) option" where
  "mix_Pick R m r =
     do { (u, r') \<leftarrow> rand_Float64 R r;
          let i = pick_at m (f_mul u (mx_total m));
          if i < length (mx_templates m) then Some (mx_templates m ! i, r') else None }"

definition mix_Len :: "TemplateMix \<Rightarrow> nat" where
  "mix_Len m = length (mx_templates m)"

section \<open>Branch bounds\<close>

datatype BranchKind = BranchRedirect | BranchCNAME | BranchLinkFollow | BranchABRSwitch
  | BranchOther "8 word"

record BranchBounds =
  bb_MaxRedirects :: int
  bb_MaxCNAME :: int
  bb_MaxLinksFollowed :: int
  bb_MaxABRSwitches :: int

definition DefaultBranchBounds :: BranchBounds where
  "DefaultBranchBounds = \<lparr>bb_MaxRedirects = 10, bb_MaxCNAME = 8, bb_MaxLinksFollowed = 20,
     bb_MaxABRSwitches = 12\<rparr>"

fun Allows :: "BranchBounds \<Rightarrow> BranchKind \<Rightarrow> int \<Rightarrow> bool" where
  "Allows b BranchRedirect count = (count < bb_MaxRedirects b)"
| "Allows b BranchCNAME count = (count < bb_MaxCNAME b)"
| "Allows b BranchLinkFollow count = (count < bb_MaxLinksFollowed b)"
| "Allows b BranchABRSwitch count = (count < bb_MaxABRSwitches b)"
| "Allows b (BranchOther _) count = False"

section \<open>Sessions\<close>

record SessionShape =
  sh_Length :: "Distribution option"
  sh_InterTask :: "Distribution option"
  sh_Abandon :: f64

record PlannedAction =
  pa_Ref :: Ref
  pa_Params :: "Action option"
  pa_Cause :: Cause
  pa_Nav :: NavID
  pa_Target :: Target
  pa_Label :: string

record Step =
  st_Wait :: duration
  st_Action :: "PlannedAction option"
  st_Done :: bool
  st_Pacing :: PacingMode

definition zero_Step :: Step where
  "zero_Step = \<lparr>st_Wait = 0, st_Action = None, st_Done = False, st_Pacing = PacingShaperManaged\<rparr>"

record 'loc SessionSpec =
  sp_Mix :: TemplateMix
  sp_ThinkTime :: "Distribution option"
  sp_Jitter :: "JitterModel option"
  sp_Burst :: "BurstModel option"
  sp_TimeOfDay :: "'loc TimeOfDayShaper option"
  sp_Prints :: "staticPool option"
  sp_Shape :: SessionShape
  sp_Bounds :: BranchBounds

record ('r, 'loc) session =
  ss_mix :: TemplateMix
  ss_think :: Distribution
  ss_shaper :: "'loc chainShaper"
  ss_shape :: SessionShape
  ss_bounds :: BranchBounds
  ss_rand :: 'r
  ss_fingerprint :: Fingerprint
  ss_start :: instant
  ss_maxLen :: duration
  ss_step :: int
  ss_last :: "Result option"

datatype session_error = NoMix | NoSelector | NoDeps

text \<open>\<open>NewSession\<close>: \<open>has_selector\<close> and \<open>has_deps\<close> say which interface values are non-nil. The
  answer holds the session, the advanced source of the maker and the remaining readings.\<close>

definition NewSession ::
  "(f64 \<Rightarrow> f64) \<Rightarrow> (f64 \<Rightarrow> int) \<Rightarrow> 'r Rand \<Rightarrow> 'loc SessionSpec \<Rightarrow> bool \<Rightarrow> bool \<Rightarrow> 'r \<Rightarrow> clock
     \<Rightarrow> (session_error + ('r, 'loc) session \<times> 'r \<times> clock) option" where
  "NewSession expf oor R spec has_selector has_deps r0 clk =
     (if mix_Len (sp_Mix spec) = 0 then Some (Inl NoMix)
      else if \<not> has_selector then Some (Inl NoSelector)
      else if \<not> has_deps then Some (Inl NoDeps)
      else do { (r, r0') \<leftarrow> rand_Split R r0;
                (maxLen, r1) \<leftarrow> (case sh_Length (sp_Shape spec) of
                                  None \<Rightarrow> Some (0, r)
                                | Some d \<Rightarrow> Sample expf oor R d r);
                (fp, r2) \<leftarrow> (case sp_Prints spec of
                              None \<Rightarrow> Some (zero_Fingerprint, r1)
                            | Some p \<Rightarrow> pool_Pick R p r1);
                let (now, clk') = Now clk;
                Some (Inr (\<lparr>ss_mix = sp_Mix spec,
                            ss_think = (case sp_ThinkTime spec of None \<Rightarrow> Constant 0 | Some d \<Rightarrow> d),
                            ss_shaper = NewChainShaper (sp_Jitter spec) (sp_Burst spec) (sp_TimeOfDay spec),
                            ss_shape = sp_Shape spec, ss_bounds = sp_Bounds spec, ss_rand = r2,
                            ss_fingerprint = fp, ss_start = now, ss_maxLen = maxLen, ss_step = 0,
                            ss_last = None\<rparr>, r0', clk')) })"

text \<open>The abandon draw, made only when the probability is positive.\<close>

definition abandons :: "'r Rand \<Rightarrow> f64 \<Rightarrow> 'r \<Rightarrow> (bool \<times> 'r) option" where
  "abandons R p r =
     (if f_lt (Fin 0) p then do { (u, r') \<leftarrow> rand_Float64 R r; Some (f_lt u p, r') } else Some (False, r))"

text \<open>The rest of \<open>Next\<close> once a target (or none) is known, and once the abandon draw is known.\<close>

definition after_target ::
  "(f64 \<Rightarrow> f64) \<Rightarrow> (f64 \<Rightarrow> int) \<Rightarrow> 'r Rand \<Rightarrow> ('loc \<Rightarrow> instant \<Rightarrow> localtime) \<Rightarrow> 'loc
     \<Rightarrow> instant \<Rightarrow> clock \<Rightarrow> ('r, 'loc) session \<Rightarrow> Template \<Rightarrow> 'r \<Rightarrow> Target option \<Rightarrow> 'sel
     \<Rightarrow> ((goerr + Step) \<times> ('r, 'loc) session \<times> 'sel \<times> clock) option" where
  "after_target expf oor R In utc now clk s t r ot sel =
     (case ot of
        None \<Rightarrow> Some (Inr (zero_Step\<lparr>st_Wait := 0\<rparr>),
                  s\<lparr>ss_rand := r, ss_step := i64 (ss_step s + 1)\<rparr>, sel, clk)
      | Some target \<Rightarrow>
          do { (dec, c', r') \<leftarrow> Shape expf oor R In utc (ss_shaper s) now
                 (Sample expf oor R (ss_think s)) (tm_Cause t) (ss_last s) r;
               let s' = s\<lparr>ss_rand := r', ss_shaper := c', ss_step := i64 (ss_step s + 1)\<rparr>;
               Some (Inr (if sdc_Idle dec then zero_Step\<lparr>st_Wait := sdc_Wait dec\<rparr>
                          else \<lparr>st_Wait = sdc_Wait dec,
                                st_Action = Some \<lparr>pa_Ref = Template_Ref t, pa_Params = None,
                                  pa_Cause = tm_Cause t, pa_Nav = '''', pa_Target = target,
                                  pa_Label = Ref_String (Template_Ref t)\<rparr>,
                                st_Done = False, st_Pacing = tm_Pacing t\<rparr>),
                     s', sel, clk) })"

definition after_quit ::
  "(f64 \<Rightarrow> f64) \<Rightarrow> (f64 \<Rightarrow> int) \<Rightarrow> 'r Rand \<Rightarrow> ('loc \<Rightarrow> instant \<Rightarrow> localtime) \<Rightarrow> 'loc
     \<Rightarrow> ('sel \<Rightarrow> ProtocolID \<Rightarrow> (Target option \<times> 'sel) option) \<Rightarrow> instant \<Rightarrow> clock
     \<Rightarrow> ('r, 'loc) session \<Rightarrow> 'sel \<Rightarrow> bool \<Rightarrow> 'r
     \<Rightarrow> ((goerr + Step) \<times> ('r, 'loc) session \<times> 'sel \<times> clock) option" where
  "after_quit expf oor R In utc nxt now clk s sel quit r =
     (if quit then Some (Inr (zero_Step\<lparr>st_Done := True\<rparr>), s\<lparr>ss_rand := r\<rparr>, sel, clk)
      else do { (t, r') \<leftarrow> mix_Pick R (ss_mix s) r;
                (ot, sel') \<leftarrow> nxt sel (tm_Protocol t);
                after_target expf oor R In utc now clk s t r' ot sel' })"

definition sess_Next ::
  "(f64 \<Rightarrow> f64) \<Rightarrow> (f64 \<Rightarrow> int) \<Rightarrow> 'r Rand \<Rightarrow> ('loc \<Rightarrow> instant \<Rightarrow> localtime) \<Rightarrow> 'loc
     \<Rightarrow> ('sel \<Rightarrow> ProtocolID \<Rightarrow> (Target option \<times> 'sel) option) \<Rightarrow> goerr option \<Rightarrow> clock
     \<Rightarrow> ('r, 'loc) session \<Rightarrow> 'sel \<Rightarrow> ((goerr + Step) \<times> ('r, 'loc) session \<times> 'sel \<times> clock) option" where
  "sess_Next expf oor R In utc nxt ctx_err clk s sel =
     (case ctx_err of Some e \<Rightarrow> Some (Inl e, s, sel, clk) | None \<Rightarrow>
      case Now clk of (now, clk') \<Rightarrow>
      if ss_maxLen s > 0 \<and> time_sub now (ss_start s) \<ge> ss_maxLen s
      then Some (Inr (zero_Step\<lparr>st_Done := True\<rparr>), s, sel, clk')
      else do { (quit, r1) \<leftarrow> abandons R (sh_Abandon (ss_shape s)) (ss_rand s);
                after_quit expf oor R In utc nxt now clk' s sel quit r1 })"

definition Observe :: "('r, 'loc) session \<Rightarrow> Result \<Rightarrow> Observation \<Rightarrow> ('r, 'loc) session" where
  "Observe s res obs = s\<lparr>ss_last := Some res\<rparr>"

definition sess_Fingerprint :: "('r, 'loc) session \<Rightarrow> Fingerprint" where
  "sess_Fingerprint s = ss_fingerprint s"

definition sess_Bounds :: "('r, 'loc) session \<Rightarrow> BranchBounds" where
  "sess_Bounds s = ss_bounds s"


section \<open>Weighted choice\<close>

lemma cum_weights_length:
  "cum_weights i acc ts = Inr (cs, tot) \<Longrightarrow> length cs = length ts"
  by (induction i acc ts arbitrary: cs tot rule: cum_weights.induct)
     (auto simp: Let_def split: if_splits sum.splits prod.splits)

definition mix_ok :: "TemplateMix \<Rightarrow> bool" where
  "mix_ok m \<longleftrightarrow> mx_templates m \<noteq> [] \<and> length (mx_cumWeights m) = length (mx_templates m)"

lemma NewTemplateMix_ok: "NewTemplateMix ts = Inr m \<Longrightarrow> mix_ok m \<and> mx_templates m = ts"
  by (auto simp: NewTemplateMix_def mix_ok_def dest: cum_weights_length split: if_splits sum.splits)

lemma first_cum_bound: "first_cum x cs = Some i \<Longrightarrow> i < length cs"
  by (induction cs arbitrary: i) (auto split: if_splits)

lemma pick_at_bound: "mix_ok m \<Longrightarrow> pick_at m x < length (mx_templates m)"
  by (auto simp: pick_at_def mix_ok_def split: option.splits dest: first_cum_bound)

lemma mix_Pick_at:
  "mix_ok m \<Longrightarrow> mix_Pick R m r =
     map_option (\<lambda>(u, r'). (mx_templates m ! pick_at m (f_mul u (mx_total m)), r')) (rand_Float64 R r)"
  by (cases "rand_Float64 R r") (auto simp: mix_Pick_def pick_at_bound Let_def)

lemma mix_Pick_mem: "mix_ok m \<Longrightarrow> mix_Pick R m r = Some (t, r') \<Longrightarrow> t \<in> set (mx_templates m)"
  by (auto simp: mix_Pick_at pick_at_bound)

text \<open>The reference: which of the given integer shares a point of the line falls into.\<close>

fun weighted_index :: "nat list \<Rightarrow> rat \<Rightarrow> nat" where
  "weighted_index [] x = 0"
| "weighted_index [w] x = 0"
| "weighted_index (w # v # ws) x = (if x < of_nat w then 0 else Suc (weighted_index (v # ws) (x - of_nat w)))"

definition weighted :: "Template \<Rightarrow> nat \<Rightarrow> bool" where
  "weighted t w \<longleftrightarrow> 0 < w \<and> tm_Weight t = Fin (of_nat w)"

lemma f_add_nat: "a + b < 2 ^ 53 \<Longrightarrow> f_add (Fin (of_nat a)) (Fin (of_nat b)) = Fin (of_nat (a + b))"
  using small_int [of "int (a + b)"] by (simp add: f64_of_int_def)

lemma weighted_not_bad: "weighted t w \<Longrightarrow> \<not> bad_weight (tm_Weight t)"
  by (simp add: weighted_def bad_weight_def)

lemma cum_weights_exact:
  assumes "list_all2 weighted ts ws" "a + sum_list ws < 2 ^ 53"
  shows "\<exists>cs. cum_weights i (Fin (of_nat a)) ts = Inr (cs, Fin (of_nat (a + sum_list ws)))
    \<and> (ts \<noteq> [] \<longrightarrow> (\<forall>x. (case first_cum (Fin x) cs of Some j \<Rightarrow> j | None \<Rightarrow> length ts - 1)
                    = weighted_index ws (x - of_nat a)))"
  using assms
proof (induction ws arbitrary: ts a i rule: list.induct)
  case Nil
  then show ?case by simp
next
  case (Cons w ws)
  then obtain t ts' where ts: "ts = t # ts'" "weighted t w" "list_all2 weighted ts' ws"
    by (cases ts) auto
  have "a + w + sum_list ws < 2 ^ 53" using Cons.prems(2) by (simp add: add.assoc)
  from Cons.IH [OF ts(3) this, of "Suc i"] obtain cs where cs:
    "cum_weights (Suc i) (Fin (of_nat (a + w))) ts' = Inr (cs, Fin (of_nat (a + w + sum_list ws)))"
    "\<And>x. ts' \<noteq> [] \<Longrightarrow> (case first_cum (Fin x) cs of Some j \<Rightarrow> j | None \<Rightarrow> length ts' - 1)
                    = weighted_index ws (x - of_nat (a + w))" by blast
  have add: "f_add (Fin (of_nat a)) (tm_Weight t) = Fin (of_nat (a + w))"
    using f_add_nat [of a w] Cons.prems(2) ts(2) by (simp add: weighted_def)
  have c: "cum_weights i (Fin (of_nat a)) ts =
      Inr (Fin (of_nat (a + w)) # cs, Fin (of_nat (a + sum_list (w # ws))))"
    using cs(1) weighted_not_bad [OF ts(2)] by (simp add: ts(1) add Let_def add.assoc)
  have "(case first_cum (Fin x) (Fin (of_nat (a + w)) # cs) of Some j \<Rightarrow> j | None \<Rightarrow> length ts - 1)
      = weighted_index (w # ws) (x - of_nat a)" for x
  proof (cases ws)
    case Nil
    then show ?thesis using ts(1,3) cum_weights_length [OF cs(1)] by simp
  next
    case (Cons v vs)
    then have ne: "ts' \<noteq> []" using ts(3) by auto
    show ?thesis
      using cs(2) [OF ne, of x] ne
      by (cases "first_cum (Fin x) cs") (auto simp: ts(1) Cons diff_diff_eq algebra_simps neq_Nil_conv)
  qed
  then show ?case using c by blast
qed


text \<open>The part of the line that belongs to the share with index \<open>i\<close>: from the sum of the shares before
  it up to half a unit below its own end.\<close>

definition within_share :: "nat list \<Rightarrow> nat \<Rightarrow> rat \<Rightarrow> bool" where
  "within_share ws i x \<longleftrightarrow> of_nat (sum_list (take i ws)) \<le> x \<and> x \<le> of_nat (sum_list (take (Suc i) ws)) - 1 / 2"

lemma weighted_index_share:
  "i < length ws \<Longrightarrow> of_nat (sum_list (take i ws)) \<le> x \<Longrightarrow> x < of_nat (sum_list (take (Suc i) ws)) \<Longrightarrow>
     weighted_index ws x = i"
proof (induction ws x arbitrary: i rule: weighted_index.induct)
  case (3 w v ws x)
  show ?case
  proof (cases i)
    case 0
    then show ?thesis using 3 by simp
  next
    case (Suc j)
    have "of_nat w \<le> x" using "3.prems"(2) by (simp add: Suc)
    moreover have "weighted_index (v # ws) (x - of_nat w) = j"
      using "3.prems" \<open>of_nat w \<le> x\<close> by (intro "3.IH") (simp_all add: Suc algebra_simps)
    ultimately show ?thesis by (simp add: Suc)
  qed
qed simp_all

lemma rnd_half: "n < 2 ^ 52 \<Longrightarrow> rnd (of_nat n - 1 / 2) = of_nat n - 1 / 2"
proof (rule rnd_grid)
  show "(of_nat n - 1 / 2 :: rat) = of_int (2 * int n - 1) * 2 powi (- 1)"
    by (simp add: power_int_minus field_simps)
qed simp_all

text \<open>Rounding does not move a point out of its share.\<close>

lemma weighted_index_rnd:
  assumes "sum_list ws < 2 ^ 52" "i < length ws" "within_share ws i x"
  shows "weighted_index ws (rnd x) = i"
proof -
  let ?a = "sum_list (take i ws)" and ?b = "sum_list (take (Suc i) ws)"
  have le: "sum_list (take k ws) \<le> sum_list ws" for k
    using sum_list_append [of "take k ws" "drop k ws"] by simp
  have "rnd (of_nat ?a) = of_nat ?a"
    using rnd_of_int [of "int ?a"] le [of i] assms(1) by simp
  then have "of_nat ?a \<le> rnd x" using rnd_mono [of "of_nat ?a" x] assms(3) by (simp add: within_share_def)
  moreover have "rnd x \<le> of_nat ?b - 1 / 2"
    using rnd_mono [of x "of_nat ?b - 1 / 2"] rnd_half [of ?b] le [of "Suc i"] assms(1,3)
    by (simp add: within_share_def)
  ultimately show ?thesis using assms(2) by (intro weighted_index_share) simp_all
qed

text \<open>The draws of the generator, multiples of \<open>2 powi (- 53)\<close>, are dense enough to reach every share.\<close>

lemma share_is_drawn:
  assumes "sum_list ws \<le> 2 ^ 52" "i < length ws" "0 < ws ! i"
  shows "\<exists>k < 2 ^ 53. within_share ws i (of_nat k / 2 ^ 53 * of_nat (sum_list ws))"
proof -
  let ?a = "sum_list (take i ws)" and ?T = "sum_list ws"
  have T: "?T = ?a + ws ! i + sum_list (drop (Suc i) ws)"
    using arg_cong [OF id_take_nth_drop [OF assms(2)], of sum_list] by simp
  define k where "k = (?a * 2 ^ 53 + ?T - 1) div ?T"
  have T0: "0 < ?T" using T assms(3) by simp
  have lo: "?a * 2 ^ 53 \<le> k * ?T" and hi: "k * ?T \<le> ?a * 2 ^ 53 + ?T - 1"
    using T0 div_mult_mod_eq [of "?a * 2 ^ 53 + ?T - 1" ?T] mod_less_divisor [OF T0, of "?a * 2 ^ 53 + ?T - 1"]
    unfolding k_def by linarith+
  have hi2: "2 * (k * ?T) \<le> 2 * (?a * 2 ^ 53) + 2 ^ 53" using hi assms(1) T0 by simp
  have "k * ?T < 2 ^ 53 * ?T" using hi2 T assms(3) by simp
  then have "k < 2 ^ 53" by simp
  moreover have "(of_nat ?a :: rat) \<le> of_nat k / 2 ^ 53 * of_nat ?T"
  proof -
    have "of_nat (?a * 2 ^ 53) \<le> (of_nat (k * ?T) :: rat)" using lo by (simp only: of_nat_le_iff)
    then show ?thesis by (simp add: field_simps)
  qed
  moreover have "of_nat k / 2 ^ 53 * of_nat ?T \<le> (of_nat ?a + 1 / 2 :: rat)"
  proof -
    have "of_nat (2 * (k * ?T)) \<le> (of_nat (2 * (?a * 2 ^ 53) + 2 ^ 53) :: rat)"
      using hi2 by (simp only: of_nat_le_iff)
    then show ?thesis by (simp add: field_simps)
  qed
  moreover have "(of_nat ?a + 1 / 2 :: rat) \<le> of_nat (sum_list (take (Suc i) ws)) - 1 / 2"
  proof -
    have "?a + 1 \<le> sum_list (take (Suc i) ws)"
      using assms(2,3) by (simp add: take_Suc_conv_app_nth)
    then have "of_nat (?a + 1) \<le> (of_nat (sum_list (take (Suc i) ws)) :: rat)" by (simp only: of_nat_le_iff)
    then show ?thesis by simp
  qed
  ultimately show ?thesis unfolding within_share_def by (intro exI [of _ k]) linarith
qed

lemma weighted_mix:
  assumes "list_all2 weighted ts ws" "ts \<noteq> []" "sum_list ws < 2 ^ 53"
  shows "\<exists>m. NewTemplateMix ts = Inr m \<and> mx_total m = Fin (of_nat (sum_list ws))
    \<and> mx_templates m = ts \<and> (\<forall>x. pick_at m (Fin x) = weighted_index ws x)"
proof -
  obtain cs where "cum_weights 0 (Fin (of_nat 0)) ts = Inr (cs, Fin (of_nat (sum_list ws)))"
    "\<And>x. (case first_cum (Fin x) cs of Some j \<Rightarrow> j | None \<Rightarrow> length ts - 1) = weighted_index ws x"
    using cum_weights_exact [OF assms(1), of 0 0] assms(2,3) by auto
  moreover from this(1) obtain m where "NewTemplateMix ts = Inr m" "mx_templates m = ts"
    "mx_cumWeights m = cs" "mx_total m = Fin (of_nat (sum_list ws))"
    using assms(2) that [of "\<lparr>mx_templates = ts, mx_cumWeights = cs, mx_total = Fin (of_nat (sum_list ws))\<rparr>"]
    by (simp add: NewTemplateMix_def)
  ultimately show ?thesis by (auto simp: pick_at_def)
qed

text \<open>C32. Over positive whole-number weights that add up to less than \<open>2 ^ 52\<close> the mix is the weighted
  choice: it is always built; a draw \<open>u\<close> in \<open>[0, 1)\<close> picks the template into whose share of the line
  the rounded product of \<open>u\<close> and the total falls, so in particular the template whose share holds
  \<open>u * total\<close> up to half a unit from its end; and for every template some value of the generator, a
  multiple of \<open>2 powi (- 53)\<close>, picks it.\<close>

theorem mix_is_weighted_choice:
  assumes "list_all2 weighted ts ws" "ts \<noteq> []" "sum_list ws < 2 ^ 52"
  shows "\<exists>m. NewTemplateMix ts = Inr m
    \<and> (\<forall>u r r'. rand_Float64 R r = Some (Fin u, r') \<and> 0 \<le> u \<and> u < 1 \<longrightarrow>
         mix_Pick R m r = Some (ts ! weighted_index ws (rnd (u * of_nat (sum_list ws))), r')
       \<and> (\<forall>i < length ts. within_share ws i (u * of_nat (sum_list ws)) \<longrightarrow> mix_Pick R m r = Some (ts ! i, r')))
    \<and> (\<forall>i < length ts. \<exists>k < 2 ^ 53. \<forall>r r'. rand_Float64 R r = Some (Fin (of_nat k / 2 ^ 53), r') \<longrightarrow>
         mix_Pick R m r = Some (ts ! i, r'))"
proof -
  let ?T = "of_nat (sum_list ws) :: rat"
  obtain m where m: "NewTemplateMix ts = Inr m" "mx_total m = Fin ?T" "mx_templates m = ts"
    "\<And>x. pick_at m (Fin x) = weighted_index ws x"
    using weighted_mix [OF assms(1,2)] assms(3) by fastforce
  have len: "length ts = length ws" using assms(1) by (rule list_all2_lengthD)
  have pick: "mix_Pick R m r = Some (ts ! weighted_index ws (rnd (u * ?T)), r')"
    if d: "rand_Float64 R r = Some (Fin u, r')" "0 \<le> u" "u < 1" for u r r'
  proof -
    have "(of_nat (sum_list ws) :: rat) \<le> of_nat (2 ^ 52)" using assms(3) by (simp only: of_nat_le_iff)
    then have "\<bar>u * ?T\<bar> \<le> 1 * 2 ^ 64" using d(2,3) unfolding abs_mult by (intro mult_mono) simp_all
    then have "f_mul (Fin u) (mx_total m) = Fin (rnd (u * ?T))" by (simp add: m(2) f64_int_sized)
    then show ?thesis using NewTemplateMix_ok [OF m(1)] d(1) m(3,4) by (simp add: mix_Pick_at)
  qed
  have share: "mix_Pick R m r = Some (ts ! i, r')"
    if "rand_Float64 R r = Some (Fin u, r')" "0 \<le> u" "u < 1" "i < length ts" "within_share ws i (u * ?T)" for u r r' i
    using pick [OF that(1-3)] weighted_index_rnd [OF assms(3) _ that(5)] that(4) len by simp
  have "\<exists>k < 2 ^ 53. \<forall>r r'. rand_Float64 R r = Some (Fin (of_nat k / 2 ^ 53), r') \<longrightarrow>
         mix_Pick R m r = Some (ts ! i, r')" if i: "i < length ts" for i
  proof -
    have "0 < ws ! i" using assms(1) i by (auto simp: list_all2_conv_all_nth weighted_def)
    then obtain k where k: "k < 2 ^ 53" "within_share ws i (of_nat k / 2 ^ 53 * ?T)"
      using share_is_drawn [of ws i] assms(3) i len by auto
    have "of_nat k < (of_nat (2 ^ 53) :: rat)" using k(1) by (simp only: of_nat_less_iff)
    then have "0 \<le> (of_nat k / 2 ^ 53 :: rat)" "(of_nat k / 2 ^ 53 :: rat) < 1" by simp_all
    then show ?thesis using share [OF _ _ _ i k(2)] k(1) by blast
  qed
  then show ?thesis using m(1) pick share by blast
qed

definition sample_template :: "ProtocolID \<Rightarrow> f64 \<Rightarrow> Template" where
  "sample_template p w = \<lparr>tm_Protocol = p, tm_Verb = ''get'', tm_Cause = CauseNavigation,
     tm_Pacing = PacingShaperManaged, tm_Weight = w\<rparr>"

text \<open>A generator whose state is its next draw.\<close>

definition echo :: "rat Rand" where
  "echo = \<lparr>rand_Float64 = \<lambda>u. Some (Fin u, u), rand_NormFloat64 = \<lambda>_. None, rand_ExpFloat64 = \<lambda>_. None,
     rand_IntN = \<lambda>_ _. None, rand_Int63n = \<lambda>_ _. None, rand_Perm = \<lambda>_ _. None, rand_Split = \<lambda>_. None\<rparr>"

theorem mix_is_weighted_choice_witness:
  "\<exists>m. NewTemplateMix [sample_template ProtoHTTP (Fin 3), sample_template ProtoDNS (Fin 1)] = Inr m
     \<and> mix_Pick echo m (1 / 2) = Some (sample_template ProtoHTTP (Fin 3), 1 / 2)
     \<and> mix_Pick echo m (7 / 8) = Some (sample_template ProtoDNS (Fin 1), 7 / 8)"
proof -
  let ?ts = "[sample_template ProtoHTTP (Fin 3), sample_template ProtoDNS (Fin 1)]"
  have w: "list_all2 weighted ?ts [3, 1]" by (simp add: weighted_def sample_template_def)
  obtain m where m: "NewTemplateMix ?ts = Inr m"
    "\<And>u r r' i. rand_Float64 echo r = Some (Fin u, r') \<and> 0 \<le> u \<and> u < 1 \<Longrightarrow> i < length ?ts \<Longrightarrow>
         within_share [3, 1] i (u * of_nat (sum_list [3, 1])) \<Longrightarrow> mix_Pick echo m r = Some (?ts ! i, r')"
    using mix_is_weighted_choice [OF w, of echo] by fastforce
  show ?thesis
    using m(1) m(2) [of "1 / 2" "1 / 2" "1 / 2" 0] m(2) [of "7 / 8" "7 / 8" "7 / 8" 1]
    by (simp add: echo_def within_share_def)
qed

lemma big_plus_one: "f_add (Fin (2 ^ 54)) (Fin 1) = Fin (2 ^ 54)"
proof -
  have "rnd 18014398509481985 = of_int 4503599627370496 * 2 powi (2::int)"
    by (rule rnd_eval) (simp_all add: power_int_def eval_nat_numeral)
  then show ?thesis
    using f64_of_rat_small [of 18014398509481985] by (simp add: power_int_def)
qed

lemma same_cum:
  "length ts \<noteq> 2 \<Longrightarrow> pick_at \<lparr>mx_templates = ts, mx_cumWeights = c # c # cs, mx_total = tot\<rparr> x \<noteq> 1"
  by (cases "first_cum x cs") (auto simp: pick_at_def)

text \<open>The comment on \<open>NewTemplateMix\<close> (no template is ever silently unreachable) does not hold
  for every accepted mix: between two weights of 2^54 a template of weight 1 adds nothing to the
  running total, and no draw whatever selects it.\<close>

theorem tiny_weight_is_unreachable:
  "\<exists>m. NewTemplateMix (map (sample_template ProtoHTTP) [Fin (2 ^ 54), Fin 1, Fin (2 ^ 54)]) = Inr m
     \<and> (\<forall>x. pick_at m x \<noteq> 1)"
proof -
  let ?ts = "map (sample_template ProtoHTTP) [Fin (2 ^ 54), Fin 1, Fin (2 ^ 54)]"
  have z: "f_add (Fin 0) (Fin (2 ^ 54)) = Fin (2 ^ 54)"
    using rnd_grid [of "2 ^ 54" 1 54] f64_of_rat_small [of "2 ^ 54"] by (simp add: power_int_def)
  obtain c where "NewTemplateMix ?ts =
      Inr \<lparr>mx_templates = ?ts, mx_cumWeights = [Fin (2 ^ 54), Fin (2 ^ 54), c], mx_total = c\<rparr>"
    using z big_plus_one
    by (simp add: NewTemplateMix_def sample_template_def bad_weight_def Let_def del: f_add.simps power_numeral)
  moreover have "pick_at \<lparr>mx_templates = ?ts, mx_cumWeights = [Fin (2 ^ 54), Fin (2 ^ 54), c], mx_total = c\<rparr> x \<noteq> 1" for x
    by (rule same_cum) simp
  ultimately show ?thesis by blast
qed


section \<open>The interface the workers drive\<close>

text \<open>A step that waits no negative time and whose action, if any, is for a listed target.\<close>

definition on_target :: "(ProtocolID \<Rightarrow> Target list) \<Rightarrow> Step \<Rightarrow> bool" where
  "on_target pool st \<longleftrightarrow> 0 \<le> st_Wait st
     \<and> (case st_Action st of None \<Rightarrow> True
        | Some pa \<Rightarrow> pa_Target pa \<in> set (pool (ref_Protocol (pa_Ref pa))))"

text \<open>
  What the engine relies on: a step never waits a negative time, an action carries a target the
  session may contact under the protocol of its reference, and the two operations keep the
  session well-formed, its allowed targets and its identity. \<open>nx s c st s'\<close>: a call of \<open>Next\<close> at
  the reading \<open>c\<close> may answer \<open>st\<close>.
\<close>

locale vuser =
  fixes nx :: "'s \<Rightarrow> instant \<Rightarrow> Step \<Rightarrow> 's \<Rightarrow> bool"
    and observed :: "'s \<Rightarrow> Result \<Rightarrow> 's"
    and ok :: "'s \<Rightarrow> bool" and allowed :: "'s \<Rightarrow> ProtocolID \<Rightarrow> Target list"
    and identity :: "'s \<Rightarrow> 'i"
  assumes nx_ok: "ok s \<Longrightarrow> nx s c st s' \<Longrightarrow> ok s' \<and> allowed s' = allowed s \<and> identity s' = identity s"
    and nx_wait: "ok s \<Longrightarrow> nx s c st s' \<Longrightarrow> 0 \<le> st_Wait st"
    and nx_target: "ok s \<Longrightarrow> nx s c st s' \<Longrightarrow> st_Action st = Some pa \<Longrightarrow>
          \<not> st_Done st \<and> pa_Target pa \<in> set (allowed s (ref_Protocol (pa_Ref pa)))"
    and observed_ok: "ok s \<Longrightarrow> ok (observed s r) \<and> allowed (observed s r) = allowed s
          \<and> identity (observed s r) = identity s"
begin

text \<open>A session driven to its end: each step, and the result observed after an action.\<close>

inductive session_run :: "'s \<Rightarrow> Step list \<Rightarrow> 's \<Rightarrow> bool" where
  run_stop: "session_run s [] s"
| run_idle: "nx s c st s' \<Longrightarrow> st_Action st = None \<Longrightarrow> session_run s' sts s'' \<Longrightarrow> session_run s (st # sts) s''"
| run_action: "nx s c st s' \<Longrightarrow> st_Action st = Some pa \<Longrightarrow> session_run (observed s' r) sts s''
     \<Longrightarrow> session_run s (st # sts) s''"

lemma nx_on_target: "ok s \<Longrightarrow> nx s c st s' \<Longrightarrow> on_target (allowed s) st"
  using nx_wait nx_target by (fastforce simp: on_target_def split: option.splits)

lemma run_sound:
  "session_run s sts s' \<Longrightarrow> ok s \<Longrightarrow>
     ok s' \<and> allowed s' = allowed s \<and> identity s' = identity s \<and> list_all (on_target (allowed s)) sts"
proof (induction rule: session_run.induct)
  case (run_stop s)
  then show ?case by simp
next
  case (run_idle s c st s' sts s'')
  note k = nx_ok [OF run_idle.prems run_idle.hyps(1)]
  then show ?case
    using run_idle.IH nx_on_target [OF run_idle.prems run_idle.hyps(1)] by simp
next
  case (run_action s c st s' pa r sts s'')
  note k = nx_ok [OF run_action.prems run_action.hyps(1)]
  note o = observed_ok [of s' r]
  show ?case
    using k o run_action.IH nx_on_target [OF run_action.prems run_action.hyps(1)] by simp
qed

end

section \<open>The session is such a user\<close>

lemma abandons_inv: "(\<And>r x r'. I r \<Longrightarrow> rand_Float64 R r = Some (x, r') \<Longrightarrow> I r') \<Longrightarrow> I r \<Longrightarrow>
    abandons R p r = Some (q, r') \<Longrightarrow> I r'"
  by (auto simp: abandons_def bind_eq_Some_conv split: if_splits)

text \<open>The ways a call of \<open>Next\<close> can end.\<close>

lemma sess_Next_cases:
  assumes "sess_Next expf oor R In utc nxt ctx_err clk s sel = Some (a, s', sel', clk')"
  obtains (err) e where "ctx_err = Some e" "a = Inl e" "s' = s" "sel' = sel" "clk' = clk"
    | (over) "ctx_err = None" "0 < ss_maxLen s" "ss_maxLen s \<le> time_sub (fst (Now clk)) (ss_start s)"
        "a = Inr (zero_Step\<lparr>st_Done := True\<rparr>)" "s' = s" "sel' = sel" "clk' = snd (Now clk)"
    | (quit) r1 where "ctx_err = None" "abandons R (sh_Abandon (ss_shape s)) (ss_rand s) = Some (True, r1)"
        "a = Inr (zero_Step\<lparr>st_Done := True\<rparr>)" "s' = s\<lparr>ss_rand := r1\<rparr>" "sel' = sel"
        "clk' = snd (Now clk)"
    | (skip) r1 t r2 where "ctx_err = None"
        "abandons R (sh_Abandon (ss_shape s)) (ss_rand s) = Some (False, r1)"
        "mix_Pick R (ss_mix s) r1 = Some (t, r2)" "nxt sel (tm_Protocol t) = Some (None, sel')"
        "a = Inr (zero_Step\<lparr>st_Wait := 0\<rparr>)" "s' = s\<lparr>ss_rand := r2, ss_step := i64 (ss_step s + 1)\<rparr>"
    | (plan) r1 t r2 target dec c' r3 where "ctx_err = None"
        "abandons R (sh_Abandon (ss_shape s)) (ss_rand s) = Some (False, r1)"
        "mix_Pick R (ss_mix s) r1 = Some (t, r2)" "nxt sel (tm_Protocol t) = Some (Some target, sel')"
        "Shape expf oor R In utc (ss_shaper s) (fst (Now clk)) (Sample expf oor R (ss_think s))
           (tm_Cause t) (ss_last s) r2 = Some (dec, c', r3)"
        "a = Inr (if sdc_Idle dec then zero_Step\<lparr>st_Wait := sdc_Wait dec\<rparr>
                  else \<lparr>st_Wait = sdc_Wait dec,
                        st_Action = Some \<lparr>pa_Ref = Template_Ref t, pa_Params = None,
                          pa_Cause = tm_Cause t, pa_Nav = '''', pa_Target = target,
                          pa_Label = Ref_String (Template_Ref t)\<rparr>,
                        st_Done = False, st_Pacing = tm_Pacing t\<rparr>)"
        "s' = s\<lparr>ss_rand := r3, ss_shaper := c', ss_step := i64 (ss_step s + 1)\<rparr>"
proof (cases "ctx_err")
  case (Some e)
  show ?thesis by (rule err [OF Some]) (use assms Some in \<open>simp_all add: sess_Next_def\<close>)
next
  case None
  obtain now clk1 where n: "Now clk = (now, clk1)" by (cases "Now clk")
  show ?thesis
  proof (cases "0 < ss_maxLen s \<and> ss_maxLen s \<le> time_sub now (ss_start s)")
    case True
    show ?thesis
      by (rule over [OF None]) (use assms True in \<open>simp_all add: sess_Next_def None n\<close>)
  next
    case False
    then have e: "sess_Next expf oor R In utc nxt ctx_err clk s sel = do {
        (quit, r1) \<leftarrow> abandons R (sh_Abandon (ss_shape s)) (ss_rand s);
        after_quit expf oor R In utc nxt now clk1 s sel quit r1 }"
      by (simp only: sess_Next_def None n option.case prod.case if_False)
    then obtain q r1 where q: "abandons R (sh_Abandon (ss_shape s)) (ss_rand s) = Some (q, r1)"
      "after_quit expf oor R In utc nxt now clk1 s sel q r1 = Some (a, s', sel', clk')"
      using trans [OF e [symmetric] assms] by (auto simp: bind_eq_Some_conv)
    show ?thesis
    proof (cases q)
      case True
      show ?thesis
        by (rule quit [OF None, of r1]) (use q True in \<open>auto simp: after_quit_def n\<close>)
    next
      case False
      then obtain t r2 ot sel1 where t: "mix_Pick R (ss_mix s) r1 = Some (t, r2)"
          "nxt sel (tm_Protocol t) = Some (ot, sel1)"
          "after_target expf oor R In utc now clk1 s t r2 ot sel1 = Some (a, s', sel', clk')"
        using q(2) by (auto simp: after_quit_def bind_eq_Some_conv)
      have q1: "abandons R (sh_Abandon (ss_shape s)) (ss_rand s) = Some (False, r1)"
        using q(1) False by simp
      show ?thesis
      proof (cases ot)
        case None
        show ?thesis
          by (rule skip [OF \<open>ctx_err = None\<close> q1 t(1)])
             (use t None in \<open>auto simp: after_target_def\<close>)
      next
        case (Some target)
        then obtain dec c' r3 where d: "Shape expf oor R In utc (ss_shaper s) now
            (Sample expf oor R (ss_think s)) (tm_Cause t) (ss_last s) r2 = Some (dec, c', r3)"
          using t(3) by (auto simp: after_target_def bind_eq_Some_conv)
        show ?thesis
          by (rule plan [OF \<open>ctx_err = None\<close> q1 t(1)])
             (use t(2,3) Some d in \<open>auto simp: after_target_def n Let_def\<close>)
      qed
    qed
  qed
qed


lemma sess_Next_sound:
  assumes "sess_Next expf oor R In utc nxt ctx_err clk s sel = Some (Inr st, s', sel', clk')"
  shows "0 \<le> st_Wait st \<and> ss_fingerprint s' = ss_fingerprint s \<and> ss_bounds s' = ss_bounds s
    \<and> (sel' = sel \<and> st_Action st = None
       \<or> (\<exists>p. nxt sel p = Some (None, sel') \<and> st_Action st = None)
       \<or> (\<exists>p t. nxt sel p = Some (Some t, sel') \<and>
            (case st_Action st of None \<Rightarrow> True
             | Some pa \<Rightarrow> \<not> st_Done st \<and> pa_Target pa = t \<and> ref_Protocol (pa_Ref pa) = p)))"
  using assms
proof (cases rule: sess_Next_cases)
  case (plan r1 t r2 target dec c' r3)
  have "0 \<le> sdc_Wait dec"
    using plan(5) by (auto simp: Shape_def bind_eq_Some_conv Let_def split: if_splits dest: Phase_nonneg)
  then show ?thesis using plan(4,6,7)
    by (cases "sdc_Idle dec") (auto simp: zero_Step_def Template_Ref_def)
next
  case (skip r1 t r2)
  then show ?thesis by (auto simp: zero_Step_def)
qed (simp_all add: zero_Step_def)

definition sess_step ::
  "(f64 \<Rightarrow> f64) \<Rightarrow> (f64 \<Rightarrow> int) \<Rightarrow> 'r Rand \<Rightarrow> ('loc \<Rightarrow> instant \<Rightarrow> localtime) \<Rightarrow> 'loc
     \<Rightarrow> ('sel \<Rightarrow> ProtocolID \<Rightarrow> (Target option \<times> 'sel) option)
     \<Rightarrow> ('r, 'loc) session \<times> 'sel \<Rightarrow> instant \<Rightarrow> Step \<Rightarrow> ('r, 'loc) session \<times> 'sel \<Rightarrow> bool" where
  "sess_step expf oor R In utc nxt x c st y \<longleftrightarrow>
     (\<exists>clk clk'. fst (Now clk) = c \<and>
        sess_Next expf oor R In utc nxt None clk (fst x) (snd x) = Some (Inr st, fst y, snd y, clk'))"

locale session_parts = target_selector pool step sok
  for pool :: "'sel \<Rightarrow> ProtocolID \<Rightarrow> Target list" and step and sok +
  fixes nxt :: "'sel \<Rightarrow> ProtocolID \<Rightarrow> (Target option \<times> 'sel) option"
  assumes nxt_step: "nxt x p = Some (t, y) \<Longrightarrow> step x p y t"

sublocale session_parts \<subseteq> user: vuser "sess_step expf oor R In utc nxt"
  "\<lambda>x r. (Observe (fst x) r zero_Observation, snd x)" "\<lambda>x. sok (snd x)" "\<lambda>x. pool (snd x)"
  "\<lambda>x. (ss_fingerprint (fst x), ss_bounds (fst x))"
  for expf oor and R :: "'r Rand" and In :: "'loc \<Rightarrow> instant \<Rightarrow> localtime" and utc
proof
  have pool_eq: "sok x \<Longrightarrow> nxt x p = Some (t, y) \<Longrightarrow> sok y \<and> pool y = pool x" for x p t y
    using step_pool [OF _ nxt_step] by blast
  fix x y :: "('r, 'loc) session \<times> 'sel" and c st
  assume ok: "sok (snd x)" and s: "sess_step expf oor R In utc nxt x c st y"
  from s obtain clk clk' where
    "sess_Next expf oor R In utc nxt None clk (fst x) (snd x) = Some (Inr st, fst y, snd y, clk')"
    by (auto simp: sess_step_def)
  note k = sess_Next_sound [OF this]
  show "sok (snd y) \<and> pool (snd y) = pool (snd x) \<and>
      (ss_fingerprint (fst y), ss_bounds (fst y)) = (ss_fingerprint (fst x), ss_bounds (fst x))"
    using k pool_eq [OF ok] ok by auto
  show "0 \<le> st_Wait st" using k by simp
  show "\<not> st_Done st \<and> pa_Target pa \<in> set (pool (snd x) (ref_Protocol (pa_Ref pa)))"
    if "st_Action st = Some pa" for pa
    using k that step_target [OF ok nxt_step] by auto
qed (simp add: Observe_def)

interpretation rr_session: session_parts rrs_byProto "\<lambda>s p s' t. rr_Next s p = Some (t, s')" "\<lambda>_. True" rr_Next
  by unfold_locales simp

text \<open>The engine's selector, with its own source and clock in its state.\<close>

definition rot_Next ::
  "'r Rand \<Rightarrow> rotatingSelector \<times> 'r \<times> clock \<Rightarrow> ProtocolID
     \<Rightarrow> (Target option \<times> rotatingSelector \<times> 'r \<times> clock) option" where
  "rot_Next R x p = (case x of (s, r, clk) \<Rightarrow> sel_Next R clk r s p)"

sublocale int_source \<subseteq> block: session_parts "\<lambda>x. sel_pool (fst x)" "\<lambda>x p y t. rot_Next R x p = Some (t, y)"
  "\<lambda>x. sel_ok bound (fst x) \<and> inv (fst (snd x))" "rot_Next R"
proof
  have k: "sel_step R (fst x, fst (snd x)) p (fst y, fst (snd y)) t" if "rot_Next R x p = Some (t, y)" for x p y t
    using that by (cases x; cases y) (auto simp: sel_step_def rot_Next_def)
  fix x y :: "rotatingSelector \<times> 'r \<times> clock" and p t
  assume "sel_ok bound (fst x) \<and> inv (fst (snd x))"
  then have ok: "sel_ok bound (fst (fst x, fst (snd x))) \<and> inv (snd (fst x, fst (snd x)))" by simp
  {
    assume "rot_Next R x p = Some (t, y)"
    from rotating.step_pool [OF ok k [OF this]]
    show "sel_pool (fst y) q = sel_pool (fst x) q \<and> sel_ok bound (fst y) \<and> inv (fst (snd y))" for q by simp
  next
    fix tg assume "rot_Next R x p = Some (Some tg, y)"
    from rotating.step_target [OF ok k [OF this]] show "tg \<in> set (sel_pool (fst x) p)" by simp
  next
    assume "rot_Next R x p = Some (None, y)"
    from rotating.step_skip [OF ok k [OF this]] show "sel_pool (fst x) p = []" by simp
  }
qed simp


section \<open>Driving a session\<close>

text \<open>The caller's loop: for each entry one call of \<open>Next\<close> at that reading, and after an action
  the given result fed back.\<close>

fun drive ::
  "(f64 \<Rightarrow> f64) \<Rightarrow> (f64 \<Rightarrow> int) \<Rightarrow> 'r Rand \<Rightarrow> ('loc \<Rightarrow> instant \<Rightarrow> localtime) \<Rightarrow> 'loc
     \<Rightarrow> ('sel \<Rightarrow> ProtocolID \<Rightarrow> (Target option \<times> 'sel) option) \<Rightarrow> (instant \<times> Result) list
     \<Rightarrow> ('r, 'loc) session \<Rightarrow> 'sel \<Rightarrow> (Step list \<times> ('r, 'loc) session \<times> 'sel) option" where
  "drive expf oor R In utc nxt [] s sel = Some ([], s, sel)"
| "drive expf oor R In utc nxt ((now, res) # xs) s sel =
     (case sess_Next expf oor R In utc nxt None (\<lambda>_. now) s sel of
        Some (Inr st, s', sel', _) \<Rightarrow>
          if st_Done st then Some ([st], s', sel')
          else (case drive expf oor R In utc nxt xs
                       (if st_Action st = None then s' else Observe s' res zero_Observation) sel' of
                  None \<Rightarrow> None
                | Some (sts, s'', sel'') \<Rightarrow> Some (st # sts, s'', sel''))
      | _ \<Rightarrow> None)"

lemma drive_Cons:
  assumes "drive expf oor R In utc nxt ((now, res) # xs) s sel = Some (sts, y)"
  obtains (fin) st s' sel' clk' where
      "sess_Next expf oor R In utc nxt None (\<lambda>_. now) s sel = Some (Inr st, s', sel', clk')"
      "st_Done st" "sts = [st]" "y = (s', sel')"
    | (more) st s' sel' clk' sts' where
      "sess_Next expf oor R In utc nxt None (\<lambda>_. now) s sel = Some (Inr st, s', sel', clk')"
      "\<not> st_Done st" "sts = st # sts'"
      "drive expf oor R In utc nxt xs
         (if st_Action st = None then s' else Observe s' res zero_Observation) sel' = Some (sts', y)"
proof (cases "sess_Next expf oor R In utc nxt None (\<lambda>_. now) s sel")
  case None
  then show ?thesis using assms by simp
next
  case (Some z)
  obtain a s' sel' clk' where z: "z = (a, s', sel', clk')" by (cases z)
  obtain st where a: "a = Inr st" using assms Some z by (cases a) simp_all
  note n = Some [unfolded z a]
  show ?thesis
  proof (cases "st_Done st")
    case True
    then show ?thesis using assms n by (intro fin [OF n]) simp_all
  next
    case False
    let ?d = "drive expf oor R In utc nxt xs
         (if st_Action st = None then s' else Observe s' res zero_Observation) sel'"
    obtain sts' y' where "?d = Some (sts', y')" using assms n False by (cases ?d) auto
    then show ?thesis using assms n False by (intro more [OF n False, of sts']) auto
  qed
qed

lemma sess_step_at:
  "sess_Next expf oor R In utc nxt None (\<lambda>_. now) s sel = Some (Inr st, s', sel', clk') \<Longrightarrow>
     sess_step expf oor R In utc nxt (s, sel) now st (s', sel')"
  unfolding sess_step_def by (intro exI [of _ "\<lambda>_. now"] exI [of _ clk']) (simp add: Now_def)

context session_parts
begin

lemma drive_run:
  "drive expf oor R In utc nxt xs s sel = Some (sts, y) \<Longrightarrow>
     user.session_run expf oor R In utc (s, sel) sts y"
proof (induction xs arbitrary: s sel sts)
  case Nil
  then show ?case by (auto intro: user.run_stop)
next
  case (Cons x xs)
  obtain now res where x: "x = (now, res)" by (cases x)
  from Cons.prems [unfolded x] show ?case
  proof (cases rule: drive_Cons)
    case (fin st s' sel' clk')
    note s = sess_step_at [OF fin(1)]
    show ?thesis
    proof (cases "st_Action st")
      case None
      then show ?thesis using user.run_idle [OF s None user.run_stop] fin(3,4) by simp
    next
      case (Some pa)
      then have "st_Action st = None" using sess_Next_sound [OF fin(1)] fin(2) by auto
      then show ?thesis using Some by simp
    qed
  next
    case (more st s' sel' clk' sts')
    note s = sess_step_at [OF more(1)]
    note ih = Cons.IH [OF more(4)]
    show ?thesis
    proof (cases "st_Action st")
      case None
      then show ?thesis using user.run_idle [OF s None] ih more(3) by simp
    next
      case (Some pa)
      then show ?thesis using user.run_action [OF s Some, of res] ih more(3) by simp
    qed
  qed
qed

lemma drive_sound:
  assumes "drive expf oor R In utc nxt xs s sel = Some (sts, s', sel')" "sok sel"
  shows "pool sel' = pool sel \<and> ss_fingerprint s' = ss_fingerprint s \<and> ss_bounds s' = ss_bounds s
    \<and> list_all (on_target (pool sel)) sts"
  using user.run_sound [OF drive_run [OF assms(1)]] assms(2) by simp

end

context int_source
begin

lemma drive_block:
  assumes "drive expf oor Q In utc (rot_Next R) xs s sel = Some (sts, s', sel')"
    "sel_ok bound (fst sel)" "inv (fst (snd sel))"
  shows "sel_pool (fst sel') = sel_pool (fst sel) \<and> ss_fingerprint s' = ss_fingerprint s
    \<and> ss_bounds s' = ss_bounds s \<and> list_all (on_target (sel_pool (fst sel))) sts"
  using block.drive_sound [OF assms(1)] assms(2,3) by simp

end

text \<open>C19. However a session is driven and whatever the handlers answer, every action it plans is for
  a target the block lists under the action's protocol, no wait is negative, and the browser
  identity and the branching bounds chosen at the start never change; the block's target list is
  left as it was.\<close>

theorem session_keeps_to_its_targets:
  assumes "int_source R rok bound" "sel_ok bound rs" "rok r"
    and "drive expf oor Q In utc (rot_Next R) xs s (rs, r, clk) = Some (sts, s', rs', r', clk')"
  shows "list_all (on_target (sel_pool rs)) sts
    \<and> ss_fingerprint s' = ss_fingerprint s \<and> ss_bounds s' = ss_bounds s \<and> sel_pool rs' = sel_pool rs"
  using int_source.drive_block [OF assms(1,4)] assms(2,3) by simp


definition demo_session :: "instant \<Rightarrow> int \<Rightarrow> Result option \<Rightarrow> (fakeRand, unit) session" where
  "demo_session start n prior =
     \<lparr>ss_mix = \<lparr>mx_templates = [sample_template ProtoHTTP (Fin 1)\<lparr>tm_Cause := CauseControl\<rparr>],
                mx_cumWeights = [Fin 1], mx_total = Fin 1\<rparr>,
      ss_think = Constant 0, ss_shaper = NewChainShaper None None None,
      ss_shape = \<lparr>sh_Length = None, sh_InterTask = None, sh_Abandon = Fin 0\<rparr>,
      ss_bounds = DefaultBranchBounds, ss_rand = one_half_rand\<lparr>fr_fi := nat n\<rparr>,
      ss_fingerprint = zero_Fingerprint, ss_start = start, ss_maxLen = 10, ss_step = n, ss_last = prior\<rparr>"

definition demo_action :: "string \<Rightarrow> Step" where
  "demo_action h = \<lparr>st_Wait = 0,
     st_Action = Some \<lparr>pa_Ref = \<lparr>ref_Protocol = ProtoHTTP, ref_Verb = ''get''\<rparr>, pa_Params = None,
       pa_Cause = CauseControl, pa_Nav = '''', pa_Target = demo_target h, pa_Label = ''http:get''\<rparr>,
     st_Done = False, st_Pacing = PacingShaperManaged\<rparr>"

lemmas demo_session_simps = demo_session_def one_half_rand_def fake_New_def copyScript_def
  fakeRand_ops_def fake_Float64_def tape_def abandons_def after_quit_def after_target_def
  sess_Next_def mix_Pick_def pick_at_def Shape_def sample_template_def Template_Ref_def
  zero_Step_def Ref_String_def Now_def time_sub_def sat64_def int64_min_def int64_max_def
  Observe_def demo_action_def

lemma demo_rotate:
  "rot_Next fakeRand_ops (demo_selector 0 0, demo_rand 0, \<lambda>_. 7) ProtoHTTP
     = Some (Some (demo_target ''b''), demo_selector 7 1, demo_rand 1, \<lambda>_. 7)"
  by (simp add: rot_Next_def sel_Next_def maybeRotate_def demo_selector_def demo_rand_def Since_def Now_def
        time_sub_def sat64_def int64_min_def int64_max_def fakeRand_ops_def fake_IntN_def tape_def
        fake_New_def copyScript_def Let_def)

lemma half_of_one: "f_lt (f_mul (Fin (1 / 2)) (Fin 1)) (Fin 1)"
proof -
  have "rnd (1 / 2) = (1 / 2 :: rat)" using rnd_grid [of "1 / 2" 1 "- 1"] by (simp add: power_int_def)
  then show ?thesis using f64_of_rat_small [of "1 / 2"] by (simp add: power_increasing)
qed

lemma demo_drive:
  "drive (\<lambda>x. x) (\<lambda>_. 0) fakeRand_ops noon () (rot_Next fakeRand_ops) [(3, zero_Result), (10, zero_Result)]
     (demo_session 0 0 None) (demo_selector 0 0, demo_rand 0, \<lambda>_. 7)
   = Some ([demo_action ''b'', zero_Step\<lparr>st_Done := True\<rparr>],
           demo_session 0 1 (Some zero_Result), demo_selector 7 1, demo_rand 1, \<lambda>_. 7)"
  using half_of_one demo_rotate
  by (simp add: demo_session_simps proto_defs Let_def i64_small del: f_mul.simps f_lt.simps)

theorem session_keeps_to_its_targets_witness:
  "on_target (sel_pool (demo_selector 0 0)) (demo_action ''b'')
   \<and> sel_pool (demo_selector 7 1) = sel_pool (demo_selector 0 0)"
  using session_keeps_to_its_targets [OF scripted.int_source_axioms [of 2] _ _ demo_drive]
  by (simp add: sel_ok_def cursor_ok_def demo_selector_def demo_rand_def fake_ok_def script_ok_def
      fake_New_def copyScript_def int64_max_def)

section \<open>When a session ends\<close>

lemma sess_Next_frame:
  assumes "sess_Next expf oor R In utc nxt ctx_err clk s sel = Some (a, s', sel', clk')"
  shows "ss_start s' = ss_start s \<and> ss_maxLen s' = ss_maxLen s \<and> ss_mix s' = ss_mix s
    \<and> ss_shape s' = ss_shape s"
  using assms by (cases rule: sess_Next_cases) simp_all

lemma sess_Next_in_time:
  assumes "sess_Next expf oor R In utc nxt None clk s sel = Some (Inr st, s', sel', clk')"
    and "\<not> st_Done st" "0 < ss_maxLen s"
  shows "time_sub (fst (Now clk)) (ss_start s) < ss_maxLen s"
proof (rule ccontr)
  assume "\<not> ?thesis"
  then have "sess_Next expf oor R In utc nxt None clk s sel
      = Some (Inr (zero_Step\<lparr>st_Done := True\<rparr>), s, sel, snd (Now clk))"
    using assms(3) by (auto simp: sess_Next_def split: prod.splits)
  then show False using assms(1,2) by simp
qed

lemma drive_in_time:
  assumes "drive expf oor R In utc nxt xs s sel = Some (sts, y)" "0 < ss_maxLen s"
    and "i < length sts" "\<not> st_Done (sts ! i)"
  shows "time_sub (fst (xs ! i)) (ss_start s) < ss_maxLen s"
  using assms
proof (induction xs arbitrary: s sel sts i)
  case Nil
  then show ?case by simp
next
  case (Cons x xs)
  obtain now res where x: "x = (now, res)" by (cases x)
  from Cons.prems(1) [unfolded x] show ?case
  proof (cases rule: drive_Cons)
    case (fin st s' sel' clk')
    then show ?thesis using Cons.prems(3,4) by simp
  next
    case (more st s' sel' clk' sts')
    let ?s = "if st_Action st = None then s' else Observe s' res zero_Observation"
    have f: "ss_start ?s = ss_start s" "ss_maxLen ?s = ss_maxLen s"
      using sess_Next_frame [OF more(1)] by (simp_all add: Observe_def)
    show ?thesis
    proof (cases i)
      case 0
      then show ?thesis using sess_Next_in_time [OF more(1,2) Cons.prems(2)] x by (simp add: Now_def)
    next
      case (Suc k)
      then show ?thesis using Cons.IH [OF more(4), of k] Cons.prems(2-4) f more(3) by simp
    qed
  qed
qed


text \<open>C31. The session's lifetime: its length is drawn once, within the bounds its distribution
  declares, and when it is positive every step but the last is planned strictly before that
  length has elapsed on the session's clock, whatever happens in between.\<close>

theorem session_never_outlives_its_length:
  assumes "unit_source R rok" "rok r0"
    and "NewSession expf oor R spec True True r0 clk = Some (Inr (s, r0', clk'))"
    and "sh_Length (sp_Shape spec) = Some D" "dist_sized D"
    and "drive expf oor R In utc nxt xs s sel = Some (sts, y)"
  shows "declared_bounds D (ss_maxLen s) \<and> ss_start s = fst (Now clk)
    \<and> (\<forall>i. i < length sts \<and> \<not> st_Done (sts ! i) \<and> 0 < ss_maxLen s \<longrightarrow>
          time_sub (fst (xs ! i)) (ss_start s) < ss_maxLen s)"
proof -
  obtain r r1 where s: "rand_Split R r0 = Some (r, r0')" "Sample expf oor R D r = Some (ss_maxLen s, r1)"
    "ss_start s = fst (Now clk)"
    using assms(3,4)
    by (cases "Now clk") (auto simp: NewSession_def bind_eq_Some_conv split: if_splits)
  have "rok r" using unit_source.Split_inv [OF assms(1,2) s(1)] by simp
  then have "declared_bounds D (ss_maxLen s)"
    using unit_source.Sample_declared [OF assms(1) _ s(2) assms(5)] by blast
  then show ?thesis using drive_in_time [OF assms(6)] s(3) by blast
qed

definition demo_spec :: "unit SessionSpec" where
  "demo_spec = \<lparr>sp_Mix = ss_mix (demo_session 0 0 None), sp_ThinkTime = None, sp_Jitter = None,
     sp_Burst = None, sp_TimeOfDay = None, sp_Prints = None,
     sp_Shape = \<lparr>sh_Length = Some (Constant 10), sh_InterTask = None, sh_Abandon = Fin 0\<rparr>,
     sp_Bounds = DefaultBranchBounds\<rparr>"

definition demo_born :: "(fakeRand, unit) session" where
  "demo_born = (demo_session 0 0 None)\<lparr>ss_shape := sp_Shape demo_spec, ss_rand := one_half_rand\<rparr>"

lemma demo_NewSession:
  "NewSession (\<lambda>x. x) (\<lambda>_. 0) fakeRand_ops demo_spec True True one_half_rand (\<lambda>_. 0)
     = Some (Inr (demo_born, one_half_rand, \<lambda>_. 0))"
  by (simp add: NewSession_def demo_born_def demo_session_simps demo_spec_def mix_Len_def fake_Split_def clampNonNeg_def)

lemma demo_born_drive:
  "drive (\<lambda>x. x) (\<lambda>_. 0) fakeRand_ops noon () (rot_Next fakeRand_ops) [(3, zero_Result), (10, zero_Result)]
     demo_born (demo_selector 0 0, demo_rand 0, \<lambda>_. 7)
   = Some ([demo_action ''b'', zero_Step\<lparr>st_Done := True\<rparr>],
           (demo_session 0 1 (Some zero_Result))\<lparr>ss_shape := sp_Shape demo_spec\<rparr>, demo_selector 7 1, demo_rand 1, \<lambda>_. 7)"
  using half_of_one demo_rotate
  by (simp add: demo_session_simps demo_born_def demo_spec_def proto_defs Let_def i64_small del: f_mul.simps f_lt.simps)

theorem session_never_outlives_its_length_witness:
  "declared_bounds (Constant 10) (ss_maxLen demo_born) \<and> time_sub 3 (ss_start demo_born) < ss_maxLen demo_born"
proof -
  have "sh_Length (sp_Shape demo_spec) = Some (Constant 10)" by (simp add: demo_spec_def)
  moreover have "dist_sized (Constant 10)" by (simp add: dist_sized_def)
  ultimately have k: "declared_bounds (Constant 10) (ss_maxLen demo_born) \<and> ss_start demo_born = fst (Now (\<lambda>_. 0))
    \<and> (\<forall>i. i < length [demo_action ''b'', zero_Step\<lparr>st_Done := True\<rparr>]
          \<and> \<not> st_Done ([demo_action ''b'', zero_Step\<lparr>st_Done := True\<rparr>] ! i) \<and> 0 < ss_maxLen demo_born
      \<longrightarrow> time_sub (fst ([(3, zero_Result), (10, zero_Result)] ! i)) (ss_start demo_born) < ss_maxLen demo_born)"
    by (rule session_never_outlives_its_length [OF scripted.unit_source_axioms [of 0] one_half_ok
          demo_NewSession _ _ demo_born_drive])
  moreover have "\<not> st_Done (demo_action ''b'')" "0 < ss_maxLen demo_born"
    by (simp_all add: demo_action_def demo_born_def demo_session_def)
  ultimately show ?thesis using k [THEN conjunct2, THEN conjunct2, rule_format, of 0] by simp
qed

section \<open>A mix without targets\<close>

lemma sess_Next_untargeted:
  assumes "\<And>p. p \<in> tm_Protocol ` set (mx_templates (ss_mix s)) \<Longrightarrow> nxt sel p = Some (None, sel)"
    and "mix_ok (ss_mix s)" "ss_maxLen s \<le> 0" "sh_Abandon (ss_shape s) = Fin 0"
    and "rand_Float64 R (ss_rand s) = Some (u, r')"
  shows "sess_Next expf oor R In utc nxt None (\<lambda>_. now) s sel =
    Some (Inr zero_Step, s\<lparr>ss_rand := r', ss_step := i64 (ss_step s + 1)\<rparr>, sel, \<lambda>_. now)"
proof -
  obtain t where t: "mix_Pick R (ss_mix s) (ss_rand s) = Some (t, r')"
    using assms(5) by (simp add: mix_Pick_at [OF assms(2)])
  then have "nxt sel (tm_Protocol t) = Some (None, sel)"
    using mix_Pick_mem [OF assms(2) t] assms(1) by blast
  then show ?thesis using t assms(3,4)
    by (simp add: sess_Next_def abandons_def after_quit_def after_target_def Now_def zero_Step_def)
qed

text \<open>The limit of the benign skip: an unbounded session whose mix weights only protocols without
  targets answers the empty step (no wait, no action, not done) on every call, for ever.\<close>

theorem untargeted_session_spins:
  assumes "\<And>p. p \<in> tm_Protocol ` set (mx_templates (ss_mix s)) \<Longrightarrow> nxt sel p = Some (None, sel)"
    and "mix_ok (ss_mix s)" "ss_maxLen s \<le> 0" "sh_Abandon (ss_shape s) = Fin 0"
    and "\<And>r. rand_Float64 R r \<noteq> None"
  shows "\<exists>s'. drive expf oor R In utc nxt xs s sel = Some (replicate (length xs) zero_Step, s', sel)"
  using assms
proof (induction xs arbitrary: s)
  case Nil
  then show ?case by simp
next
  case (Cons x xs)
  obtain u r' where u: "rand_Float64 R (ss_rand s) = Some (u, r')"
    using Cons.prems(5) [of "ss_rand s"] by auto
  obtain now res where x: "x = (now, res)" by (cases x)
  let ?s = "s\<lparr>ss_rand := r', ss_step := i64 (ss_step s + 1)\<rparr>"
  have n: "sess_Next expf oor R In utc nxt None (\<lambda>_. now) s sel = Some (Inr zero_Step, ?s, sel, \<lambda>_. now)"
    by (rule sess_Next_untargeted) (use Cons.prems u in simp_all)
  obtain s' where "drive expf oor R In utc nxt xs ?s sel = Some (replicate (length xs) zero_Step, s', sel)"
    using Cons.IH [of ?s] Cons.prems by auto
  then show ?case using n by (simp add: x zero_Step_def)
qed


definition steady :: "unit Rand" where
  "steady = \<lparr>rand_Float64 = \<lambda>r. Some (Fin (1 / 2), r), rand_NormFloat64 = \<lambda>r. None,
     rand_ExpFloat64 = \<lambda>r. None, rand_IntN = \<lambda>r n. None, rand_Int63n = \<lambda>r n. None,
     rand_Perm = \<lambda>r n. None, rand_Split = \<lambda>r. None\<rparr>"

definition endless :: "(unit, unit) session" where
  "endless = \<lparr>ss_mix = ss_mix (demo_session 0 0 None), ss_think = Constant 0,
     ss_shaper = NewChainShaper None None None,
     ss_shape = \<lparr>sh_Length = None, sh_InterTask = None, sh_Abandon = Fin 0\<rparr>,
     ss_bounds = DefaultBranchBounds, ss_rand = (), ss_fingerprint = zero_Fingerprint, ss_start = 0,
     ss_maxLen = 0, ss_step = 0, ss_last = None\<rparr>"

theorem untargeted_session_spins_witness:
  "\<exists>s'. drive (\<lambda>x. x) (\<lambda>_. 0) steady noon () rr_Next [(0, zero_Result), (0, zero_Result)] endless
      (NewRoundRobinSelector (\<lambda>_. []))
    = Some ([zero_Step, zero_Step], s', NewRoundRobinSelector (\<lambda>_. []))"
  using untargeted_session_spins [of endless rr_Next "NewRoundRobinSelector (\<lambda>_. [])" steady
      "\<lambda>x. x" "\<lambda>_. 0" noon "()" "[(0, zero_Result), (0, zero_Result)]"]
  by (simp add: endless_def demo_session_def rr_Next_def NewRoundRobinSelector_def mix_ok_def steady_def)

end
