(* ===== verification/Breaker.thy ===== *)
theory Breaker
  imports Clock
begin

text \<open>
  The per-target circuit breaker (\<open>internal/safety/breaker.go\<close>). Every method holds the
  breaker's mutex for its whole body, so an execution is a sequence of method calls; the
  clock readings a call makes come from its \<open>clock\<close> argument.
\<close>

section \<open>State and operations\<close>

datatype BreakerState = BreakerClosed | BreakerOpen | BreakerHalfOpen

record Breaker =
  br_threshold :: int
  br_cooldown :: duration
  br_state :: BreakerState
  br_fails :: int
  br_openedAt :: instant

definition NewBreaker :: "int \<Rightarrow> duration \<Rightarrow> Breaker" where
  "NewBreaker threshold cooldown =
     \<lparr>br_threshold = (if threshold < 1 then 1 else threshold), br_cooldown = cooldown,
      br_state = BreakerClosed, br_fails = 0, br_openedAt = zero_time\<rparr>"

definition open_breaker :: "clock \<Rightarrow> Breaker \<Rightarrow> Breaker \<times> clock" where
  "open_breaker clk b =
     (case Now clk of (now, clk1) \<Rightarrow>
        (b\<lparr>br_state := BreakerOpen, br_openedAt := now\<rparr>, clk1))"

definition Allow :: "clock \<Rightarrow> Breaker \<Rightarrow> Breaker \<times> bool \<times> clock" where
  "Allow clk b =
     (case br_state b of
        BreakerClosed \<Rightarrow> (b, True, clk)
      | BreakerHalfOpen \<Rightarrow> (b, False, clk)
      | BreakerOpen \<Rightarrow>
          (case Since clk (br_openedAt b) of (el, clk1) \<Rightarrow>
             if el \<ge> br_cooldown b then (b\<lparr>br_state := BreakerHalfOpen\<rparr>, True, clk1)
             else (b, False, clk1)))"

definition RecordSuccess :: "Breaker \<Rightarrow> Breaker" where
  "RecordSuccess b = b\<lparr>br_state := BreakerClosed, br_fails := 0\<rparr>"

definition RecordFailure :: "clock \<Rightarrow> Breaker \<Rightarrow> Breaker \<times> clock" where
  "RecordFailure clk b =
     (if br_state b = BreakerHalfOpen then open_breaker clk b
      else let b1 = b\<lparr>br_fails := i64 (br_fails b + 1)\<rparr>
           in if br_fails b1 \<ge> br_threshold b1 then open_breaker clk b1 else (b1, clk))"

definition ForceOpen :: "clock \<Rightarrow> Breaker \<Rightarrow> Breaker \<times> clock" where
  "ForceOpen clk b = open_breaker clk b"

definition State :: "Breaker \<Rightarrow> BreakerState" where
  "State b = br_state b"

section \<open>Executions\<close>

datatype brk_call = CAllow | CSuccess | CFailure | CForceOpen

text \<open>One call at instant \<open>t\<close> (the reading it makes, when it makes one) and its answer.\<close>

definition brk_apply :: "brk_call \<Rightarrow> instant \<Rightarrow> Breaker \<Rightarrow> Breaker \<times> bool option" where
  "brk_apply c t b =
     (case c of
        CAllow \<Rightarrow> (case Allow (\<lambda>_. t) b of (b', ok, _) \<Rightarrow> (b', Some ok))
      | CSuccess \<Rightarrow> (RecordSuccess b, None)
      | CFailure \<Rightarrow> (fst (RecordFailure (\<lambda>_. t) b), None)
      | CForceOpen \<Rightarrow> (fst (ForceOpen (\<lambda>_. t) b), None))"

fun brk_run :: "(brk_call \<times> instant) list \<Rightarrow> Breaker \<Rightarrow> Breaker \<times> bool option list" where
  "brk_run [] b = (b, [])"
| "brk_run ((c, t) # cs) b =
     (case brk_apply c t b of (b1, r) \<Rightarrow> case brk_run cs b1 of (b2, rs) \<Rightarrow> (b2, r # rs))"

lemmas breaker_ops =
  Allow_def RecordSuccess_def RecordFailure_def ForceOpen_def open_breaker_def Let_def
  Now_def Since_def

section \<open>Invariant\<close>

definition brk_inv :: "Breaker \<Rightarrow> bool" where
  "brk_inv b \<longleftrightarrow> 1 \<le> br_threshold b \<and> br_threshold b \<le> int64_max
     \<and> (br_state b = BreakerClosed \<longrightarrow> 0 \<le> br_fails b \<and> br_fails b < br_threshold b)"

lemma brk_inv_New: "threshold \<le> int64_max \<Longrightarrow> brk_inv (NewBreaker threshold cd)"
  by (simp add: brk_inv_def NewBreaker_def int64_max_def)

lemma brk_inv_apply: "brk_inv b \<Longrightarrow> brk_inv (fst (brk_apply c t b))"
  by (cases c; cases "br_state b")
     (auto simp: brk_apply_def breaker_ops brk_inv_def i64_small int64_max_def)

lemma brk_run_inv: "brk_inv b \<Longrightarrow> brk_inv (fst (brk_run cs b))"
  by (induction cs arbitrary: b) (auto simp: split_beta brk_inv_apply)

section \<open>Opening on a streak\<close>

definition streak :: "bool list \<Rightarrow> nat" where
  "streak outcomes = length (takeWhile (\<lambda>ok. \<not> ok) (rev outcomes))"

definition record_outcomes :: "clock \<Rightarrow> bool list \<Rightarrow> Breaker \<Rightarrow> Breaker" where
  "record_outcomes clk outcomes b =
     foldl (\<lambda>b ok. if ok then RecordSuccess b else fst (RecordFailure clk b)) b outcomes"

lemma streak_snoc [simp]:
  "streak (os @ [ok]) = (if ok then 0 else Suc (streak os))" "streak [] = 0"
  by (simp_all add: streak_def)

text \<open>C23. The breaker of a target whose requests finish with these outcomes (true = success) is
  open exactly when the trailing run of failures has reached the threshold, and closed
  otherwise; until it opens, its counter is the length of that run.\<close>

theorem breaker_opens_on_failure_streak:
  assumes "threshold \<le> int64_max"
  shows "let b = record_outcomes clk os (NewBreaker threshold cd) in
     br_state b = (if max 1 threshold \<le> int (streak os) then BreakerOpen else BreakerClosed)
   \<and> (br_state b = BreakerClosed \<longrightarrow> br_fails b = int (streak os))"
proof (induction os rule: rev_induct)
  case Nil
  then show ?case by (simp add: record_outcomes_def NewBreaker_def)
next
  case (snoc ok os)
  let ?b = "record_outcomes clk os (NewBreaker threshold cd)"
  have th: "br_threshold ?b = max 1 threshold"
    by (induction os rule: rev_induct)
       (simp_all add: record_outcomes_def NewBreaker_def breaker_ops)
  have "i64 (int (streak os) + 1) = int (streak os) + 1" if "int (streak os) < max 1 threshold"
    using that assms by (intro i64_id) (simp add: in_i64_def int64_min_def int64_max_def)
  moreover have "i64 1 = 1" by (simp add: i64_def)
  ultimately show ?case
    using snoc.IH th
    by (cases ok) (auto simp: record_outcomes_def breaker_ops not_le split: if_splits)
qed

theorem breaker_opens_on_failure_streak_witness:
  "br_state (record_outcomes (\<lambda>_. 0) [False, True, False, False] (NewBreaker 2 5)) = BreakerOpen"
  using breaker_opens_on_failure_streak [of 2 "\<lambda>_. 0" "[False, True, False, False]" 5]
  by (simp add: Let_def streak_def int64_max_def)

section \<open>Cooldown and the single probe\<close>

lemma Allow_open:
  "br_state b = BreakerOpen \<Longrightarrow>
     Allow clk b = (if br_cooldown b \<le> time_sub (clk 0) (br_openedAt b)
       then (b\<lparr>br_state := BreakerHalfOpen\<rparr>, True, \<lambda>i. clk (Suc i))
       else (b, False, \<lambda>i. clk (Suc i)))"
  by (simp add: breaker_ops)

definition allows :: "instant list \<Rightarrow> Breaker \<Rightarrow> bool option list" where
  "allows ts b = snd (brk_run (map (\<lambda>t. (CAllow, t)) ts) b)"

lemma allows_Nil [simp]: "allows [] b = []"
  by (simp add: allows_def)

lemma allows_halfopen: "br_state b = BreakerHalfOpen \<Longrightarrow> allows ts b = map (\<lambda>_. Some False) ts"
  by (induction ts) (simp_all add: allows_def brk_apply_def breaker_ops split_beta)

lemma allows_open_Cons:
  "br_state b = BreakerOpen \<Longrightarrow> allows (t # ts) b =
     (if br_cooldown b \<le> time_sub t (br_openedAt b) then Some True # map (\<lambda>_. Some False) ts
      else Some False # allows ts b)"
  using allows_halfopen [of "b\<lparr>br_state := BreakerHalfOpen\<rparr>" ts]
  by (simp add: allows_def brk_apply_def breaker_ops split_beta)

text \<open>C24. While a target is open and no outcome is recorded, \<open>Allow\<close> refuses every request
  before the cooldown has elapsed, admits the first one asked at or after it, and refuses all
  others: one probe, whatever the number of callers and the clock's readings.\<close>

theorem breaker_admits_single_probe:
  assumes "br_state b = BreakerOpen"
  shows "allows ts b =
     (case List.find (\<lambda>i. br_cooldown b \<le> time_sub (ts ! i) (br_openedAt b)) [0..<length ts] of
        None \<Rightarrow> map (\<lambda>_. Some False) ts
      | Some i \<Rightarrow> (map (\<lambda>_. Some False) ts)[i := Some True])"
proof (induction ts)
  case Nil
  then show ?case by simp
next
  case (Cons t ts)
  have shift: "List.find (\<lambda>i. br_cooldown b \<le> time_sub ((t # ts) ! i) (br_openedAt b))
        (map Suc [0..<length ts]) =
      map_option Suc (List.find (\<lambda>i. br_cooldown b \<le> time_sub (ts ! i) (br_openedAt b)) [0..<length ts])"
    for ts by (simp add: find_map comp_def)
  show ?case
  proof (cases "br_cooldown b \<le> time_sub t (br_openedAt b)")
    case True
    then show ?thesis using assms by (simp add: allows_open_Cons upt_conv_Cons del: upt_Suc)
  next
    case False
    have "[0..<length (t # ts)] = 0 # map Suc [0..<length ts]"
      by (simp add: upt_conv_Cons map_Suc_upt del: upt_Suc)
    then show ?thesis
      using assms False Cons.IH shift
      by (simp add: allows_open_Cons split: option.splits del: upt_Suc)
  qed
qed

theorem breaker_admits_single_probe_witness:
  "allows [3, 12, 13] ((NewBreaker 1 10)\<lparr>br_state := BreakerOpen, br_openedAt := 0\<rparr>) =
     [Some False, Some True, Some False]"
  by (subst breaker_admits_single_probe)
     (simp_all add: NewBreaker_def time_sub_def sat64_def int64_min_def int64_max_def
        upt_conv_Cons numeral_eq_Suc)

text \<open>The probe decides: a failed probe re-opens the target with the cooldown restarted at
  the failure, a successful one closes it with the streak cleared, and a closed target admits.\<close>

theorem breaker_probe_outcome:
  assumes "br_state b = BreakerHalfOpen"
  shows "br_state (fst (RecordFailure clk b)) = BreakerOpen
       \<and> br_openedAt (fst (RecordFailure clk b)) = clk 0
       \<and> br_state (RecordSuccess b) = BreakerClosed \<and> br_fails (RecordSuccess b) = 0
       \<and> Allow clk (RecordSuccess b) = (RecordSuccess b, True, clk)
       \<and> (\<forall>t. in_i64 (br_cooldown b) \<and> clk 0 \<le> t \<and> t < clk 0 + br_cooldown b \<longrightarrow>
            fst (snd (Allow (\<lambda>_. t) (fst (RecordFailure clk b)))) = False)"
  using assms time_sub_ge_iff [of "br_cooldown b" _ "clk 0"]
  by (auto simp: breaker_ops)

theorem breaker_probe_outcome_witness:
  "br_openedAt (fst (RecordFailure (\<lambda>_. 7) ((NewBreaker 1 10)\<lparr>br_state := BreakerHalfOpen\<rparr>))) = 7"
  using breaker_probe_outcome [of "(NewBreaker 1 10)\<lparr>br_state := BreakerHalfOpen\<rparr>" "\<lambda>_. 7"]
  by simp

end
