(* ===== verification/Tripwire.thy ===== *)
theory Tripwire
  imports Prelude
begin

text \<open>
  The run-level latch (\<open>internal/safety/tripwire.go\<close>): its operations as functions, and the
  interleaved executions of any number of goroutines that call them, where every atomic
  access of \<open>count\<close>, \<open>tripped\<close> and the mutex-guarded \<open>reason\<close> is a step of its own.
\<close>

section \<open>The operations\<close>

record Tripwire =
  tw_budget :: int
  tw_count :: int
  tw_tripped :: bool
  tw_reason :: string

definition NewTripwire :: "int \<Rightarrow> Tripwire" where
  "NewTripwire totalRequestBudget =
     \<lparr>tw_budget = totalRequestBudget, tw_count = 0, tw_tripped = False, tw_reason = ''''\<rparr>"

definition Trip :: "Tripwire \<Rightarrow> string \<Rightarrow> Tripwire" where
  "Trip t r = (if tw_tripped t then t else t\<lparr>tw_tripped := True, tw_reason := r\<rparr>)"

definition Tripped :: "Tripwire \<Rightarrow> bool" where
  "Tripped t = tw_tripped t"

definition Reason :: "Tripwire \<Rightarrow> string" where
  "Reason t = tw_reason t"

definition budget_reason :: string where
  "budget_reason = ''total request budget exhausted''"

definition over_budget :: "Tripwire \<Rightarrow> int \<Rightarrow> bool" where
  "over_budget t n \<longleftrightarrow> tw_budget t > 0 \<and> n > tw_budget t"

definition CountRequest :: "Tripwire \<Rightarrow> Tripwire \<times> bool" where
  "CountRequest t =
     (let n = i64 (tw_count t + 1);
          t1 = t\<lparr>tw_count := n\<rparr>;
          t2 = (if over_budget t1 n then Trip t1 budget_reason else t1)
      in (t2, Tripped t2))"

section \<open>Interleaved executions\<close>

text \<open>
  Where a goroutine stands. \<open>TwCAS r k\<close> is about to compare-and-swap \<open>tripped\<close>, \<open>TwWrite r k\<close>
  has won and is about to store the reason; \<open>k\<close> is the ticket (the counter value it drew) when
  the \<open>Trip\<close> is the one inside \<open>CountRequest\<close>. \<open>TwLoad n\<close> is about to read the latch it reports.
\<close>

datatype tw_pc = TwIdle | TwCAS string "int option" | TwWrite string "int option" | TwLoad int

definition after_trip :: "int option \<Rightarrow> tw_pc" where
  "after_trip k = (case k of None \<Rightarrow> TwIdle | Some n \<Rightarrow> TwLoad n)"

text \<open>\<open>ts_returned\<close> is the history: the ticket and the answer of each finished \<open>CountRequest\<close>.\<close>

record tw_sys =
  ts_tw :: Tripwire
  ts_pc :: "nat \<Rightarrow> tw_pc"
  ts_returned :: "(int \<times> bool) list"

definition at_pc :: "tw_sys \<Rightarrow> nat \<Rightarrow> tw_pc \<Rightarrow> tw_sys" where
  "at_pc s i p = s\<lparr>ts_pc := (ts_pc s)(i := p)\<rparr>"

inductive tw_step :: "tw_sys \<Rightarrow> tw_sys \<Rightarrow> bool" where
  call_trip: "ts_pc s i = TwIdle \<Longrightarrow> tw_step s (at_pc s i (TwCAS r None))"
| call_count:
    "ts_pc s i = TwIdle \<Longrightarrow> tw_count (ts_tw s) < int64_max \<Longrightarrow>
     n = i64 (tw_count (ts_tw s) + 1) \<Longrightarrow>
     tw_step s (at_pc (s\<lparr>ts_tw := (ts_tw s)\<lparr>tw_count := n\<rparr>\<rparr>) i
       (if over_budget (ts_tw s) n then TwCAS budget_reason (Some n) else TwLoad n))"
| cas_win:
    "ts_pc s i = TwCAS r k \<Longrightarrow> \<not> tw_tripped (ts_tw s) \<Longrightarrow>
     tw_step s (at_pc (s\<lparr>ts_tw := (ts_tw s)\<lparr>tw_tripped := True\<rparr>\<rparr>) i (TwWrite r k))"
| cas_lose:
    "ts_pc s i = TwCAS r k \<Longrightarrow> tw_tripped (ts_tw s) \<Longrightarrow>
     tw_step s (at_pc s i (after_trip k))"
| write_reason:
    "ts_pc s i = TwWrite r k \<Longrightarrow>
     tw_step s (at_pc (s\<lparr>ts_tw := (ts_tw s)\<lparr>tw_reason := r\<rparr>\<rparr>) i (after_trip k))"
| load:
    "ts_pc s i = TwLoad n \<Longrightarrow>
     tw_step s (at_pc (s\<lparr>ts_returned := ts_returned s @ [(n, tw_tripped (ts_tw s))]\<rparr>) i TwIdle)"

definition tw_start :: "int \<Rightarrow> tw_sys" where
  "tw_start b = \<lparr>ts_tw = NewTripwire b, ts_pc = \<lambda>_. TwIdle, ts_returned = []\<rparr>"

definition tw_reachable :: "int \<Rightarrow> tw_sys \<Rightarrow> bool" where
  "tw_reachable b s \<longleftrightarrow> tw_step\<^sup>*\<^sup>* (tw_start b) s"

lemma tw_reachable_induct [consumes 1, case_names start step]:
  assumes "tw_reachable b s" "P (tw_start b)"
    "\<And>s s'. tw_reachable b s \<Longrightarrow> P s \<Longrightarrow> tw_step s s' \<Longrightarrow> P s'"
  shows "P s"
proof -
  have "tw_step\<^sup>*\<^sup>* (tw_start b) s" using assms(1) by (simp add: tw_reachable_def)
  then show ?thesis
    by (induction rule: rtranclp_induct) (auto intro: assms(2,3) simp: tw_reachable_def)
qed

section \<open>The latch\<close>

definition ticket :: "tw_pc \<Rightarrow> int option" where
  "ticket p = (case p of TwIdle \<Rightarrow> None | TwCAS r k \<Rightarrow> k | TwWrite r k \<Rightarrow> k | TwLoad n \<Rightarrow> Some n)"

definition writing :: "tw_pc \<Rightarrow> bool" where
  "writing p \<longleftrightarrow> (case p of TwWrite r k \<Rightarrow> True | _ \<Rightarrow> False)"

definition latch_inv :: "tw_sys \<Rightarrow> bool" where
  "latch_inv s \<longleftrightarrow>
     (\<forall>i. writing (ts_pc s i) \<longrightarrow> tw_tripped (ts_tw s) \<and> tw_reason (ts_tw s) = '''')
   \<and> (\<forall>i j. writing (ts_pc s i) \<and> writing (ts_pc s j) \<longrightarrow> i = j)
   \<and> (\<not> tw_tripped (ts_tw s) \<longrightarrow> tw_reason (ts_tw s) = '''')"

lemma pc_simps [simp]:
  "ticket TwIdle = None" "ticket (TwCAS r k) = k" "ticket (TwWrite r k) = k"
  "ticket (TwLoad n) = Some n" "ticket (after_trip k) = k"
  "\<not> writing TwIdle" "\<not> writing (TwCAS r k)" "writing (TwWrite r k)" "\<not> writing (TwLoad n)"
  "\<not> writing (after_trip k)"
  by (simp_all add: ticket_def writing_def after_trip_def split: option.splits)

lemma at_pc_simps [simp]:
  "ts_pc (at_pc s i p) j = (if j = i then p else ts_pc s j)"
  "ts_tw (at_pc s i p) = ts_tw s" "ts_returned (at_pc s i p) = ts_returned s"
  by (simp_all add: at_pc_def)

lemma latch_inv_start: "latch_inv (tw_start b)"
  by (simp add: latch_inv_def tw_start_def NewTripwire_def)

lemma latch_inv_shrink:
  assumes "latch_inv s" "\<And>j. writing (ts_pc s' j) \<Longrightarrow> writing (ts_pc s j)"
    "tw_tripped (ts_tw s') = tw_tripped (ts_tw s)" "tw_reason (ts_tw s') = tw_reason (ts_tw s)"
  shows "latch_inv s'"
  using assms unfolding latch_inv_def by metis

lemma latch_inv_step: "tw_step s s' \<Longrightarrow> latch_inv s \<Longrightarrow> latch_inv s'"
proof (induction rule: tw_step.induct)
  case (write_reason s i r k)
  then have "writing (ts_pc s i)" by simp
  with write_reason.prems have "tw_tripped (ts_tw s)" "\<And>j. writing (ts_pc s j) \<Longrightarrow> j = i"
    unfolding latch_inv_def by blast+
  then show ?case by (simp add: latch_inv_def) blast
next
  case (cas_win s i r k)
  then have "\<not> writing (ts_pc s j)" for j unfolding latch_inv_def by blast
  then show ?case using cas_win by (simp add: latch_inv_def)
next
  case (call_trip s i r)
  show ?case by (rule latch_inv_shrink [OF call_trip.prems]) (simp_all split: if_splits)
next
  case (call_count s i n)
  show ?case by (rule latch_inv_shrink [OF call_count.prems]) (simp_all split: if_splits)
next
  case (cas_lose s i r k)
  show ?case by (rule latch_inv_shrink [OF cas_lose.prems]) (simp_all split: if_splits)
next
  case (load s i n)
  show ?case by (rule latch_inv_shrink [OF load.prems]) (simp_all split: if_splits)
qed

lemma tw_reachable_latch: "tw_reachable b s \<Longrightarrow> latch_inv s"
  by (induction rule: tw_reachable_induct) (auto intro: latch_inv_start latch_inv_step)

lemma tripped_step: "tw_step s s' \<Longrightarrow> tw_tripped (ts_tw s) \<Longrightarrow> tw_tripped (ts_tw s')"
  by (induction rule: tw_step.induct) auto

lemma reason_step:
  "tw_step s s' \<Longrightarrow> latch_inv s \<Longrightarrow> tw_reason (ts_tw s) \<noteq> '''' \<Longrightarrow>
     tw_reason (ts_tw s') = tw_reason (ts_tw s)"
proof (induction rule: tw_step.induct)
  case (write_reason s i r k)
  then have "writing (ts_pc s i)" by simp
  with write_reason.prems show ?case unfolding latch_inv_def by blast
qed simp_all

text \<open>C20. No auto-reset and the first reason wins, under every interleaving: once the latch is
  set it stays set, once a reason is stored no later \<open>Trip\<close> replaces it, and an unset latch
  has no reason.\<close>

theorem tripwire_latches_first_reason:
  assumes "tw_reachable b s" and "tw_step\<^sup>*\<^sup>* s s'"
  shows "(Tripped (ts_tw s) \<longrightarrow> Tripped (ts_tw s'))
       \<and> (Reason (ts_tw s) \<noteq> '''' \<longrightarrow> Reason (ts_tw s') = Reason (ts_tw s))
       \<and> (\<not> Tripped (ts_tw s') \<longrightarrow> Reason (ts_tw s') = '''')"
proof -
  have "latch_inv s" using assms(1) by (rule tw_reachable_latch)
  with assms(2) have "latch_inv s' \<and> (tw_tripped (ts_tw s) \<longrightarrow> tw_tripped (ts_tw s'))
      \<and> (tw_reason (ts_tw s) \<noteq> '''' \<longrightarrow> tw_reason (ts_tw s') = tw_reason (ts_tw s))"
    by (induction rule: rtranclp_induct) (auto simp: tripped_step reason_step intro: latch_inv_step)
  then show ?thesis by (simp add: Tripped_def Reason_def latch_inv_def)
qed

theorem tripwire_latches_first_reason_witness:
  "\<exists>(s :: tw_sys) s'. Tripped (ts_tw s) \<and> tw_step\<^sup>*\<^sup>* s s' \<and> Tripped (ts_tw s')"
proof -
  let ?s1 = "at_pc (tw_start 3) 0 (TwCAS ''storm'' None)"
  let ?s2 = "at_pc (?s1\<lparr>ts_tw := (ts_tw ?s1)\<lparr>tw_tripped := True\<rparr>\<rparr>) 0 (TwWrite ''storm'' None)"
  have 1: "tw_step (tw_start 3) ?s1" by (rule tw_step.call_trip) (simp add: tw_start_def)
  have 2: "tw_step ?s1 ?s2"
    by (rule tw_step.cas_win) (simp_all add: tw_start_def NewTripwire_def)
  have 3: "tw_step ?s2 (at_pc (?s2\<lparr>ts_tw := (ts_tw ?s2)\<lparr>tw_reason := ''storm''\<rparr>\<rparr>) 0 (after_trip None))"
    (is "tw_step _ ?s3") by (rule tw_step.write_reason) simp
  have r: "tw_reachable 3 ?s2"
    unfolding tw_reachable_def using 1 2 by (meson converse_rtranclp_into_rtranclp r_into_rtranclp)
  have t: "Tripped (ts_tw ?s2)" by (simp add: Tripped_def)
  have "tw_step\<^sup>*\<^sup>* ?s2 ?s3" using 3 by (rule r_into_rtranclp)
  with tripwire_latches_first_reason [OF r this] t show ?thesis by blast
qed

section \<open>The budget\<close>

text \<open>The tickets in flight (\<open>T\<close>, by goroutine) and returned (\<open>R\<close>) never repeat.\<close>

definition tickets_ok :: "int \<Rightarrow> (nat \<Rightarrow> int option) \<Rightarrow> int list \<Rightarrow> bool" where
  "tickets_ok c T R \<longleftrightarrow> distinct R \<and> (\<forall>n \<in> set R. 1 \<le> n \<and> n \<le> c)
     \<and> (\<forall>i n. T i = Some n \<longrightarrow> 1 \<le> n \<and> n \<le> c \<and> n \<notin> set R)
     \<and> (\<forall>i j n. T i = Some n \<longrightarrow> T j = Some n \<longrightarrow> i = j)"

definition tickets :: "tw_sys \<Rightarrow> nat \<Rightarrow> int option" where
  "tickets s i = ticket (ts_pc s i)"

definition budget_inv :: "int \<Rightarrow> tw_sys \<Rightarrow> bool" where
  "budget_inv b s \<longleftrightarrow>
     tw_budget (ts_tw s) = b \<and> 0 \<le> tw_count (ts_tw s)
   \<and> tickets_ok (tw_count (ts_tw s)) (tickets s) (map fst (ts_returned s))
   \<and> (\<forall>i n. ts_pc s i = TwLoad n \<longrightarrow> b < n \<longrightarrow> tw_tripped (ts_tw s))
   \<and> (\<forall>p \<in> set (ts_returned s). b < fst p \<longrightarrow> snd p)"

lemma tickets_draw:
  assumes "tickets_ok c T R" "T i = None" "0 \<le> c"
  shows "tickets_ok (c + 1) (T(i := Some (c + 1))) R"
proof -
  have R: "distinct R" "\<forall>n \<in> set R. 1 \<le> n \<and> n \<le> c" using assms(1) by (simp_all add: tickets_ok_def)
  have T: "1 \<le> n \<and> n \<le> c \<and> n \<notin> set R" if "T j = Some n" for j n
    using assms(1) that unfolding tickets_ok_def by blast
  have inj: "j = k" if "T j = Some n" "T k = Some n" for j k n
    using assms(1) that unfolding tickets_ok_def by blast
  have new: "c + 1 \<notin> set R" "T j \<noteq> Some (c + 1)" for j using R T [of j "c + 1"] by auto
  show ?thesis
    unfolding tickets_ok_def
  proof (intro conjI allI ballI impI)
    fix j k n assume "(T(i := Some (c + 1))) j = Some n" "(T(i := Some (c + 1))) k = Some n"
    then show "j = k" using new(2) [of j] new(2) [of k] inj [of j n k] by (simp split: if_splits)
  qed (use R assms(3) new in \<open>auto dest!: T split: if_splits\<close>)
qed

lemma tickets_finish:
  assumes "tickets_ok c T R" "T i = Some n"
  shows "tickets_ok c (T(i := None)) (R @ [n])"
proof -
  have R: "distinct R" "\<forall>n \<in> set R. 1 \<le> n \<and> n \<le> c" using assms(1) by (simp_all add: tickets_ok_def)
  have T: "1 \<le> n \<and> n \<le> c \<and> n \<notin> set R" if "T j = Some n" for j n
    using assms(1) that unfolding tickets_ok_def by blast
  have inj: "j = k" if "T j = Some n" "T k = Some n" for j k n
    using assms(1) that unfolding tickets_ok_def by blast
  show ?thesis
    unfolding tickets_ok_def
  proof (intro conjI allI ballI impI)
    fix j k m assume "(T(i := None)) j = Some m" "(T(i := None)) k = Some m"
    then show "j = k" using inj [of j m k] by (simp split: if_splits)
  next
    fix j m assume "(T(i := None)) j = Some m"
    then have j: "T j = Some m" "j \<noteq> i" by (simp_all split: if_splits)
    then have "m \<noteq> n" using inj [of j m i] assms(2) by auto
    then show "m \<notin> set (R @ [n])" using T [OF j(1)] by simp
    show "1 \<le> m" "m \<le> c" using T [OF j(1)] by simp_all
  qed (use R T [OF assms(2)] in auto)
qed

lemma tickets_at_pc: "tickets (at_pc s i p) = (tickets s)(i := ticket p)"
  by (rule ext) (simp add: tickets_def)

lemma tickets_same: "ticket (ts_pc s i) = ticket p \<Longrightarrow> tickets (at_pc s i p) = tickets s"
  by (rule ext) (simp add: tickets_def)

lemma tickets_fields [simp]:
  "tickets (s\<lparr>ts_tw := t\<rparr>) = tickets s" "tickets (s\<lparr>ts_returned := r\<rparr>) = tickets s"
  by (rule ext, simp add: tickets_def)+

lemma after_trip_load: "after_trip k = TwLoad n \<longleftrightarrow> k = Some n"
  by (simp add: after_trip_def split: option.splits)

lemma budget_inv_start: "0 < b \<Longrightarrow> budget_inv b (tw_start b)"
  by (simp add: budget_inv_def tw_start_def NewTripwire_def tickets_ok_def tickets_def)

lemma writer_tripped: "latch_inv s \<Longrightarrow> ts_pc s i = TwWrite r k \<Longrightarrow> tw_tripped (ts_tw s)"
  unfolding latch_inv_def using pc_simps(8) [of r k] by metis

lemma budget_inv_step:
  assumes "tw_step s s'" "budget_inv b s" "latch_inv s" "0 < b" shows "budget_inv b s'"
  using assms
proof (induction rule: tw_step.induct)
  case (call_trip s i r)
  then show ?case by (simp add: budget_inv_def tickets_same)
next
  case (call_count s i n)
  then have n: "n = tw_count (ts_tw s) + 1"
    by (simp add: budget_inv_def i64_id in_i64_def int64_min_def)
  have "tickets s i = None" using call_count by (simp add: tickets_def)
  with call_count.prems(1) have "tickets_ok n ((tickets s)(i := Some n)) (map fst (ts_returned s))"
    unfolding n by (intro tickets_draw) (simp_all add: budget_inv_def)
  with call_count n show ?case
    by (simp add: budget_inv_def tickets_at_pc over_budget_def)
next
  case (cas_win s i r k)
  then show ?case by (simp add: budget_inv_def tickets_same)
next
  case (cas_lose s i r k)
  then show ?case by (simp add: budget_inv_def tickets_same)
next
  case (write_reason s i r k)
  then show ?case
    using writer_tripped [OF write_reason.prems(2) write_reason.hyps]
    by (simp add: budget_inv_def tickets_same)
next
  case (load s i n)
  then have "tickets_ok (tw_count (ts_tw s)) ((tickets s)(i := None)) (map fst (ts_returned s) @ [n])"
    by (intro tickets_finish) (simp_all add: budget_inv_def tickets_def)
  with load show ?case by (auto simp: budget_inv_def tickets_at_pc)
qed

lemma tw_reachable_budget: "tw_reachable b s \<Longrightarrow> 0 < b \<Longrightarrow> budget_inv b s"
  by (induction rule: tw_reachable_induct)
     (auto intro: budget_inv_start budget_inv_step tw_reachable_latch)

lemma distinct_int_interval:
  assumes "distinct ns" "\<forall>n \<in> set ns. 1 \<le> n \<and> n \<le> (b :: int)" "0 \<le> b"
  shows "int (length ns) \<le> b"
proof -
  have "set ns \<subseteq> {1..b}" using assms(2) by auto
  then have "card (set ns) \<le> card {1..b}" by (rule card_mono [rotated]) simp
  then show ?thesis using assms(1,3) by (simp add: distinct_card)
qed

text \<open>The request budget under every interleaving: whatever the scheduling of the calls,
  at most \<open>budget\<close> of the \<open>CountRequest\<close> calls answer "not tripped".\<close>

theorem tripwire_admits_at_most_budget:
  assumes "tw_reachable b s" and "0 < b"
  shows "int (length (filter (\<lambda>p. \<not> snd p) (ts_returned s))) \<le> b"
proof -
  let ?ns = "map fst (filter (\<lambda>p. \<not> snd p) (ts_returned s))"
  have inv: "budget_inv b s" using assms by (rule tw_reachable_budget)
  then have "distinct (map fst (ts_returned s))"
    and "\<forall>n \<in> set (map fst (ts_returned s)). 1 \<le> n"
    by (simp_all add: budget_inv_def tickets_ok_def)
  then have "distinct ?ns" "\<forall>n \<in> set ?ns. 1 \<le> n" by (auto simp: distinct_map_filter)
  moreover have "\<forall>n \<in> set ?ns. n \<le> b"
    using inv by (auto simp: budget_inv_def not_less [symmetric])
  ultimately show ?thesis using distinct_int_interval [of ?ns b] assms(2) by simp
qed

theorem tripwire_admits_at_most_budget_witness:
  "\<exists>s :: tw_sys. ts_returned s = [(1, False)] \<and> int (length (filter (\<lambda>p. \<not> snd p) (ts_returned s))) \<le> 1"
proof -
  let ?s1 = "at_pc ((tw_start 1)\<lparr>ts_tw := (NewTripwire 1)\<lparr>tw_count := 1\<rparr>\<rparr>) 0 (TwLoad 1)"
  let ?s2 = "at_pc (?s1\<lparr>ts_returned := ts_returned ?s1 @ [(1, tw_tripped (ts_tw ?s1))]\<rparr>) 0 TwIdle"
  have 1: "tw_step (tw_start 1) ?s1"
    using tw_step.call_count [of "tw_start 1" 0 1]
    by (simp add: tw_start_def NewTripwire_def int64_max_def i64_def over_budget_def)
  have 2: "tw_step ?s1 ?s2" by (rule tw_step.load) simp
  from 1 2 have r: "tw_reachable 1 ?s2"
    unfolding tw_reachable_def by (meson converse_rtranclp_into_rtranclp r_into_rtranclp)
  obtain s where s: "s = ?s2" by simp
  have "ts_returned s = [(1, False)]" by (simp add: s tw_start_def NewTripwire_def)
  moreover have "int (length (filter (\<lambda>p. \<not> snd p) (ts_returned s))) \<le> 1"
    unfolding s by (rule tripwire_admits_at_most_budget [OF r]) simp
  ultimately show ?thesis by blast
qed

section \<open>One caller\<close>

text \<open>What a single goroutine sees: the answer of the k-th call.\<close>

primrec count_requests :: "nat \<Rightarrow> Tripwire \<Rightarrow> Tripwire" where
  "count_requests 0 t = t"
| "count_requests (Suc k) t = fst (CountRequest (count_requests k t))"

lemma count_requests_state:
  "int k \<le> int64_max \<Longrightarrow>
     tw_count (count_requests k (NewTripwire b)) = int k
   \<and> tw_budget (count_requests k (NewTripwire b)) = b
   \<and> tw_tripped (count_requests k (NewTripwire b)) = (0 < b \<and> b < int k)"
proof (induction k)
  case 0
  then show ?case by (simp add: NewTripwire_def)
next
  case (Suc k)
  then have "i64 (int k + 1) = int k + 1" by (intro i64_id) (simp add: in_i64_def int64_min_def)
  with Suc show ?case
    by (auto simp: CountRequest_def Let_def Trip_def over_budget_def)
qed

end
