(* ===== verification/Limiter.thy ===== *)
theory Limiter
  imports Caps Clock Tripwire
begin

text \<open>
  The clock-driven token bucket (\<open>internal/safety/bucket.go\<close>) and the two-tier request
  limiter with its streaming-byte budget (\<open>internal/safety/limiter.go\<close>).

  The limiter's mutex is held for the whole of each bucket operation, so the model is
  sequential; the tripwire is shared with the run and is an argument of \<open>Acquire\<close> (its value
  at the call, None for a nil pointer). Amounts are binary64 values.
\<close>

section \<open>The token bucket\<close>

record tokenBucket =
  tb_rps :: f64
  tb_burst :: f64
  tb_tokens :: f64
  tb_last :: instant

definition newTokenBucket :: "clock \<Rightarrow> f64 \<Rightarrow> f64 \<Rightarrow> tokenBucket \<times> clock" where
  "newTokenBucket clk rps burst =
     (case Now clk of (now, clk1) \<Rightarrow>
        (\<lparr>tb_rps = rps, tb_burst = burst, tb_tokens = burst, tb_last = now\<rparr>, clk1))"

definition refill :: "clock \<Rightarrow> tokenBucket \<Rightarrow> tokenBucket \<times> clock" where
  "refill clk b =
     (case Now clk of (now, clk1) \<Rightarrow>
      case Since clk1 (tb_last b) of (elapsed, clk2) \<Rightarrow>
        let b1 = b\<lparr>tb_last := now\<rparr>
        in if elapsed \<le> 0 then (b1, clk2)
           else let tokens = f_add (tb_tokens b1) (f_mul (dur_seconds elapsed) (tb_rps b1))
                in (b1\<lparr>tb_tokens := (if f_lt (tb_burst b1) tokens then tb_burst b1 else tokens)\<rparr>,
                    clk2))"

definition tryTake :: "clock \<Rightarrow> tokenBucket \<Rightarrow> f64 \<Rightarrow> tokenBucket \<times> bool \<times> clock" where
  "tryTake clk b n =
     (if f_le (tb_rps b) (Fin 0) then (b, True, clk)
      else case refill clk b of (b1, clk1) \<Rightarrow>
        if f_lt (tb_tokens b1) n then (b1, False, clk1)
        else (b1\<lparr>tb_tokens := f_sub (tb_tokens b1) n\<rparr>, True, clk1))"

definition give_back :: "tokenBucket \<Rightarrow> tokenBucket" where
  "give_back b = b\<lparr>tb_tokens := f_add (tb_tokens b) (Fin 1)\<rparr>"

section \<open>The limiter\<close>

record limiter =
  lm_perTarget :: "string \<rightharpoonup> tokenBucket"
  lm_global :: tokenBucket
  lm_bytes :: "tokenBucket option"
  lm_ptRPS :: f64
  lm_gRPS :: f64
  lm_byteRate :: f64
  lm_blockedNanos :: int
  lm_sinceStart :: instant

record reservation =
  rs_reservedBytes :: f64
  rs_actualBytes :: f64
  rs_reconciled :: bool
  rs_released :: bool

definition max1 :: "f64 \<Rightarrow> f64" where
  "max1 rps = (if f_le rps (Fin 0) then Fin 0 else if f_lt rps (Fin 1) then Fin 1 else rps)"

definition NewLimiter :: "clock \<Rightarrow> CapSpec \<Rightarrow> limiter \<times> clock" where
  "NewLimiter clk caps =
     (let byteRate = f_div (f_mul (f64_of_int (cs_StreamingByteRateKbps caps)) (Fin 1000)) (Fin 8)
      in case newTokenBucket clk (cs_GlobalRPS caps) (max1 (cs_GlobalRPS caps)) of (g, clk1) \<Rightarrow>
         case Now clk1 of (start, clk2) \<Rightarrow>
         let l = \<lparr>lm_perTarget = Map.empty, lm_global = g, lm_bytes = None,
                  lm_ptRPS = cs_PerTargetRPS caps, lm_gRPS = cs_GlobalRPS caps,
                  lm_byteRate = byteRate, lm_blockedNanos = 0, lm_sinceStart = start\<rparr>
         in if f_lt (Fin 0) byteRate
            then (case newTokenBucket clk2 byteRate byteRate of (bb, clk3) \<Rightarrow>
                    (l\<lparr>lm_bytes := Some bb\<rparr>, clk3))
            else (l, clk2))"

definition bucketFor :: "clock \<Rightarrow> limiter \<Rightarrow> string \<Rightarrow> limiter \<times> tokenBucket \<times> clock" where
  "bucketFor clk l targetID =
     (case lm_perTarget l targetID of
        Some b \<Rightarrow> (l, b, clk)
      | None \<Rightarrow>
          (case newTokenBucket clk (lm_ptRPS l) (max1 (lm_ptRPS l)) of (b, clk1) \<Rightarrow>
             (l\<lparr>lm_perTarget := (lm_perTarget l)(targetID \<mapsto> b)\<rparr>, b, clk1)))"

definition recordBlocked :: "clock \<Rightarrow> limiter \<Rightarrow> instant \<Rightarrow> limiter \<times> clock" where
  "recordBlocked clk l start =
     (case Since clk start of (d, clk1) \<Rightarrow>
        (l\<lparr>lm_blockedNanos := i64 (lm_blockedNanos l + d)\<rparr>, clk1))"

definition safetyErr :: "string \<Rightarrow> goerr" where
  "safetyErr msg = pterr_New ClassSafety ''safety.cap'' ''limiter.Acquire'' msg"

definition set_pt :: "limiter \<Rightarrow> string \<Rightarrow> tokenBucket \<Rightarrow> limiter" where
  "set_pt l targetID b = l\<lparr>lm_perTarget := (lm_perTarget l)(targetID \<mapsto> b)\<rparr>"

definition refuse :: "clock \<Rightarrow> limiter \<Rightarrow> instant \<Rightarrow> string \<Rightarrow> limiter \<times> (goerr + reservation) \<times> clock" where
  "refuse clk l start msg =
     (case recordBlocked clk l start of (l', clk') \<Rightarrow> (l', Inl (safetyErr msg), clk'))"

definition granted :: "f64 \<Rightarrow> reservation" where
  "granted reserved = \<lparr>rs_reservedBytes = reserved, rs_actualBytes = Fin 0,
     rs_reconciled = False, rs_released = False\<rparr>"

definition Acquire ::
  "clock \<Rightarrow> limiter \<Rightarrow> goerr option \<Rightarrow> Tripwire option \<Rightarrow> string \<Rightarrow> int
     \<Rightarrow> limiter \<times> (goerr + reservation) \<times> clock" where
  "Acquire clk l ctx_err tw targetID estBytes =
     (case ctx_err of Some e \<Rightarrow> (l, Inl e, clk) | None \<Rightarrow>
      if (case tw of None \<Rightarrow> False | Some t \<Rightarrow> Tripped t)
      then (l, Inl (safetyErr (''tripwire latched: '' @ Reason (the tw))), clk)
      else case Now clk of (start, clk1) \<Rightarrow>
      case bucketFor clk1 l targetID of (l1, pt, clk2) \<Rightarrow>
      case tryTake clk2 pt (Fin 1) of (pt1, ok1, clk3) \<Rightarrow>
      if \<not> ok1
      then refuse clk3 (set_pt l1 targetID pt1) start
             (''per-target request cap exceeded for '' @ targetID)
      else case tryTake clk3 (lm_global l1) (Fin 1) of (g1, ok2, clk4) \<Rightarrow>
      if \<not> ok2
      then refuse clk4 ((set_pt l1 targetID (give_back pt1))\<lparr>lm_global := g1\<rparr>) start
             ''global request cap exceeded''
      else let l2 = (set_pt l1 targetID pt1)\<lparr>lm_global := g1\<rparr> in
      case lm_bytes l of
        None \<Rightarrow> (l2, Inr (granted (Fin 0)), clk4)
      | Some bb \<Rightarrow>
          if estBytes > 0
          then (let reserved = f64_of_int estBytes in
                case tryTake clk4 bb reserved of (bb1, ok3, clk5) \<Rightarrow>
                if \<not> ok3
                then refuse clk5
                       ((set_pt l1 targetID (give_back pt1))\<lparr>lm_global := give_back g1,
                          lm_bytes := Some bb1\<rparr>) start ''streaming byte cap exceeded''
                else (l2\<lparr>lm_bytes := Some bb1\<rparr>, Inr (granted reserved), clk5))
          else (l2, Inr (granted (Fin 0)), clk4))"

definition Saturation :: "clock \<Rightarrow> limiter \<Rightarrow> f64 \<times> clock" where
  "Saturation clk l =
     (case Since clk (lm_sinceStart l) of (tot, clk1) \<Rightarrow>
        if tot \<le> 0 then (Fin 0, clk1)
        else let sat = f_div (f64_of_int (lm_blockedNanos l)) (f64_of_int tot)
             in ((if f_lt (Fin 1) sat then Fin 1 else sat), clk1))"

definition returnBytes :: "limiter \<Rightarrow> f64 \<Rightarrow> limiter" where
  "returnBytes l n =
     (case lm_bytes l of
        None \<Rightarrow> l
      | Some bb \<Rightarrow>
          if f_le n (Fin 0) then l
          else let tokens = f_add (tb_tokens bb) n
               in l\<lparr>lm_bytes := Some (bb\<lparr>tb_tokens :=
                      (if f_lt (tb_burst bb) tokens then tb_burst bb else tokens)\<rparr>)\<rparr>)"

definition Reconcile :: "reservation \<Rightarrow> int \<Rightarrow> reservation" where
  "Reconcile r actualBytes =
     r\<lparr>rs_actualBytes := f64_of_int actualBytes, rs_reconciled := True\<rparr>"

definition refund :: "reservation \<Rightarrow> f64" where
  "refund r =
     (if rs_reconciled r \<and> f_lt (rs_actualBytes r) (rs_reservedBytes r)
      then f_sub (rs_reservedBytes r) (rs_actualBytes r)
      else if rs_reconciled r then Fin 0
      else rs_reservedBytes r)"

definition Release :: "limiter \<Rightarrow> reservation \<Rightarrow> limiter \<times> reservation" where
  "Release l r =
     (if rs_released r then (l, r)
      else (returnBytes l (refund r), r\<lparr>rs_released := True\<rparr>))"

section \<open>Whole tokens are exact\<close>

text \<open>A stored value is a binary64: rounding leaves it alone.\<close>

definition is_f64 :: "rat \<Rightarrow> bool" where
  "is_f64 x \<longleftrightarrow> rnd x = x"

lemma is_f64_unit_grid:
  assumes "is_f64 t" "1 \<le> t" "t < 2 ^ 53"
  obtains m :: int and k :: nat where "t = of_int m / 2 ^ k" "k \<le> 52" "m \<le> 2 ^ 53" "2 ^ k \<le> m"
proof -
  have pos: "0 < t" using assms by simp
  have lo: "0 \<le> ilog2 t"
    using power_int_increasing [of "ilog2 t + 1" 0 "2::rat"] ilog2_bounds [OF pos] assms(2)
    by (rule_tac ccontr) simp
  have "(2::rat) ^ 53 = 2 powi 53" by (simp add: power_int_def)
  then have hi: "ilog2 t \<le> 52"
    using power_int_increasing [of 53 "ilog2 t" "2::rat"] ilog2_bounds [OF pos] assms(3)
    by (rule_tac ccontr) simp
  define k where "k = nat (52 - ilog2 t)"
  have g: "grid_exp t = - int k" using pos lo hi by (simp add: grid_exp_def k_def)
  define m where "m = round_even (t / 2 powi grid_exp t)"
  have "of_int m * 2 powi grid_exp t = t"
    using assms(1) pos unfolding is_f64_def rnd_def m_def by simp
  then have t: "t = of_int m / 2 ^ k" unfolding g by (simp add: power_int_minus divide_inverse)
  have "t < 2 powi (ilog2 t + 1)" using ilog2_bounds [OF pos] by simp
  also have "ilog2 t + 1 = 53 - int k" using hi by (simp add: k_def)
  also have "(2::rat) powi (53 - int k) = 2 ^ 53 / 2 ^ k" by (simp add: power_int_diff)
  finally have "(of_int m :: rat) < of_int (2 ^ 53)" using t by (simp add: divide_less_cancel)
  then have "m \<le> 2 ^ 53" by (simp only: of_int_less_iff)
  moreover have "(of_int (2 ^ k) :: rat) \<le> of_int m"
    using assms(2) unfolding t by (simp add: pos_le_divide_eq)
  then have "2 ^ k \<le> m" by (simp only: of_int_le_iff)
  moreover have "k \<le> 52" using lo by (simp add: k_def)
  ultimately show ?thesis using t that by blast
qed

lemma is_f64_pred:
  assumes "is_f64 t" "1 \<le> t" "t < 2 ^ 53"
  shows "is_f64 (t - 1)"
proof -
  obtain m :: int and k :: nat
    where t: "t = of_int m / 2 ^ k" "k \<le> 52" "m \<le> 2 ^ 53" "2 ^ k \<le> m"
    using is_f64_unit_grid [OF assms] .
  have "t - 1 = of_int (m - 2 ^ k) * 2 powi (- int k)"
    by (simp add: t(1) power_int_minus field_simps)
  moreover have "\<bar>m - 2 ^ k\<bar> < 2 ^ 53"
    using t(3,4) zero_less_power [of "2::int" k] by linarith
  ultimately show ?thesis using t(2) unfolding is_f64_def by (intro rnd_grid) auto
qed


section \<open>The bucket invariant\<close>

definition bucket_ok :: "tokenBucket \<Rightarrow> bool" where
  "bucket_ok b \<longleftrightarrow> (\<exists>r B t. tb_rps b = Fin r \<and> tb_burst b = Fin B \<and> tb_tokens b = Fin t
     \<and> 0 < r \<and> is_f64 B \<and> 1 \<le> B \<and> B < 2 ^ 53 \<and> is_f64 t \<and> 0 \<le> t \<and> t \<le> B)"

text \<open>A rate a limiter can be built with: at least one token of burst, below 2^53.\<close>

definition rate_ok :: "f64 \<Rightarrow> bool" where
  "rate_ok x \<longleftrightarrow> (\<exists>r. x = Fin r \<and> 0 < r \<and> r < 2 ^ 53 \<and> is_f64 r)"

lemma is_f64_0 [simp]: "is_f64 0" by (simp add: is_f64_def)

lemma is_f64_1 [simp]: "is_f64 1"
  using rnd_of_int [of 1] by (simp add: is_f64_def)

lemma is_f64_rnd [simp]: "is_f64 (rnd x)" by (simp add: is_f64_def rnd_idem)

lemma newTokenBucket_ok: "rate_ok r \<Longrightarrow> bucket_ok (fst (newTokenBucket clk r (max1 r)))"
  by (auto simp: rate_ok_def newTokenBucket_def Now_def bucket_ok_def max1_def)

lemma f64_small: "\<bar>x\<bar> \<le> 2 ^ 54 \<Longrightarrow> f64_of_rat x = Fin (rnd x)"
proof -
  assume "\<bar>x\<bar> \<le> 2 ^ 54"
  also have "(2::rat) ^ 54 \<le> 2 ^ 1023" by (rule power_increasing) simp_all
  finally show ?thesis by (rule f64_of_rat_small)
qed

text \<open>What a refill adds is never negative, and never NaN.\<close>

lemma f64_of_rat_nonneg: "0 \<le> x \<Longrightarrow> f64_of_rat x = PInf \<or> (\<exists>y. f64_of_rat x = Fin y \<and> 0 \<le> y \<and> is_f64 y)"
  using rnd_nonneg [of x] f64_limit_gt
  by (auto simp: f64_of_rat_def Let_def intro: order_trans)

lemma f64_of_rat_ge:
  assumes "is_f64 t" "0 \<le> t" "t \<le> x"
  shows "f64_of_rat x = PInf \<or> (\<exists>y. f64_of_rat x = Fin y \<and> t \<le> y \<and> is_f64 y)"
proof -
  have "t \<le> rnd x" using rnd_mono [OF assms(3)] assms(1) by (simp add: is_f64_def)
  then show ?thesis using f64_of_rat_nonneg [of x] assms(2,3) by (auto simp: f64_of_rat_def Let_def)
qed

lemma dur_seconds_nonneg:
  assumes "0 \<le> d" "in_i64 d"
  shows "\<exists>y. dur_seconds d = Fin y \<and> 0 \<le> y"
proof -
  define q where "q = quot d second"
  define n where "n = d - q * second"
  have q: "q = d div second" using assms(1) by (simp add: q_def quot_pos time_units)
  have n: "n = d mod second" unfolding n_def q by (simp add: minus_div_mult_eq_mod)
  have r: "0 \<le> q" "q \<le> 2 ^ 40" "0 \<le> n" "n < 1000000000"
    using assms unfolding q n by (auto simp: time_units in_i64_def int64_max_def)
  then have "dur_seconds d = f_add (Fin (of_int q)) (f_div (Fin (of_int n)) (Fin 1000000000))"
    by (simp add: dur_seconds_def f64_of_int_small Let_def flip: q_def n_def)
  moreover have "f64_of_rat (of_int n / 1000000000) = Fin (rnd (of_int n / 1000000000))"
    using r by (intro f64_small) (simp add: abs_div_pos)
  moreover have "rnd (of_int n / 1000000000) \<le> 1"
    using rnd_of_int_bounds(2) [of 1 "of_int n / 1000000000"] r by simp
  moreover have "0 \<le> rnd (of_int n / 1000000000)" using r by (intro rnd_nonneg) simp
  moreover have "(of_int q :: rat) \<le> of_int (2 ^ 40)" using r by (simp only: of_int_le_iff)
  moreover have "0 \<le> (of_int q :: rat)" using r by simp
  ultimately show ?thesis
    by (simp add: f64_small rnd_nonneg)
qed

lemma refill_ok:
  assumes "bucket_ok b" shows "bucket_ok (fst (refill clk b))"
proof -
  let ?el = "time_sub (clk (Suc 0)) (tb_last b)"
  obtain r B t where b: "tb_rps b = Fin r" "tb_burst b = Fin B" "tb_tokens b = Fin t"
      "0 < r" "is_f64 B" "1 \<le> B" "B < 2 ^ 53" "is_f64 t" "0 \<le> t" "t \<le> B"
    using assms unfolding bucket_ok_def by blast
  show ?thesis
  proof (cases "?el \<le> 0")
    case True
    then show ?thesis using assms
      by (simp add: refill_def Now_def Since_def bucket_ok_def Let_def)
  next
    case False
    obtain y where y: "dur_seconds ?el = Fin y" "0 \<le> y"
      using dur_seconds_nonneg [of ?el] False sat64_range by (force simp: time_sub_def)
    have "f_mul (Fin y) (Fin r) = PInf \<or> (\<exists>z. f_mul (Fin y) (Fin r) = Fin z \<and> 0 \<le> z)"
      using f64_of_rat_nonneg [of "y * r"] y(2) b(4) by auto
    then have "f_add (Fin t) (f_mul (Fin y) (Fin r)) = PInf
        \<or> (\<exists>z. f_add (Fin t) (f_mul (Fin y) (Fin r)) = Fin z \<and> t \<le> z \<and> is_f64 z)"
    proof
      assume "\<exists>z. f_mul (Fin y) (Fin r) = Fin z \<and> 0 \<le> z"
      then obtain z where "f_mul (Fin y) (Fin r) = Fin z" "0 \<le> z" by blast
      then show ?thesis using f64_of_rat_ge [OF b(8,9), of "t + z"] by simp
    qed simp
    then show ?thesis
      using False b y by (auto simp: refill_def Now_def Since_def bucket_ok_def Let_def)
  qed
qed

lemma bucket_rps_pos: "bucket_ok b \<Longrightarrow> \<not> f_le (tb_rps b) (Fin 0)"
  by (auto simp: bucket_ok_def)

definition stored :: "tokenBucket \<Rightarrow> rat" where
  "stored b = (case tb_tokens b of Fin t \<Rightarrow> t | _ \<Rightarrow> 0)"

definition take_one :: "tokenBucket \<Rightarrow> tokenBucket" where
  "take_one b = b\<lparr>tb_tokens := f_sub (tb_tokens b) (Fin 1)\<rparr>"

lemma tokens_stored: "bucket_ok b \<Longrightarrow> tb_tokens b = Fin (stored b)"
  by (auto simp: bucket_ok_def stored_def)

lemma stored_nonneg: "bucket_ok b \<Longrightarrow> 0 \<le> stored b"
  by (auto simp: bucket_ok_def stored_def)

lemma take_one_ok:
  assumes "bucket_ok b" "1 \<le> stored b"
  shows "bucket_ok (take_one b)" "give_back (take_one b) = b" "stored (take_one b) = stored b - 1"
    "tb_last (take_one b) = tb_last b"
proof -
  obtain r B t where b: "tb_rps b = Fin r" "tb_burst b = Fin B" "tb_tokens b = Fin t"
      "0 < r" "is_f64 B" "1 \<le> B" "B < 2 ^ 53" "is_f64 t" "0 \<le> t" "t \<le> B"
    using assms unfolding bucket_ok_def by blast
  have t: "1 \<le> t" using assms(2) b by (simp add: stored_def)
  have p: "is_f64 (t - 1)" using is_f64_pred [OF b(8) t] b by simp
  have e: "f64_of_rat (t - 1) = Fin (t - 1)" "f64_of_rat t = Fin t"
    using f64_small [of "t - 1"] f64_small [of t] p t b by (simp_all add: is_f64_def)
  show "bucket_ok (take_one b)" "stored (take_one b) = stored b - 1" "give_back (take_one b) = b"
    "tb_last (take_one b) = tb_last b"
    using b p e t by (simp_all add: f_sub_def bucket_ok_def give_back_def take_one_def stored_def)
qed

lemma tryTake_one:
  assumes "bucket_ok b"
  shows "tryTake clk b (Fin 1) =
     (let b1 = fst (refill clk b)
      in if stored b1 < 1 then (b1, False, snd (refill clk b))
         else (take_one b1, True, snd (refill clk b)))"
  using bucket_rps_pos [OF assms] tokens_stored [OF refill_ok [OF assms], of clk]
  by (cases "refill clk b") (simp add: tryTake_def take_one_def Let_def)

text \<open>Any amount: the byte bucket.\<close>

lemma tryTake_amount:
  assumes "bucket_ok b" "0 \<le> n"
  shows "bucket_ok (fst (tryTake clk b (Fin n)))"
    and "\<not> fst (snd (tryTake clk b (Fin n))) \<Longrightarrow> fst (tryTake clk b (Fin n)) = fst (refill clk b)"
proof -
  obtain b1 c1 where r: "refill clk b = (b1, c1)" by fastforce
  have ok: "bucket_ok b1" using refill_ok [OF assms(1), of clk] r by simp
  then obtain r B t where b: "tb_rps b1 = Fin r" "tb_burst b1 = Fin B" "tb_tokens b1 = Fin t"
      "0 < r" "is_f64 B" "1 \<le> B" "B < 2 ^ 53" "is_f64 t" "0 \<le> t" "t \<le> B"
    unfolding bucket_ok_def by blast
  show "bucket_ok (fst (tryTake clk b (Fin n)))"
  proof (cases "t < n")
    case True
    then show ?thesis using bucket_rps_pos [OF assms(1)] r ok b by (simp add: tryTake_def)
  next
    case False
    have "rnd (t - n) \<le> t" using rnd_mono [of "t - n" t] assms(2) b(8) by (simp add: is_f64_def)
    moreover have "0 \<le> rnd (t - n)" using False by (intro rnd_nonneg) simp
    moreover have "f64_of_rat (t - n) = Fin (rnd (t - n))" using False b assms(2) by (intro f64_small) simp
    ultimately show ?thesis using bucket_rps_pos [OF assms(1)] r b False
      by (simp add: tryTake_def f_sub_def bucket_ok_def)
  qed
  show "\<not> fst (snd (tryTake clk b (Fin n))) \<Longrightarrow> fst (tryTake clk b (Fin n)) = fst (refill clk b)"
    using bucket_rps_pos [OF assms(1)] r by (auto simp: tryTake_def split: if_splits)
qed

section \<open>The limiter's invariant\<close>

definition limiter_ok :: "limiter \<Rightarrow> bool" where
  "limiter_ok l \<longleftrightarrow> rate_ok (lm_ptRPS l) \<and> bucket_ok (lm_global l)
     \<and> (\<forall>x b. lm_perTarget l x = Some b \<longrightarrow> bucket_ok b)
     \<and> (\<forall>b. lm_bytes l = Some b \<longrightarrow> bucket_ok b)"

definition not_tripped :: "Tripwire option \<Rightarrow> bool" where
  "not_tripped tw \<longleftrightarrow> (case tw of None \<Rightarrow> True | Some t \<Rightarrow> \<not> Tripped t)"

lemma bucketFor_ok:
  assumes "limiter_ok l" "bucketFor clk l x = (l1, b, clk')"
  shows "bucket_ok b \<and> limiter_ok l1 \<and> lm_global l1 = lm_global l \<and> lm_bytes l1 = lm_bytes l
       \<and> lm_ptRPS l1 = lm_ptRPS l \<and> lm_perTarget l1 = (lm_perTarget l)(x \<mapsto> b)"
  using assms newTokenBucket_ok [of "lm_ptRPS l" clk]
  by (auto simp: bucketFor_def limiter_ok_def newTokenBucket_def Now_def fun_upd_idem
      split: option.splits if_splits)

text \<open>The decision of \<open>Acquire\<close> once every bucket is well formed.\<close>

lemma Acquire_ok:
  assumes "limiter_ok l" "not_tripped tw"
    and "bucketFor (snd (Now clk)) l x = (l1, pt, clk2)"
    and "refill clk2 pt = (pt1, clk3)" "refill clk3 (lm_global l) = (g1, clk4)"
  shows "Acquire clk l None tw x est =
     (let start = fst (Now clk) in
      if stored pt1 < 1
      then refuse clk3 (set_pt l1 x pt1) start (''per-target request cap exceeded for '' @ x)
      else if stored g1 < 1
      then refuse clk4 ((set_pt l1 x pt1)\<lparr>lm_global := g1\<rparr>) start ''global request cap exceeded''
      else let l2 = (set_pt l1 x (take_one pt1))\<lparr>lm_global := take_one g1\<rparr> in
      case lm_bytes l of None \<Rightarrow> (l2, Inr (granted (Fin 0)), clk4)
      | Some bb \<Rightarrow>
          if est > 0
          then (case tryTake clk4 bb (f64_of_int est) of (bb1, ok3, clk5) \<Rightarrow>
                if \<not> ok3
                then refuse clk5 ((set_pt l1 x pt1)\<lparr>lm_global := g1, lm_bytes := Some bb1\<rparr>) start
                       ''streaming byte cap exceeded''
                else (l2\<lparr>lm_bytes := Some bb1\<rparr>, Inr (granted (f64_of_int est)), clk5))
          else (l2, Inr (granted (Fin 0)), clk4))"
proof -
  have pt: "bucket_ok pt" and g: "bucket_ok (lm_global l)" "lm_global l1 = lm_global l"
    using bucketFor_ok [OF assms(1,3)] assms(1) by (simp_all add: limiter_ok_def)
  have ok: "bucket_ok pt1" "bucket_ok g1"
    using refill_ok [OF pt, of clk2] refill_ok [OF g(1), of clk3] assms(4,5) by simp_all
  have t: "tryTake clk2 pt (Fin 1) =
      (if stored pt1 < 1 then (pt1, False, clk3) else (take_one pt1, True, clk3))"
    "tryTake clk3 (lm_global l) (Fin 1) =
      (if stored g1 < 1 then (g1, False, clk4) else (take_one g1, True, clk4))"
    using tryTake_one [OF pt, of clk2] tryTake_one [OF g(1), of clk3] assms(4,5) by (simp_all add: Let_def)
  have nt: "\<not> (case tw of None \<Rightarrow> False | Some t \<Rightarrow> Tripped t)"
    using assms(2) by (simp add: not_tripped_def split: option.splits)
  show ?thesis
    using assms(3) nt t g(2) take_one_ok(2) [OF ok(1)] take_one_ok(2) [OF ok(2)]
    unfolding Acquire_def Let_def
    by (cases "Now clk"; cases "stored pt1 < 1"; cases "stored g1 < 1")
       (auto split: option.splits prod.splits)
qed


lemma limiter_ok_set:
  assumes "limiter_ok l" "bucket_ok pt" "bucket_ok g"
  shows "limiter_ok ((set_pt l x pt)\<lparr>lm_global := g\<rparr>)"
  using assms by (auto simp: limiter_ok_def set_pt_def)

lemma limiter_ok_bytes:
  "limiter_ok l \<Longrightarrow> bucket_ok bb \<Longrightarrow> limiter_ok (l\<lparr>lm_bytes := Some bb\<rparr>)"
  by (simp add: limiter_ok_def)

lemma refuse_ok:
  "limiter_ok l \<Longrightarrow> limiter_ok (fst (refuse clk l start msg))"
  by (simp add: refuse_def recordBlocked_def Since_def limiter_ok_def)

lemma f64_of_int_amount:
  assumes "0 < n" "n \<le> int64_max" shows "\<exists>m. f64_of_int n = Fin m \<and> 0 \<le> m \<and> m \<le> 2 ^ 64"
proof -
  have "(of_int n :: rat) \<le> of_int (2 ^ 64)"
    using assms unfolding of_int_le_iff by (simp add: int64_max_def)
  then have "(of_int n :: rat) \<le> 2 powi 64" by (simp add: power_int_def)
  then have "rnd (of_int n) \<le> 2 ^ 64" using rnd_le_powi [of "of_int n" 64] by (simp add: power_int_def)
  moreover have "f64_of_int n = Fin (rnd (of_int n))"
    using assms by (intro f64_of_int_rnd) (simp add: int64_max_def)
  ultimately show ?thesis using rnd_nonneg [of "of_int n"] assms(1) by simp
qed

lemma Acquire_limiter_ok:
  assumes "limiter_ok l" "est \<le> int64_max"
  shows "limiter_ok (fst (Acquire clk l e tw x est))"
proof (cases "e = None \<and> not_tripped tw")
  case False
  then show ?thesis using assms(1)
    by (auto simp: Acquire_def not_tripped_def split: option.splits)
next
  case True
  obtain l1 pt clk2 where bf: "bucketFor (snd (Now clk)) l x = (l1, pt, clk2)" by (metis prod_cases3)
  obtain pt1 clk3 where r1: "refill clk2 pt = (pt1, clk3)" by fastforce
  obtain g1 clk4 where r2: "refill clk3 (lm_global l) = (g1, clk4)" by fastforce
  have l1: "limiter_ok l1" "bucket_ok pt" using bucketFor_ok [OF assms(1) bf] by simp_all
  have pt1: "bucket_ok pt1" using refill_ok [OF l1(2), of clk2] r1 by simp
  have g1: "bucket_ok g1" using refill_ok [of "lm_global l" clk3] r2 assms(1) by (simp add: limiter_ok_def)
  have tk: "\<not> stored pt1 < 1 \<Longrightarrow> bucket_ok (take_one pt1)" "\<not> stored g1 < 1 \<Longrightarrow> bucket_ok (take_one g1)"
    using take_one_ok(1) [OF pt1] take_one_ok(1) [OF g1] by simp_all
  have pt1_set: "limiter_ok (set_pt l1 x pt1)"
    using l1(1) pt1 by (auto simp: limiter_ok_def set_pt_def)
  have bb: "bucket_ok (fst (tryTake c b (f64_of_int est)))" if "lm_bytes l = Some b" "0 < est" for b c
    using that assms f64_of_int_amount [of est] tryTake_amount(1) [of b _ c]
    by (auto simp: limiter_ok_def)
  show ?thesis
    using True tk pt1 g1 pt1_set bb
    unfolding Acquire_ok [OF assms(1) conjunct2 [OF True] bf r1 r2, of est, folded conjunct1 [OF True]] Let_def
    by (auto split: option.split prod.split intro!: refuse_ok limiter_ok_bytes limiter_ok_set l1(1))
      (metis fst_conv)+
qed


section \<open>What a call does to the budgets\<close>

definition touched :: "tokenBucket \<Rightarrow> tokenBucket \<Rightarrow> bool" where
  "touched b b' \<longleftrightarrow> b' = b \<or> (\<exists>c. b' = fst (refill c b))"

text \<open>The bucket a target has, or the one its first request creates at \<open>now\<close>.\<close>

definition target_bucket :: "limiter \<Rightarrow> string \<Rightarrow> instant \<Rightarrow> tokenBucket" where
  "target_bucket l x now =
     (case lm_perTarget l x of Some b \<Rightarrow> b
      | None \<Rightarrow> fst (newTokenBucket (\<lambda>_. now) (lm_ptRPS l) (max1 (lm_ptRPS l))))"

lemma bucketFor_target:
  assumes "bucketFor clk l x = (l1, b, clk')"
  shows "b = target_bucket l x (clk 0) \<and> lm_perTarget l1 = (lm_perTarget l)(x \<mapsto> b)
     \<and> lm_global l1 = lm_global l \<and> lm_bytes l1 = lm_bytes l \<and> lm_ptRPS l1 = lm_ptRPS l"
  using assms
  by (auto simp: bucketFor_def target_bucket_def newTokenBucket_def Now_def fun_upd_idem
      split: option.splits)

definition call_effect ::
  "limiter \<Rightarrow> string \<Rightarrow> limiter \<Rightarrow> goerr + reservation \<Rightarrow> bool" where
  "call_effect l x l' r \<longleftrightarrow>
     lm_ptRPS l' = lm_ptRPS l \<and> (\<forall>y. y \<noteq> x \<longrightarrow> lm_perTarget l' y = lm_perTarget l y)
   \<and> (case r of
        Inl _ \<Rightarrow>
          (lm_perTarget l' x = lm_perTarget l x
           \<or> (\<exists>now c. lm_perTarget l' x = Some (fst (refill c (target_bucket l x now)))))
        \<and> touched (lm_global l) (lm_global l')
        \<and> rel_option touched (lm_bytes l) (lm_bytes l')
      | Inr _ \<Rightarrow>
          (\<exists>now c. 1 \<le> stored (fst (refill c (target_bucket l x now)))
             \<and> lm_perTarget l' x = Some (take_one (fst (refill c (target_bucket l x now)))))
        \<and> (\<exists>c. 1 \<le> stored (fst (refill c (lm_global l)))
             \<and> lm_global l' = take_one (fst (refill c (lm_global l)))))"

lemma touched_refl [simp]: "touched b b" by (simp add: touched_def)

lemma touched_refill: "refill c b = (b', c') \<Longrightarrow> touched b b'"
  unfolding touched_def by (metis fst_conv)

lemma rel_option_touched_refl [simp]: "rel_option touched bo bo"
  by (cases bo) simp_all

lemma refuse_fields [simp]:
  "lm_perTarget (fst (refuse c l s m)) = lm_perTarget l" "lm_global (fst (refuse c l s m)) = lm_global l"
  "lm_bytes (fst (refuse c l s m)) = lm_bytes l" "lm_ptRPS (fst (refuse c l s m)) = lm_ptRPS l"
  "fst (snd (refuse c l s m)) = Inl (safetyErr m)"
  by (simp_all add: refuse_def recordBlocked_def Since_def)

lemma set_pt_fields [simp]:
  "lm_perTarget (set_pt l x b) = (lm_perTarget l)(x \<mapsto> b)" "lm_global (set_pt l x b) = lm_global l"
  "lm_bytes (set_pt l x b) = lm_bytes l" "lm_ptRPS (set_pt l x b) = lm_ptRPS l"
  by (simp_all add: set_pt_def)

lemma Acquire_effect:
  assumes "limiter_ok l" "est \<le> int64_max"
  shows "call_effect l x (fst (Acquire clk l e tw x est)) (fst (snd (Acquire clk l e tw x est)))"
proof (cases "e = None \<and> not_tripped tw")
  case False
  then show ?thesis
    by (auto simp: Acquire_def not_tripped_def call_effect_def split: option.splits)
next
  case True
  obtain l1 pt clk2 where bf: "bucketFor (snd (Now clk)) l x = (l1, pt, clk2)" by (metis prod_cases3)
  obtain pt1 clk3 where r1: "refill clk2 pt = (pt1, clk3)" by fastforce
  obtain g1 clk4 where r2: "refill clk3 (lm_global l) = (g1, clk4)" by fastforce
  note l1 = bucketFor_target [OF bf]
  have pt1: "pt1 = fst (refill clk2 (target_bucket l x (snd (Now clk) 0)))" using l1 r1 by simp
  have g1: "g1 = fst (refill clk3 (lm_global l))" using r2 by simp
  have eff:
    "call_effect l x (fst (refuse c (set_pt l1 x pt1) s m)) (Inl er)"
    "call_effect l x (fst (refuse c ((set_pt l1 x pt1)\<lparr>lm_global := g1\<rparr>) s m)) (Inl er)"
    "rel_option touched (lm_bytes l) (Some bb) \<Longrightarrow> call_effect l x
       (fst (refuse c ((set_pt l1 x pt1)\<lparr>lm_global := g1, lm_bytes := Some bb\<rparr>) s m)) (Inl er)"
    for c s m bb er
    using l1 pt1 touched_refill [OF r2] unfolding call_effect_def by auto
  have grant:
    "\<not> stored pt1 < 1 \<Longrightarrow> \<not> stored g1 < 1 \<Longrightarrow> lm_perTarget l' = (lm_perTarget l)(x \<mapsto> take_one pt1) \<Longrightarrow>
       lm_global l' = take_one g1 \<Longrightarrow> lm_ptRPS l' = lm_ptRPS l \<Longrightarrow> call_effect l x l' (Inr rs)" for l' rs
    unfolding call_effect_def not_less using pt1 g1 by auto
  have bytes: "touched b bb" if t: "lm_bytes l = Some b" "0 < est"
      "tryTake clk4 b (f64_of_int est) = (bb, False, clk5)" for b bb clk5
  proof -
    obtain m where m: "f64_of_int est = Fin m" "0 \<le> m" using f64_of_int_amount [of est] t(2) assms(2) by blast
    have "bucket_ok b" using assms(1) t(1) by (simp add: limiter_ok_def)
    from tryTake_amount(2) [OF this m(2), of clk4] t(3) m(1) show ?thesis
      by (auto simp: touched_def)
  qed
  show ?thesis
    using True l1 bytes
    unfolding Acquire_ok [OF assms(1) conjunct2 [OF True] bf r1 r2, of est, folded conjunct1 [OF True]] Let_def
    by (auto split: option.split prod.split intro!: eff grant)
qed

text \<open>C7. A refused request costs nothing: every \<open>Acquire\<close> that returns an error leaves each
  budget as it was or merely refilled (the tokens taken before the refusing tier are given
  back exactly), touches no other target, and the error is the caller's cancellation or a
  safety-class one.\<close>

theorem refusal_leaks_no_budget:
  assumes "limiter_ok l" and "est \<le> int64_max"
    and "Acquire clk l e tw x est = (l', Inl err, clk')"
  shows "(\<forall>y. y \<noteq> x \<longrightarrow> lm_perTarget l' y = lm_perTarget l y)
       \<and> (lm_perTarget l' x = lm_perTarget l x
          \<or> (\<exists>now c. lm_perTarget l' x = Some (fst (refill c (target_bucket l x now)))))
       \<and> touched (lm_global l) (lm_global l') \<and> rel_option touched (lm_bytes l) (lm_bytes l')
       \<and> (e = Some err \<or> e = None \<and> Classify (Some err) = ClassSafety)"
proof -
  have "e = Some err \<or> e = None \<and> Classify (Some err) = ClassSafety"
    using assms(3)
    by (auto simp: Acquire_def refuse_def safetyErr_def Let_def split: option.splits prod.splits if_splits)
  then show ?thesis
    using Acquire_effect [OF assms(1,2), of x clk e tw] assms(3) by (simp add: call_effect_def)
qed

text \<open>A granted request takes exactly one whole token from the target's bucket and one from
  the global one, both of which had it after their refill: no rounding error accumulates.\<close>

theorem grant_takes_one_token_each:
  assumes "limiter_ok l" and "est \<le> int64_max"
    and "Acquire clk l e tw x est = (l', Inr rs, clk')"
  shows "(\<exists>now c b. b = fst (refill c (target_bucket l x now)) \<and> 1 \<le> stored b
            \<and> lm_perTarget l' x = Some (take_one b) \<and> stored (take_one b) = stored b - 1)
       \<and> (\<exists>c b. b = fst (refill c (lm_global l)) \<and> 1 \<le> stored b
            \<and> lm_global l' = take_one b \<and> stored (take_one b) = stored b - 1)
       \<and> limiter_ok l'"
proof -
  have ok: "bucket_ok (target_bucket l x now)" "bucket_ok (lm_global l)" for now
    using assms(1) newTokenBucket_ok [of "lm_ptRPS l"]
    by (auto simp: limiter_ok_def target_bucket_def split: option.splits)
  have "limiter_ok l'" using Acquire_limiter_ok [OF assms(1,2), of clk e tw x] assms(3) by simp
  then show ?thesis
    using Acquire_effect [OF assms(1,2), of x clk e tw] assms(3)
      take_one_ok(3) [OF refill_ok [OF ok(1)]] take_one_ok(3) [OF refill_ok [OF ok(2)]]
    by (simp add: call_effect_def) blast
qed


section \<open>A frozen clock\<close>

definition settled :: "tokenBucket \<Rightarrow> instant \<Rightarrow> bool" where
  "settled b t \<longleftrightarrow> bucket_ok b \<and> tb_last b = t"

definition limiter_settled :: "limiter \<Rightarrow> instant \<Rightarrow> bool" where
  "limiter_settled l t \<longleftrightarrow> limiter_ok l \<and> tb_last (lm_global l) = t
     \<and> (\<forall>x b. lm_perTarget l x = Some b \<longrightarrow> tb_last b = t)"

lemma refill_frozen: "tb_last b = t \<Longrightarrow> refill (\<lambda>_. t) b = (b, \<lambda>_. t)"
  by (simp add: refill_def Now_def Since_def)

lemma Now_frozen: "Now (\<lambda>_. t) = (t, \<lambda>_. t)"
  by (simp add: Now_def)

lemma target_bucket_settled: "limiter_settled l t \<Longrightarrow> tb_last (target_bucket l x t) = t"
  by (auto simp: limiter_settled_def target_bucket_def newTokenBucket_def Now_def split: option.splits)

lemma bucketFor_frozen:
  "\<exists>l1. bucketFor (\<lambda>_. t) l x = (l1, target_bucket l x t, \<lambda>_. t)"
  by (auto simp: bucketFor_def target_bucket_def newTokenBucket_def Now_def split: option.splits)

definition admitted :: "goerr + reservation \<Rightarrow> bool" where
  "admitted r \<longleftrightarrow> (case r of Inl _ \<Rightarrow> False | Inr _ \<Rightarrow> True)"

lemma target_bucket_upd:
  "lm_perTarget l' = (lm_perTarget l)(x \<mapsto> b) \<Longrightarrow> lm_ptRPS l' = lm_ptRPS l \<Longrightarrow>
     target_bucket l' y t = (if y = x then b else target_bucket l y t)"
  by (cases "lm_perTarget l y") (simp_all add: target_bucket_def)

text \<open>One call at a frozen clock: the stored amounts fall by one for a grant and stay for a refusal.\<close>

lemma Acquire_frozen:
  assumes s: "limiter_settled l t" and est: "est \<le> int64_max"
    and a: "Acquire (\<lambda>_. t) l None tw x est = (l', r, clk')"
  shows "limiter_settled l' t"
    and "stored (target_bucket l' y t) =
           stored (target_bucket l y t) - (if admitted r \<and> y = x then 1 else 0)"
    and "stored (lm_global l') = stored (lm_global l) - (if admitted r then 1 else 0)"
proof -
  have ok: "limiter_ok l" using s by (simp add: limiter_settled_def)
  have "limiter_settled l' t
     \<and> stored (target_bucket l' y t) = stored (target_bucket l y t) - (if admitted r \<and> y = x then 1 else 0)
     \<and> stored (lm_global l') = stored (lm_global l) - (if admitted r then 1 else 0)"
  proof (cases "not_tripped tw")
    case False
    then show ?thesis using a s
      by (auto simp: Acquire_def not_tripped_def admitted_def split: option.splits)
  next
    case True
    let ?b = "target_bucket l x t"
    obtain l1 where bf: "bucketFor (snd (Now (\<lambda>_. t))) l x = (l1, ?b, \<lambda>_. t)"
      using bucketFor_frozen [of t l x] by (auto simp: Now_frozen)
    note l1 = bucketFor_target [OF bf, THEN conjunct2]
    have lb: "tb_last ?b = t" "tb_last (lm_global l) = t"
      using s target_bucket_settled [OF s] by (simp_all add: limiter_settled_def)
    have bok: "bucket_ok ?b" "bucket_ok (lm_global l)"
      using bucketFor_ok [OF ok bf] ok by (simp_all add: limiter_ok_def)
    note eq = Acquire_ok [OF ok True bf refill_frozen [OF lb(1)] refill_frozen [OF lb(2)], of est]
    have l': "limiter_ok l'" using Acquire_limiter_ok [OF ok est, of "\<lambda>_. t" None tw x] a by simp
    define g where "g = admitted r"
    have "lm_perTarget l' = (lm_perTarget l)(x \<mapsto> (if g then take_one ?b else ?b))
        \<and> lm_global l' = (if g then take_one (lm_global l) else lm_global l)
        \<and> lm_ptRPS l' = lm_ptRPS l \<and> (g \<longrightarrow> 1 \<le> stored ?b \<and> 1 \<le> stored (lm_global l))"
      using a l1 unfolding eq Let_def g_def
      by (auto simp: refuse_def recordBlocked_def Since_def admitted_def
          split: option.splits prod.splits if_splits)
    then have P: "lm_perTarget l' = (lm_perTarget l)(x \<mapsto> (if g then take_one ?b else ?b))"
      and G: "lm_global l' = (if g then take_one (lm_global l) else lm_global l)"
      and R: "lm_ptRPS l' = lm_ptRPS l"
      and g1: "g \<Longrightarrow> 1 \<le> stored ?b" "g \<Longrightarrow> 1 \<le> stored (lm_global l)" by blast+
    have "limiter_settled l' t"
      using l' s lb P G take_one_ok(4) [OF bok(1) g1(1)] take_one_ok(4) [OF bok(2) g1(2)]
      unfolding limiter_settled_def by (cases g) (auto split: if_splits)
    moreover have "stored (target_bucket l' y t) =
        stored (target_bucket l y t) - (if g \<and> y = x then 1 else 0)"
      unfolding target_bucket_upd [OF P R] using take_one_ok(3) [OF bok(1) g1(1)] by auto
    moreover have "stored (lm_global l') = stored (lm_global l) - (if g then 1 else 0)"
      unfolding G using take_one_ok(3) [OF bok(2) g1(2)] by auto
    ultimately show ?thesis unfolding g_def by blast
  qed
  then show "limiter_settled l' t"
    and "stored (target_bucket l' y t) =
           stored (target_bucket l y t) - (if admitted r \<and> y = x then 1 else 0)"
    and "stored (lm_global l') = stored (lm_global l) - (if admitted r then 1 else 0)" by blast+
qed

text \<open>Any sequence of requests \<open>(target, estimated bytes)\<close> while the clock stands still: the targets
  of the admitted ones.\<close>

fun acquires :: "instant \<Rightarrow> Tripwire option \<Rightarrow> limiter \<Rightarrow> (string \<times> int) list \<Rightarrow> string list" where
  "acquires t tw l [] = []"
| "acquires t tw l ((x, est) # rs) =
     (case Acquire (\<lambda>_. t) l None tw x est of (l', r, _) \<Rightarrow>
        (if admitted r then [x] else []) @ acquires t tw l' rs)"

lemma acquires_bound:
  assumes "limiter_settled l t" "\<forall>r \<in> set rs. snd r \<le> int64_max"
  shows "rat_of_nat (count_list (acquires t tw l rs) y) \<le> stored (target_bucket l y t)
       \<and> rat_of_nat (length (acquires t tw l rs)) \<le> stored (lm_global l)"
  using assms
proof (induction t tw l rs rule: acquires.induct)
  case (1 t tw l)
  have "bucket_ok (target_bucket l y t)" "bucket_ok (lm_global l)"
    using 1 newTokenBucket_ok [of "lm_ptRPS l" "\<lambda>_. t"]
    by (auto simp: limiter_settled_def limiter_ok_def target_bucket_def split: option.splits)
  then show ?case by (simp add: stored_nonneg)
next
  case (2 t tw l x est rs)
  obtain l' r c where a: "Acquire (\<lambda>_. t) l None tw x est = (l', r, c)" by (metis prod_cases3)
  have est: "est \<le> int64_max" using 2 by simp
  note f = Acquire_frozen [OF "2.prems"(1) est a]
  have "rat_of_nat (count_list (acquires t tw l' rs) y) \<le> stored (target_bucket l' y t)
       \<and> rat_of_nat (length (acquires t tw l' rs)) \<le> stored (lm_global l')"
    using "2.IH" [OF a [symmetric] refl] f(1) "2.prems"(2) by simp
  then show ?case using f(2) [of y] f(3) a by auto
qed


lemma byte_rate_ok:
  assumes "\<bar>k\<bar> < 2 ^ 40"
  shows "f_div (f_mul (f64_of_int k) (Fin 1000)) (Fin 8) = Fin (of_int (125 * k))"
proof -
  have "f_mul (f64_of_int k) (Fin 1000) = f64_of_int (k * 1000)"
    using assms by (simp add: f64_of_int_small f64_of_int_def [of "k * 1000"])
  also have "\<dots> = Fin (of_int (k * 1000))" using assms by (intro f64_of_int_small) simp
  finally have "f_div (f_mul (f64_of_int k) (Fin 1000)) (Fin 8) = f64_of_int (125 * k)"
    by (simp add: f64_of_int_def)
  then show ?thesis using assms by (simp add: f64_of_int_small)
qed

text \<open>Caps a limiter is well formed for: real rates, a byte rate below 2^40 Kbps.\<close>

definition caps_ok :: "CapSpec \<Rightarrow> bool" where
  "caps_ok caps \<longleftrightarrow> rate_ok (cs_PerTargetRPS caps) \<and> rate_ok (cs_GlobalRPS caps)
     \<and> \<bar>cs_StreamingByteRateKbps caps\<bar> < 2 ^ 40"

lemma NewLimiter_ok:
  assumes "caps_ok caps" shows "limiter_ok (fst (NewLimiter clk caps))"
proof -
  let ?k = "cs_StreamingByteRateKbps caps"
  have bytes: "bucket_ok (fst (newTokenBucket c (Fin (of_int (125 * ?k))) (Fin (of_int (125 * ?k)))))"
    if "0 < ?k" for c
  proof -
    have "\<bar>125 * ?k\<bar> < 2 ^ 53" using assms unfolding caps_ok_def abs_mult by simp
    then have "is_f64 (of_int (125 * ?k))" unfolding is_f64_def by (rule rnd_of_int)
    moreover have "(of_int (125 * ?k) :: rat) < of_int (2 ^ 53)"
      using \<open>\<bar>125 * ?k\<bar> < 2 ^ 53\<close> unfolding of_int_less_iff by simp
    moreover have "(1 :: rat) \<le> of_int (125 * ?k)" using that by simp
    ultimately show ?thesis by (simp add: newTokenBucket_def Now_def bucket_ok_def)
  qed
  have "rate_ok (cs_GlobalRPS caps)" "rate_ok (cs_PerTargetRPS caps)" "\<bar>?k\<bar> < 2 ^ 40"
    using assms by (simp_all add: caps_ok_def)
  then show ?thesis
    using newTokenBucket_ok [of "cs_GlobalRPS caps" clk] bytes
    unfolding NewLimiter_def Let_def byte_rate_ok [OF \<open>\<bar>?k\<bar> < 2 ^ 40\<close>]
    by (auto simp: limiter_ok_def Now_def split: prod.splits if_splits) (metis fst_conv)
qed

lemma NewLimiter_fields:
  "lm_perTarget (fst (NewLimiter clk caps)) = Map.empty"
  "lm_global (fst (NewLimiter clk caps)) =
     fst (newTokenBucket clk (cs_GlobalRPS caps) (max1 (cs_GlobalRPS caps)))"
  "lm_ptRPS (fst (NewLimiter clk caps)) = cs_PerTargetRPS caps"
  by (simp_all add: NewLimiter_def newTokenBucket_def Now_def Let_def)

lemma max1_Fin: "0 < r \<Longrightarrow> max1 (Fin r) = Fin (max 1 r)"
  by (simp add: max1_def max_def)

text \<open>C10. While the clock stands still (a paused run), a fresh limiter admits at most the global
  burst of requests in all and at most the per-target burst for each target, whatever the
  order and the targets of the requests: a burst is the rate, and at least one request. The rates
  of the caps are numbers, positive and below \<open>2 ^ 53\<close>, and the byte rate is below \<open>2 ^ 40\<close> Kbps in
  absolute value; with NaN rates there is no bound (\<open>nan_caps_admit_everything\<close> below).\<close>

theorem frozen_clock_bounds_admissions:
  assumes "caps_ok caps" and "cs_GlobalRPS caps = Fin g" and "cs_PerTargetRPS caps = Fin p"
    and "\<forall>r \<in> set rs. snd r \<le> int64_max"
  shows "rat_of_nat (length (acquires t tw (fst (NewLimiter (\<lambda>_. t) caps)) rs)) \<le> max 1 g
       \<and> rat_of_nat (count_list (acquires t tw (fst (NewLimiter (\<lambda>_. t) caps)) rs) y) \<le> max 1 p"
proof -
  let ?l = "fst (NewLimiter (\<lambda>_. t) caps)"
  have pos: "0 < g" "0 < p" using assms(1-3) by (auto simp: caps_ok_def rate_ok_def)
  have "limiter_settled ?l t"
    using NewLimiter_ok [OF assms(1)]
    by (simp add: limiter_settled_def NewLimiter_fields newTokenBucket_def Now_def)
  moreover have "stored (target_bucket ?l y t) = max 1 p"
    using pos assms(3)
    by (simp add: target_bucket_def NewLimiter_fields newTokenBucket_def Now_def stored_def max1_Fin)
  moreover have "stored (lm_global ?l) = max 1 g"
    using pos assms(2) by (simp add: NewLimiter_fields newTokenBucket_def Now_def stored_def max1_Fin)
  ultimately show ?thesis using acquires_bound [OF _ assms(4), of ?l t tw y] by simp
qed

text \<open>The latched tripwire stops everything: every \<open>Acquire\<close> is refused with a safety-class
  error naming the reason, and no budget and no clock reading is spent.\<close>

theorem tripped_limiter_refuses:
  assumes "Tripped t"
  shows "Acquire clk l None (Some t) x est =
     (l, Inl (safetyErr (''tripwire latched: '' @ Reason t)), clk)
   \<and> IsClass (Some (safetyErr (''tripwire latched: '' @ Reason t))) ClassSafety
   \<and> \<not> pe_retryable (safetyErr (''tripwire latched: '' @ Reason t))"
  using assms by (simp add: Acquire_def safetyErr_def IsClass_def retryable_default)

theorem tripped_limiter_refuses_witness:
  "admitted (fst (snd (Acquire (\<lambda>_. 0) (fst (NewLimiter (\<lambda>_. 0) caps)) None
      (Some (Trip (NewTripwire 5) ''storm'')) ''a'' 0))) = False"
  using tripped_limiter_refuses [of "Trip (NewTripwire 5) ''storm''" "\<lambda>_. 0"
      "fst (NewLimiter (\<lambda>_. 0) caps)" "''a''" 0]
  by (simp add: Trip_def Tripped_def NewTripwire_def admitted_def)

section \<open>A NaN rate disables the limiter\<close>

definition nan_bucket :: "tokenBucket \<Rightarrow> bool" where
  "nan_bucket b \<longleftrightarrow> tb_rps b = NaN \<and> tb_burst b = NaN \<and> tb_tokens b = NaN"

definition nan_limiter :: "limiter \<Rightarrow> bool" where
  "nan_limiter l \<longleftrightarrow> lm_ptRPS l = NaN \<and> nan_bucket (lm_global l) \<and> lm_bytes l = None
     \<and> (\<forall>x b. lm_perTarget l x = Some b \<longrightarrow> nan_bucket b)"

lemma f_le_NaN [simp]: "\<not> f_le NaN x"
  by (simp add: f_le_def)

lemma nan_new: "nan_bucket (fst (newTokenBucket clk NaN (max1 NaN)))"
  by (simp add: nan_bucket_def newTokenBucket_def Now_def max1_def)

lemma nan_tryTake:
  "nan_bucket b \<Longrightarrow> \<exists>b' clk'. tryTake clk b (Fin 1) = (b', True, clk') \<and> nan_bucket b'"
  by (simp add: nan_bucket_def tryTake_def refill_def Now_def Since_def Let_def)

lemma nan_Acquire:
  assumes "nan_limiter l" "not_tripped tw"
  shows "\<exists>l' rs clk'. Acquire clk l None tw x est = (l', Inr rs, clk') \<and> nan_limiter l'"
proof -
  obtain l1 pt clk2 where bf: "bucketFor (snd (Now clk)) l x = (l1, pt, clk2)" by (metis prod_cases3)
  note l1 = bucketFor_target [OF bf]
  have pt: "nan_bucket pt"
    using l1 assms(1) nan_new by (auto simp: nan_limiter_def target_bucket_def split: option.splits)
  obtain pt1 clk3 where t1: "tryTake clk2 pt (Fin 1) = (pt1, True, clk3)" "nan_bucket pt1"
    using nan_tryTake [OF pt] by blast
  obtain g1 clk4 where t2: "tryTake clk3 (lm_global l) (Fin 1) = (g1, True, clk4)" "nan_bucket g1"
    using nan_tryTake assms(1) by (metis nan_limiter_def)
  have nt: "\<not> (case tw of None \<Rightarrow> False | Some t \<Rightarrow> Tripped t)"
    using assms(2) by (simp add: not_tripped_def split: option.splits)
  have "Acquire clk l None tw x est =
      ((set_pt l1 x pt1)\<lparr>lm_global := g1\<rparr>, Inr (granted (Fin 0)), clk4)"
    using bf t1 t2 l1 nt assms(1) by (simp add: Acquire_def nan_limiter_def Now_def Let_def)
  moreover have "nan_limiter ((set_pt l1 x pt1)\<lparr>lm_global := g1\<rparr>)"
    using assms(1) l1 t1(2) t2(2) by (auto simp: nan_limiter_def)
  ultimately show ?thesis by blast
qed

primrec clocks_run :: "(clock \<times> string \<times> int) list \<Rightarrow> Tripwire option \<Rightarrow> limiter \<Rightarrow> bool list" where
  "clocks_run [] tw l = []"
| "clocks_run (r # rs) tw l =
     (case Acquire (fst r) l None tw (fst (snd r)) (snd (snd r)) of (l', res, _) \<Rightarrow>
        admitted res # clocks_run rs tw l')"

lemma nan_clocks_run:
  "nan_limiter l \<Longrightarrow> not_tripped tw \<Longrightarrow> clocks_run rs tw l = map (\<lambda>_. True) rs"
proof (induction rs arbitrary: l)
  case (Cons r rs)
  then show ?case
    using nan_Acquire [of l tw "fst r" "fst (snd r)" "snd (snd r)"] by (auto simp: admitted_def)
qed simp

text \<open>Caps whose rates are NaN (which validation accepts) give a limiter that never refuses:
  every request of every sequence is admitted, at any clock, until the tripwire latches.\<close>

theorem nan_caps_admit_everything:
  assumes "cs_PerTargetRPS caps = NaN" and "cs_GlobalRPS caps = NaN"
    and "cs_StreamingByteRateKbps caps = 0" and "not_tripped tw"
  shows "clocks_run rs tw (fst (NewLimiter clk caps)) = map (\<lambda>_. True) rs"
proof -
  have "f_div (f_mul (f64_of_int 0) (Fin 1000)) (Fin 8) = Fin 0" using byte_rate_ok [of 0] by simp
  then have "nan_limiter (fst (NewLimiter clk caps))"
    using assms(1-3) nan_new [of clk]
    by (simp add: NewLimiter_def nan_limiter_def newTokenBucket_def Now_def nan_bucket_def Let_def max1_def)
  then show ?thesis by (rule nan_clocks_run [OF _ assms(4)])
qed


theorem nan_caps_admit_everything_witness:
  "clocks_run [(\<lambda>_. 0, ''a'', 0), (\<lambda>_. 0, ''a'', 0)] None (fst (NewLimiter (\<lambda>_. 0)
     \<lparr>cs_PerTargetRPS = NaN, cs_GlobalRPS = NaN, cs_MaxConcurrentSessions = 1,
      cs_TotalRequestBudget = 1, cs_StreamingByteRateKbps = 0, cs_ConcurrentStreams = 1,
      cs_PerSessionMaxDurationSeconds = 1, cs_PerSessionMaxActions = 1\<rparr>)) = [True, True]"
  by (subst nan_caps_admit_everything) (simp_all add: not_tripped_def)

section \<open>Witnesses\<close>

lemma is_f64_of_int: "\<bar>n\<bar> < 2 ^ 53 \<Longrightarrow> is_f64 (of_int n)"
  unfolding is_f64_def by (rule rnd_of_int)

lemmas is_f64_10 = is_f64_of_int [of 10, simplified]
lemmas is_f64_50 = is_f64_of_int [of 50, simplified]

lemma default_caps_ok:
  "caps_ok (Effective oor \<lparr>cs_PerTargetRPS = Fin 0, cs_GlobalRPS = Fin 0,
     cs_MaxConcurrentSessions = 0, cs_TotalRequestBudget = 0, cs_StreamingByteRateKbps = 0,
     cs_ConcurrentStreams = 0, cs_PerSessionMaxDurationSeconds = 0,
     cs_PerSessionMaxActions = 0\<rparr> DefaultCeiling)"
  by (simp add: caps_ok_def rate_ok_def Effective_def DefaultCeiling_def is_f64_10 is_f64_50)

definition sample_limiter :: "f64 \<Rightarrow> limiter" where
  "sample_limiter g = \<lparr>lm_perTarget = Map.empty,
     lm_global = \<lparr>tb_rps = Fin 10, tb_burst = Fin 10, tb_tokens = g, tb_last = 0\<rparr>,
     lm_bytes = None, lm_ptRPS = Fin 10, lm_gRPS = Fin 10, lm_byteRate = Fin 0,
     lm_blockedNanos = 0, lm_sinceStart = 0\<rparr>"

lemma sample_limiter_ok: "is_f64 g \<Longrightarrow> 0 \<le> g \<Longrightarrow> g \<le> 10 \<Longrightarrow> limiter_ok (sample_limiter (Fin g))"
  by (simp add: sample_limiter_def limiter_ok_def rate_ok_def bucket_ok_def is_f64_10)

theorem frozen_clock_bounds_admissions_witness:
  "length (acquires 5 None (fst (NewLimiter (\<lambda>_. 5)
     \<lparr>cs_PerTargetRPS = Fin 10, cs_GlobalRPS = Fin 50, cs_MaxConcurrentSessions = 20,
      cs_TotalRequestBudget = 100, cs_StreamingByteRateKbps = 12000, cs_ConcurrentStreams = 3,
      cs_PerSessionMaxDurationSeconds = 60, cs_PerSessionMaxActions = 10\<rparr>))
     (replicate 99 (''a'', 0))) \<le> 50"
proof -
  let ?caps = "\<lparr>cs_PerTargetRPS = Fin 10, cs_GlobalRPS = Fin 50, cs_MaxConcurrentSessions = 20,
      cs_TotalRequestBudget = 100, cs_StreamingByteRateKbps = 12000, cs_ConcurrentStreams = 3,
      cs_PerSessionMaxDurationSeconds = 60, cs_PerSessionMaxActions = 10\<rparr>"
  let ?n = "length (acquires 5 None (fst (NewLimiter (\<lambda>_. 5) ?caps)) (replicate 99 (''a'', 0)))"
  have "caps_ok ?caps" by (simp add: caps_ok_def rate_ok_def is_f64_10 is_f64_50)
  then have "rat_of_nat ?n \<le> max 1 50"
    using frozen_clock_bounds_admissions [of ?caps 50 10 "replicate 99 (''a'', 0)" 5 None]
    by (simp add: int64_max_def)
  then have "rat_of_nat ?n \<le> of_nat 50" by simp
  then show ?thesis unfolding of_nat_le_iff .
qed

lemma sample_numbers:
  "f64_of_rat 9 = Fin 9" "f64_of_rat 10 = Fin 10" "f64_of_rat 4 = Fin 4"
  using f64_of_int_small [of 9] f64_of_int_small [of 10] f64_of_int_small [of 4]
  by (simp_all add: f64_of_int_def)

theorem refusal_leaks_no_budget_witness:
  "case Acquire (\<lambda>_. 0) (sample_limiter (Fin 0)) None None ''a'' 0 of (l', r, _) \<Rightarrow>
     r = Inl (safetyErr ''global request cap exceeded'')
   \<and> touched (lm_global (sample_limiter (Fin 0))) (lm_global l')
   \<and> map_option stored (lm_perTarget l' ''a'') = Some 10"
proof -
  have a: "\<exists>l' c. Acquire (\<lambda>_. 0) (sample_limiter (Fin 0)) None None ''a'' 0
      = (l', Inl (safetyErr ''global request cap exceeded''), c)
      \<and> map_option stored (lm_perTarget l' ''a'') = Some 10"
    by (simp add: Acquire_def sample_limiter_def bucketFor_def newTokenBucket_def Now_def Since_def
        max1_def tryTake_def refill_def Let_def f_sub_def give_back_def refuse_def
        recordBlocked_def set_pt_def stored_def sample_numbers)
  then obtain l' c where "Acquire (\<lambda>_. 0) (sample_limiter (Fin 0)) None None ''a'' 0
      = (l', Inl (safetyErr ''global request cap exceeded''), c)"
    "map_option stored (lm_perTarget l' ''a'') = Some 10" by blast
  with refusal_leaks_no_budget [OF sample_limiter_ok _ this(1)] show ?thesis
    by (simp add: int64_max_def)
qed

theorem grant_takes_one_token_each_witness:
  "case Acquire (\<lambda>_. 0) (sample_limiter (Fin 5)) None None ''a'' 0 of (l', r, _) \<Rightarrow>
     admitted r \<and> limiter_ok l' \<and> stored (lm_global l') = 4"
proof -
  have "\<exists>l' rs c. Acquire (\<lambda>_. 0) (sample_limiter (Fin 5)) None None ''a'' 0 = (l', Inr rs, c)
      \<and> stored (lm_global l') = 4"
    by (simp add: Acquire_def sample_limiter_def bucketFor_def newTokenBucket_def Now_def Since_def
        max1_def tryTake_def refill_def Let_def f_sub_def set_pt_def stored_def sample_numbers)
  then obtain l' rs c where
    a: "Acquire (\<lambda>_. 0) (sample_limiter (Fin 5)) None None ''a'' 0 = (l', Inr rs, c)"
    "stored (lm_global l') = 4" by blast
  have "limiter_ok (sample_limiter (Fin 5))"
    using is_f64_of_int [of 5] by (intro sample_limiter_ok) simp_all
  from grant_takes_one_token_each [OF this _ a(1)] a show ?thesis
    by (simp add: int64_max_def admitted_def)
qed

section \<open>Releasing\<close>

definition reservation_ok :: "reservation \<Rightarrow> bool" where
  "reservation_ok r \<longleftrightarrow> (\<exists>m a. rs_reservedBytes r = Fin m \<and> 0 \<le> m \<and> is_f64 m \<and> m \<le> 2 ^ 64
     \<and> rs_actualBytes r = Fin a \<and> \<bar>a\<bar> \<le> 2 ^ 64)"

lemma returnBytes_ok:
  assumes "limiter_ok l" "n = PInf \<or> (\<exists>x. n = Fin x)"
  shows "limiter_ok (returnBytes l n)"
proof (cases "lm_bytes l")
  case None
  then show ?thesis using assms(1) by (simp add: returnBytes_def)
next
  case (Some bb)
  obtain r B t where b: "tb_rps bb = Fin r" "tb_burst bb = Fin B" "tb_tokens bb = Fin t"
      "0 < r" "is_f64 B" "1 \<le> B" "B < 2 ^ 53" "is_f64 t" "0 \<le> t" "t \<le> B"
    using assms(1) Some unfolding limiter_ok_def bucket_ok_def by blast
  show ?thesis
  proof (cases "f_le n (Fin 0)")
    case True
    then show ?thesis using assms(1) Some by (simp add: returnBytes_def)
  next
    case False
    have "f_add (Fin t) n = PInf \<or> (\<exists>z. f_add (Fin t) n = Fin z \<and> t \<le> z \<and> is_f64 z)"
    proof (cases "n = PInf")
      case True
      then show ?thesis by simp
    next
      case f: False
      then obtain x where x: "n = Fin x" using assms(2) by blast
      then show ?thesis using f64_of_rat_ge [OF b(8,9), of "t + x"] False by simp
    qed
    then have "bucket_ok (bb\<lparr>tb_tokens := (if f_lt (tb_burst bb) (f_add (tb_tokens bb) n)
        then tb_burst bb else f_add (tb_tokens bb) n)\<rparr>)"
      using b by (auto simp: bucket_ok_def)
    then show ?thesis using Some False assms(1)
      by (simp add: returnBytes_def Let_def limiter_ok_def)
  qed
qed

lemma refund_finite:
  assumes "reservation_ok r"
  shows "\<exists>y. refund r = Fin y \<and> 0 \<le> y
     \<and> (f_le (Fin 0) (rs_actualBytes r) \<longrightarrow> f_le (refund r) (rs_reservedBytes r))"
proof -
  obtain m a where r: "rs_reservedBytes r = Fin m" "0 \<le> m" "is_f64 m" "m \<le> 2 ^ 64"
      "rs_actualBytes r = Fin a" "\<bar>a\<bar> \<le> 2 ^ 64"
    using assms unfolding reservation_ok_def by blast
  show ?thesis
  proof (cases "rs_reconciled r \<and> a < m")
    case True
    have "\<bar>m - a\<bar> \<le> 2 ^ 65" using r by simp
    also have "(2::rat) ^ 65 \<le> 2 ^ 1023" by (rule power_increasing) simp_all
    finally have "f64_of_rat (m - a) = Fin (rnd (m - a))" by (rule f64_of_rat_small)
    moreover have "0 \<le> rnd (m - a)" using True by (intro rnd_nonneg) simp
    moreover have "rnd (m - a) \<le> m" if "0 \<le> a"
      using rnd_mono [of "m - a" m] that r(3) by (simp add: is_f64_def)
    ultimately show ?thesis using True r by (simp add: refund_def f_sub_def)
  qed (use r in \<open>auto simp: refund_def\<close>)
qed

lemma Reconcile_reservation_ok:
  assumes "reservation_ok r" "in_i64 n" shows "reservation_ok (Reconcile r n)"
proof -
  have "\<bar>n\<bar> \<le> 2 ^ 64" using assms(2) by (simp add: in_i64_def int64_min_def int64_max_def abs_le_iff)
  moreover from this have "(of_int \<bar>n\<bar> :: rat) \<le> of_int (2 ^ 64)" by (simp only: of_int_le_iff)
  then have "(of_int n :: rat) \<le> 2 powi 64" "- (2 powi 64) \<le> (of_int n :: rat)"
    by (simp_all add: power_int_def)
  then have "rnd (of_int n) \<le> 2 powi 64" "- (2 powi 64) \<le> rnd (of_int n)"
    using rnd_le_powi [of "of_int n" 64] rnd_le_powi [of "- of_int n" 64]
    by (simp_all add: rnd_minus)
  ultimately show ?thesis using assms(1)
    by (auto simp: reservation_ok_def Reconcile_def f64_of_int_rnd power_int_def)
qed

lemma granted_reservation_ok:
  assumes "0 < n" "n \<le> int64_max" shows "reservation_ok (granted (f64_of_int n))"
proof -
  obtain m where "f64_of_int n = Fin m" "0 \<le> m" "m \<le> 2 ^ 64" using f64_of_int_amount [OF assms] by blast
  moreover have "is_f64 m"
    using f64_of_int_rnd [of n] assms calculation(1) by (auto simp: int64_max_def)
  ultimately show ?thesis by (simp add: reservation_ok_def granted_def)
qed

text \<open>A reservation is settled once: releasing it again changes nothing, and a release keeps
  every bucket well formed (the byte budget never exceeds its burst); what it credits is never
  negative, nor more than what was reserved unless a negative byte count was reported.\<close>

theorem release_settles_once:
  assumes "limiter_ok l" and "reservation_ok r"
  shows "Release (fst (Release l r)) (snd (Release l r)) = Release l r
       \<and> limiter_ok (fst (Release l r))
       \<and> f_le (Fin 0) (refund r)
       \<and> (f_le (Fin 0) (rs_actualBytes r) \<longrightarrow> f_le (refund r) (rs_reservedBytes r))"
proof -
  obtain y where y: "refund r = Fin y" "0 \<le> y"
    "f_le (Fin 0) (rs_actualBytes r) \<longrightarrow> f_le (refund r) (rs_reservedBytes r)"
    using refund_finite [OF assms(2)] by blast
  have "limiter_ok (returnBytes l (refund r))" using assms(1) y(1) by (intro returnBytes_ok) simp_all
  then show ?thesis using y assms(1) by (simp add: Release_def)
qed

theorem release_settles_once_witness:
  "f_le (refund (Reconcile (granted (f64_of_int 10)) 4)) (Fin 10)"
proof -
  have 1: "reservation_ok (granted (f64_of_int 10))"
    by (rule granted_reservation_ok) (simp_all add: int64_max_def)
  then have 2: "reservation_ok (Reconcile (granted (f64_of_int 10)) 4)"
    by (rule Reconcile_reservation_ok) (simp add: in_i64_def int64_min_def int64_max_def)
  have "limiter_ok (sample_limiter (Fin 0))" by (rule sample_limiter_ok) simp_all
  from release_settles_once [OF this 2] show ?thesis
    by (simp add: Reconcile_def granted_def f64_of_int_small)
qed

end
