(* ===== verification/Semaphore.thy ===== *)
theory Semaphore
  imports Pterr
begin

text \<open>
  The resizable semaphore (\<open>internal/engine/semaphore.go\<close>): its critical sections, and the
  system of the goroutines that use it.

  The mutex, the condition variable and the context watcher of \<open>acquire\<close> are modelled step by
  step. \<open>cond.Wait\<close> puts the caller on the notification list and then releases the mutex, in
  one step \<open>Park\<close>; between the check of the context and that step the caller still holds the
  mutex. \<open>Signal\<close> and \<open>Broadcast\<close> need no mutex, as in the code: \<open>release\<close> and \<open>setLimit\<close>
  call them after unlocking, the watcher at any time after the cancellation.
\<close>

section \<open>Critical sections\<close>

record semaphore =
  sem_limit :: int
  sem_held :: int

definition newSemaphore :: "int \<Rightarrow> semaphore" where
  "newSemaphore limit = \<lparr>sem_limit = limit, sem_held = 0\<rparr>"

text \<open>One iteration of the loop of \<open>acquire\<close>: take the permit, give up, or wait.\<close>

datatype acquire_step = Granted semaphore | GiveUp | MustWait

definition acquire_once :: "semaphore \<Rightarrow> bool \<Rightarrow> acquire_step" where
  "acquire_once s ctx_done =
     (if sem_held s \<ge> sem_limit s then (if ctx_done then GiveUp else MustWait)
      else Granted (s\<lparr>sem_held := sem_held s + 1\<rparr>))"

definition sem_release :: "semaphore \<Rightarrow> semaphore" where
  "sem_release s = (if sem_held s > 0 then s\<lparr>sem_held := sem_held s - 1\<rparr> else s)"

definition currentLimit :: "semaphore \<Rightarrow> int" where
  "currentLimit s = sem_limit s"

definition sem_setLimit :: "semaphore \<Rightarrow> int \<Rightarrow> semaphore" where
  "sem_setLimit s n = s\<lparr>sem_limit := n\<rparr>"

section \<open>The system\<close>

text \<open>Where a goroutine is: outside, before locking the mutex, holding it before a check or before
  parking, on the notification list, holding a permit, returned with the context's error.\<close>

datatype sem_pc = Outside | AtLock | Checking | Parking | Parked | Holding | Failed

record sem_sys =
  sy_sem :: semaphore
  sy_mutex :: "nat option"
  sy_pc :: "sem_pc list"
  sy_cancelled :: bool
  sy_armed :: "nat set"
  sy_signals :: nat
  sy_bcasts :: nat

definition sem_init :: "int \<Rightarrow> nat \<Rightarrow> sem_sys" where
  "sem_init limit n = \<lparr>sy_sem = newSemaphore limit, sy_mutex = None, sy_pc = replicate n Outside,
     sy_cancelled = False, sy_armed = {}, sy_signals = 0, sy_bcasts = 0\<rparr>"

datatype sem_event = Call nat | Lock nat | Check nat | Park nat | Rel nat | Signal "nat option"
  | SetLimit int | Bcast | CancelCtx | Watch nat

definition wake_all :: "sem_pc list \<Rightarrow> sem_pc list" where
  "wake_all = map (\<lambda>p. if p = Parked then AtLock else p)"

text \<open>None: the step is not possible in this state.\<close>

fun sem_step :: "sem_sys \<Rightarrow> sem_event \<Rightarrow> sem_sys option" where
  "sem_step y (Call i) =
     (if i < length (sy_pc y) \<and> sy_pc y ! i = Outside
      then Some (if sy_cancelled y then y\<lparr>sy_pc := (sy_pc y)[i := Failed]\<rparr>
                 else y\<lparr>sy_pc := (sy_pc y)[i := AtLock], sy_armed := insert i (sy_armed y)\<rparr>)
      else None)"
| "sem_step y (Lock i) =
     (if i < length (sy_pc y) \<and> sy_pc y ! i = AtLock \<and> sy_mutex y = None
      then Some (y\<lparr>sy_pc := (sy_pc y)[i := Checking], sy_mutex := Some i\<rparr>) else None)"
| "sem_step y (Check i) =
     (if i < length (sy_pc y) \<and> sy_pc y ! i = Checking
      then Some (case acquire_once (sy_sem y) (sy_cancelled y) of
             Granted s \<Rightarrow> y\<lparr>sy_sem := s, sy_pc := (sy_pc y)[i := Holding], sy_mutex := None\<rparr>
           | GiveUp \<Rightarrow> y\<lparr>sy_pc := (sy_pc y)[i := Failed], sy_mutex := None\<rparr>
           | MustWait \<Rightarrow> y\<lparr>sy_pc := (sy_pc y)[i := Parking]\<rparr>)
      else None)"
| "sem_step y (Park i) =
     (if i < length (sy_pc y) \<and> sy_pc y ! i = Parking
      then Some (y\<lparr>sy_pc := (sy_pc y)[i := Parked], sy_mutex := None\<rparr>) else None)"
| "sem_step y (Rel i) =
     (if i < length (sy_pc y) \<and> sy_pc y ! i = Holding \<and> sy_mutex y = None
      then Some (y\<lparr>sy_sem := sem_release (sy_sem y), sy_pc := (sy_pc y)[i := Outside],
                   sy_signals := sy_signals y + 1\<rparr>) else None)"
| "sem_step y (Signal w) =
     (if sy_signals y = 0 then None
      else case w of
             None \<Rightarrow> if Parked \<in> set (sy_pc y) then None
                     else Some (y\<lparr>sy_signals := sy_signals y - 1\<rparr>)
           | Some i \<Rightarrow> if i < length (sy_pc y) \<and> sy_pc y ! i = Parked
                       then Some (y\<lparr>sy_signals := sy_signals y - 1, sy_pc := (sy_pc y)[i := AtLock]\<rparr>)
                       else None)"
| "sem_step y (SetLimit n) =
     (if sy_mutex y = None
      then Some (y\<lparr>sy_sem := sem_setLimit (sy_sem y) n, sy_bcasts := sy_bcasts y + 1\<rparr>) else None)"
| "sem_step y Bcast =
     (if sy_bcasts y = 0 then None
      else Some (y\<lparr>sy_bcasts := sy_bcasts y - 1, sy_pc := wake_all (sy_pc y)\<rparr>))"
| "sem_step y CancelCtx = Some (y\<lparr>sy_cancelled := True\<rparr>)"
| "sem_step y (Watch i) =
     (if sy_cancelled y \<and> i \<in> sy_armed y
      then Some (y\<lparr>sy_armed := sy_armed y - {i}, sy_pc := wake_all (sy_pc y)\<rparr>) else None)"

fun sem_run :: "sem_sys \<Rightarrow> sem_event list \<Rightarrow> sem_sys option" where
  "sem_run y [] = Some y"
| "sem_run y (e # es) = (case sem_step y e of None \<Rightarrow> None | Some y' \<Rightarrow> sem_run y' es)"

section \<open>Counting goroutines\<close>

definition awake :: "sem_pc \<Rightarrow> bool" where
  "awake p \<longleftrightarrow> p = AtLock \<or> p = Checking"

lemma count_wake_all: "P Parked = P AtLock \<Longrightarrow> count_if P (wake_all xs) = count_if P xs"
  by (induction xs) (auto simp: count_if_def wake_all_def)

lemma Parked_wake_all: "Parked \<notin> set (wake_all xs)"
  by (auto simp: wake_all_def)

lemma nth_wake_all: "i < length xs \<Longrightarrow> wake_all xs ! i = (if xs ! i = Parked then AtLock else xs ! i)"
  by (simp add: wake_all_def)

lemma length_wake_all [simp]: "length (wake_all xs) = length xs"
  by (simp add: wake_all_def)

section \<open>The invariant\<close>

text \<open>The mutex is held by exactly the goroutine that is checking or parking; permits are the
  holders; a goroutine about to park has seen no permit; and while a goroutine is parked, every
  free permit has a goroutine awake, or a wakeup on the way, to take it.\<close>

definition owner :: "sem_pc \<Rightarrow> bool" where
  "owner p \<longleftrightarrow> p = Checking \<or> p = Parking"

definition mutex_pcs :: "nat option \<Rightarrow> sem_pc list \<Rightarrow> bool" where
  "mutex_pcs m pcs \<longleftrightarrow> (\<forall>i < length pcs. owner (pcs ! i) \<longleftrightarrow> m = Some i)
     \<and> (\<forall>i. m = Some i \<longrightarrow> i < length pcs)"

definition mutex_ok :: "sem_sys \<Rightarrow> bool" where
  "mutex_ok y \<longleftrightarrow> mutex_pcs (sy_mutex y) (sy_pc y)"

definition held_ok :: "sem_sys \<Rightarrow> bool" where
  "held_ok y \<longleftrightarrow> sem_held (sy_sem y) = count_if (\<lambda>p. p = Holding) (sy_pc y)"

definition parking_ok :: "sem_sys \<Rightarrow> bool" where
  "parking_ok y \<longleftrightarrow> (Parking \<in> set (sy_pc y) \<longrightarrow> sem_limit (sy_sem y) \<le> sem_held (sy_sem y))"

definition wakeup_ok :: "sem_sys \<Rightarrow> bool" where
  "wakeup_ok y \<longleftrightarrow> (Parked \<in> set (sy_pc y) \<longrightarrow> 0 < sy_bcasts y
     \<or> sem_limit (sy_sem y) - sem_held (sy_sem y) \<le> count_if awake (sy_pc y) + int (sy_signals y))"

lemma mutex_enter:
  "mutex_pcs None pcs \<Longrightarrow> i < length pcs \<Longrightarrow> owner v \<Longrightarrow> mutex_pcs (Some i) (pcs[i := v])"
  by (auto simp: mutex_pcs_def nth_list_update)

lemma mutex_leave:
  "mutex_pcs m pcs \<Longrightarrow> i < length pcs \<Longrightarrow> owner (pcs ! i) \<Longrightarrow> \<not> owner v \<Longrightarrow>
   mutex_pcs None (pcs[i := v])"
  unfolding mutex_pcs_def by (metis length_list_update nth_list_update option.distinct(1) option.inject)

lemma mutex_keep:
  "mutex_pcs m pcs \<Longrightarrow> owner (pcs ! i) = owner v \<Longrightarrow> mutex_pcs m (pcs[i := v])"
  unfolding mutex_pcs_def by (metis length_list_update nth_list_update nth_list_update_neq)

lemma mutex_wake_all: "mutex_pcs m pcs \<Longrightarrow> mutex_pcs m (wake_all pcs)"
  by (auto simp: mutex_pcs_def nth_wake_all owner_def)

lemma owner_simps [simp]:
  "owner Checking" "owner Parking" "\<not> owner Outside" "\<not> owner AtLock" "\<not> owner Parked"
  "\<not> owner Holding" "\<not> owner Failed"
  by (simp_all add: owner_def)

lemma mutex_free: "mutex_pcs None pcs \<Longrightarrow> p \<in> set pcs \<Longrightarrow> \<not> owner p"
  by (auto simp: mutex_pcs_def in_set_conv_nth)

lemma mutex_sole:
  assumes "mutex_pcs m pcs" "i < length pcs" "owner (pcs ! i)" "p \<in> set (pcs[i := v])" "owner p"
  shows "p = v"
proof -
  obtain j where j: "j < length pcs" "pcs[i := v] ! j = p"
    using assms(4) by (auto simp: in_set_conv_nth)
  show ?thesis
  proof (cases "j = i")
    case True
    then show ?thesis using j by simp
  next
    case False
    then have "owner (pcs ! j)" using j assms(5) by simp
    then show ?thesis using assms(1-3) j(1) False unfolding mutex_pcs_def by (metis option.inject)
  qed
qed

lemma acquire_once_cases:
  "acquire_once s d = (if sem_limit s \<le> sem_held s then (if d then GiveUp else MustWait)
     else Granted (s\<lparr>sem_held := sem_held s + 1\<rparr>))"
  by (simp add: acquire_once_def)

lemma mutex_ok_step:
  assumes "mutex_ok y" "sem_step y e = Some y'" shows "mutex_ok y'"
  using assms
  by (cases e)
     (auto simp: mutex_ok_def acquire_once_cases mutex_wake_all mutex_enter mutex_keep
       mutex_leave [where m = "sy_mutex y"] split: if_splits option.splits)

lemma held_ok_step:
  assumes "held_ok y" "sem_step y e = Some y'" shows "held_ok y'"
proof (cases e)
  case (Rel i)
  then have i: "i < length (sy_pc y)" "sy_pc y ! i = Holding" using assms(2) by (auto split: if_splits)
  then have "0 < count_if (\<lambda>p. p = Holding) (sy_pc y)" by (intro count_if_pos) simp_all
  then show ?thesis using assms Rel i
    by (auto simp: held_ok_def sem_release_def count_if_update split: if_splits)
qed (use assms in \<open>auto simp: held_ok_def count_if_update count_wake_all acquire_once_cases sem_setLimit_def
       split: if_splits option.splits acquire_step.splits\<close>)

lemma Parking_wake_all: "Parking \<in> set (wake_all xs) \<longleftrightarrow> Parking \<in> set xs"
  by (force simp: wake_all_def image_iff)

lemma no_Parking:
  "mutex_ok y \<Longrightarrow> sy_mutex y = None \<Longrightarrow> Parking \<notin> set (sy_pc y)"
  "mutex_ok y \<Longrightarrow> i < length (sy_pc y) \<Longrightarrow> owner (sy_pc y ! i) \<Longrightarrow> v \<noteq> Parking \<Longrightarrow>
     Parking \<notin> set ((sy_pc y)[i := v])"
  unfolding mutex_ok_def using mutex_free mutex_sole owner_simps(2) by metis+

lemma parking_ok_step:
  assumes "parking_ok y" "mutex_ok y" "sem_step y e = Some y'" shows "parking_ok y'"
proof (cases e)
  case (Check i)
  then have i: "i < length (sy_pc y)" "owner (sy_pc y ! i)" using assms(3) by (auto split: if_splits)
  then show ?thesis using assms(3) Check no_Parking(2) [OF assms(2) i]
    by (auto simp: parking_ok_def acquire_once_cases split: if_splits)
next
  case (Rel i)
  then have "sy_mutex y = None" using assms(3) by (auto split: if_splits)
  then show ?thesis using assms(3) Rel no_Parking(1) [OF assms(2)]
    by (auto simp: parking_ok_def split: if_splits dest: in_set_update)
next
  case (SetLimit n)
  then have "sy_mutex y = None" using assms(3) by (auto split: if_splits)
  then show ?thesis using assms(3) SetLimit no_Parking(1) [OF assms(2)]
    by (auto simp: parking_ok_def split: if_splits)
qed (use assms in \<open>auto simp: parking_ok_def Parking_wake_all split: if_splits option.splits dest: in_set_update\<close>)

lemma awake_simps [simp]:
  "awake AtLock" "awake Checking" "\<not> awake Outside" "\<not> awake Parking" "\<not> awake Parked"
  "\<not> awake Holding" "\<not> awake Failed"
  by (simp_all add: awake_def)

lemma wakeup_ok_step:
  assumes "wakeup_ok y" "parking_ok y" "held_ok y" "sem_step y e = Some y'" shows "wakeup_ok y'"
proof (cases e)
  case (Park i)
  then have "Parking \<in> set (sy_pc y)" using assms(4) by (auto simp: in_set_conv_nth split: if_splits)
  then have "sem_limit (sy_sem y) \<le> sem_held (sy_sem y)" using assms(2) by (simp add: parking_ok_def)
  then show ?thesis using assms(4) Park count_if_nonneg [of awake "sy_pc y'"]
    by (auto simp: wakeup_ok_def split: if_splits)
next
  case (Check i)
  then have i: "i < length (sy_pc y)" "sy_pc y ! i = Checking" using assms(4) by (auto split: if_splits)
  have n: "1 \<le> count_if awake (sy_pc y)"
    using count_if_pos [of i "sy_pc y" awake] i by simp
  show ?thesis using assms(1,4) Check i n
    by (auto simp: wakeup_ok_def acquire_once_cases count_if_update split: if_splits dest!: in_set_update)
next
  case (Rel i)
  then show ?thesis using assms(1,4)
    by (auto simp: wakeup_ok_def sem_release_def count_if_update split: if_splits dest!: in_set_update)
next
  case (Signal w)
  then show ?thesis using assms(1,4)
    by (auto simp: wakeup_ok_def count_if_update of_nat_diff split: if_splits option.splits dest!: in_set_update)
qed (use assms(1,4) in \<open>auto simp: wakeup_ok_def count_if_update count_wake_all Parked_wake_all
       split: if_splits dest!: in_set_update\<close>)

definition sem_inv :: "sem_sys \<Rightarrow> bool" where
  "sem_inv y \<longleftrightarrow> mutex_ok y \<and> held_ok y \<and> parking_ok y \<and> wakeup_ok y"

lemma sem_inv_step: "sem_inv y \<Longrightarrow> sem_step y e = Some y' \<Longrightarrow> sem_inv y'"
  unfolding sem_inv_def
  by (blast intro: mutex_ok_step held_ok_step parking_ok_step wakeup_ok_step)

lemma sem_inv_init: "sem_inv (sem_init limit n)"
  by (auto simp: sem_inv_def sem_init_def mutex_ok_def mutex_pcs_def held_ok_def parking_ok_def
      wakeup_ok_def newSemaphore_def count_if_def)

lemma sem_run_inv: "sem_inv y \<Longrightarrow> sem_run y es = Some y' \<Longrightarrow> sem_inv y'"
  by (induction es arbitrary: y) (auto split: option.splits intro: sem_inv_step)

section \<open>Permits\<close>

fun limits :: "sem_event list \<Rightarrow> int list" where
  "limits [] = []"
| "limits (SetLimit n # es) = n # limits es"
| "limits (_ # es) = limits es"

lemma held_bound_step:
  assumes "sem_step y e = Some y'" "sem_held (sy_sem y) \<le> m" "sem_limit (sy_sem y) \<le> m"
    "\<And>n. e = SetLimit n \<Longrightarrow> n \<le> m"
  shows "sem_held (sy_sem y') \<le> m \<and> sem_limit (sy_sem y') \<le> m"
  using assms
  by (cases e) (auto simp: acquire_once_cases sem_release_def sem_setLimit_def
      split: if_splits option.splits)

lemma held_bound_run:
  assumes "sem_run y es = Some y'" "sem_held (sy_sem y) \<le> m" "sem_limit (sy_sem y) \<le> m"
    "\<forall>n \<in> set (limits es). n \<le> m"
  shows "sem_held (sy_sem y') \<le> m"
  using assms
proof (induction es arbitrary: y)
  case Nil
  then show ?case by simp
next
  case (Cons e es)
  then obtain y1 where y1: "sem_step y e = Some y1" "sem_run y1 es = Some y'"
    by (auto split: option.splits)
  have e: "e = SetLimit n \<Longrightarrow> n \<le> m" for n using Cons.prems(4) by simp
  have "\<forall>n \<in> set (limits es). n \<le> m" using Cons.prems(4) by (cases e) simp_all
  then show ?case using Cons.IH [OF y1(2)] held_bound_step [OF y1(1) Cons.prems(2,3) e] by blast
qed

text \<open>C21. Whatever the interleaving of acquires, releases, resizings, wakeups and the cancellation,
  the number of goroutines inside never exceeds the largest limit that was ever set, and the
  semaphore's count is exactly that number: an acquire that failed took no permit.\<close>

theorem semaphore_bounds_holders:
  assumes "sem_run (sem_init limit n) es = Some y" "0 \<le> limit"
  shows "count_if (\<lambda>p. p = Holding) (sy_pc y) \<le> Max (set (limit # limits es))
    \<and> sem_held (sy_sem y) = count_if (\<lambda>p. p = Holding) (sy_pc y)"
proof -
  have "held_ok y" using sem_run_inv [OF sem_inv_init assms(1)] by (simp add: sem_inv_def)
  then have h: "sem_held (sy_sem y) = count_if (\<lambda>p. p = Holding) (sy_pc y)" by (simp add: held_ok_def)
  have m: "x \<in> set (limit # limits es) \<Longrightarrow> x \<le> Max (set (limit # limits es))" for x
    by (intro Max_ge) simp_all
  have l: "limit \<le> Max (set (limit # limits es))" by (rule m) simp
  have "sem_held (sy_sem y) \<le> Max (set (limit # limits es))"
  proof (rule held_bound_run [OF assms(1)])
    show "sem_held (sy_sem (sem_init limit n)) \<le> Max (set (limit # limits es))"
      "sem_limit (sy_sem (sem_init limit n)) \<le> Max (set (limit # limits es))"
      using l assms(2) unfolding sem_init_def newSemaphore_def by (simp_all only: semaphore.simps sem_sys.simps order_trans [OF assms(2) l])
    show "\<forall>n \<in> set (limits es). n \<le> Max (set (limit # limits es))" using m by simp
  qed
  then show ?thesis using h by simp
qed

theorem semaphore_bounds_holders_witness:
  "\<exists>y. sem_run (sem_init 1 2) [Call 0, Call 1, Lock 0, Check 0, Lock 1, Check 1, Park 1,
          SetLimit 2, Bcast, Lock 1, Check 1] = Some y
     \<and> count_if (\<lambda>p. p = Holding) (sy_pc y) = 2 \<and> sem_held (sy_sem y) = 2"
proof -
  let ?es = "[Call 0, Call 1, Lock 0, Check 0, Lock 1, Check 1, Park 1,
    SetLimit 2, Bcast, Lock 1, Check 1]"
  define y where "y = the (sem_run (sem_init 1 2) ?es)"
  have r: "sem_run (sem_init 1 2) ?es = Some y"
    unfolding y_def by (simp add: sem_init_def newSemaphore_def acquire_once_cases sem_setLimit_def
        wake_all_def eval_nat_numeral)
  then have "sem_held (sy_sem y) = 2"
    by (auto simp: sem_init_def newSemaphore_def acquire_once_cases sem_setLimit_def wake_all_def
        eval_nat_numeral)
  then show ?thesis using r semaphore_bounds_holders [OF r] by auto
qed

text \<open>C22. No permit is left idle: once every wakeup under way has been delivered and every awakened
  goroutine has checked, a goroutine is still parked only if all the permits are taken.\<close>

theorem no_permit_left_idle:
  assumes "sem_run (sem_init limit n) es = Some y"
    and "sy_signals y = 0" "sy_bcasts y = 0" "count_if awake (sy_pc y) = 0"
    and "Parked \<in> set (sy_pc y)"
  shows "currentLimit (sy_sem y) \<le> sem_held (sy_sem y)"
  using sem_run_inv [OF sem_inv_init assms(1)] assms(2-)
  by (simp add: sem_inv_def wakeup_ok_def currentLimit_def)

theorem no_permit_left_idle_witness:
  "\<exists>y. sem_run (sem_init 1 3) [Call 0, Lock 0, Check 0, Call 1, Lock 1, Check 1, Park 1,
          Call 2, Lock 2, Check 2, Park 2, Rel 0, Signal (Some 1), Lock 1, Check 1] = Some y
     \<and> sy_pc y = [Outside, Holding, Parked] \<and> currentLimit (sy_sem y) \<le> sem_held (sy_sem y)"
proof -
  let ?es = "[Call 0, Lock 0, Check 0, Call 1, Lock 1, Check 1, Park 1,
          Call 2, Lock 2, Check 2, Park 2, Rel 0, Signal (Some 1), Lock 1, Check 1]"
  define y where "y = the (sem_run (sem_init 1 3) ?es)"
  note ev = sem_init_def newSemaphore_def acquire_once_cases sem_release_def eval_nat_numeral
  have r: "sem_run (sem_init 1 3) ?es = Some y" unfolding y_def by (simp add: ev)
  have s: "sy_pc y = [Outside, Holding, Parked]" "sy_signals y = 0" "sy_bcasts y = 0"
    unfolding y_def by (simp_all add: ev)
  show ?thesis using r s no_permit_left_idle [OF r] by (auto simp: count_if_def)
qed

text \<open>The watcher's broadcast can be lost: it needs no mutex, so it can come between the
  waiter's check of the context and its \<open>cond.Wait\<close>. The waiter is then parked with the context
  cancelled, its watcher gone and no wakeup under way, and no step of anyone but a release or a
  resizing changes that (the waiting loops of the gate have the same shape).\<close>

definition lost_wakeup :: "sem_event list" where
  "lost_wakeup = [Call 0, Lock 0, Check 0, Call 1, Lock 1, Check 1, CancelCtx, Watch 1, Watch 0, Park 1]"

theorem cancellation_wakeup_can_be_lost:
  "\<exists>y. sem_run (sem_init 1 2) lost_wakeup = Some y \<and> sy_cancelled y \<and> sy_pc y = [Holding, Parked]
     \<and> sy_armed y = {} \<and> sy_signals y = 0 \<and> sy_bcasts y = 0
     \<and> list_all (\<lambda>e. sem_step y e = None) [Signal None, Signal (Some 1), Bcast, Watch 0, Watch 1,
          Lock 1, Check 1, Park 1, Call 1, Rel 1]"
proof -
  define y where "y = the (sem_run (sem_init 1 2) lost_wakeup)"
  note ev = lost_wakeup_def sem_init_def newSemaphore_def acquire_once_cases wake_all_def eval_nat_numeral
  have "sem_run (sem_init 1 2) lost_wakeup = Some y" unfolding y_def by (simp add: ev)
  moreover have "sy_cancelled y" "sy_pc y = [Holding, Parked]" "sy_armed y = {}" "sy_signals y = 0"
    "sy_bcasts y = 0"
    unfolding y_def by (simp_all add: ev)
  ultimately show ?thesis by auto
qed

end
