(* ===== verification/Histogram.thy ===== *)
theory Histogram
  imports Float64
begin

text \<open>
  The latency histogram of the engine (\<open>internal/engine/histogram.go\<close>): seventeen fixed
  upper bounds and an overflow bucket, 64-bit counters that wrap.

  The counters are atomics; an operation is the sequence of its atomic additions, and the
  additions of different goroutines commute (theory \<open>Stats\<close>), so the list of counts is the
  state between operations. The reference definition of a percentile sorts the samples.
\<close>

section \<open>The code\<close>

definition histBuckets :: "duration list" where
  "histBuckets =
     [100 * microsecond, 250 * microsecond, 500 * microsecond,
      1 * millisecond, 2 * millisecond, 5 * millisecond, 10 * millisecond, 25 * millisecond,
      50 * millisecond, 100 * millisecond, 250 * millisecond, 500 * millisecond,
      1 * second, 2 * second, 5 * second, 10 * second, 30 * second]"

record histogram = h_counts :: "int list"

definition zero_histogram :: histogram where
  "zero_histogram = \<lparr>h_counts = replicate (length histBuckets + 1) 0\<rparr>"

text \<open>\<open>counts[i].Add(n)\<close>.\<close>

definition hist_add :: "nat \<Rightarrow> int \<Rightarrow> histogram \<Rightarrow> histogram" where
  "hist_add i n h = h\<lparr>h_counts := (h_counts h)[i := u64 (h_counts h ! i + n)]\<rparr>"

text \<open>The loop of \<open>record\<close>: the first bucket whose bound is at least the sample.\<close>

fun bucket_from :: "nat \<Rightarrow> duration list \<Rightarrow> duration \<Rightarrow> nat" where
  "bucket_from i [] d = i"
| "bucket_from i (b # bs) d = (if d \<le> b then i else bucket_from (Suc i) bs d)"

definition bucket_of :: "duration \<Rightarrow> nat" where
  "bucket_of d = (let d' = if d < 0 then 0 else d in bucket_from 0 histBuckets d')"

definition hist_record :: "duration \<Rightarrow> histogram \<Rightarrow> histogram" where
  "hist_record d h = hist_add (bucket_of d) 1 h"

definition merge_hist :: "histogram \<Rightarrow> histogram \<Rightarrow> histogram" where
  "merge_hist h src =
     foldl (\<lambda>h' i. hist_add i (h_counts src ! i) h') h [0 ..< length (h_counts h)]"

fun first_above :: "int \<Rightarrow> int \<Rightarrow> nat \<Rightarrow> int list \<Rightarrow> nat option" where
  "first_above rank cum i [] = None"
| "first_above rank cum i (c # cs) =
     (if rank < u64 (cum + c) then Some i else first_above rank (u64 (cum + c)) (Suc i) cs)"

definition bucket_bound :: "nat \<Rightarrow> duration" where
  "bucket_bound i =
     (if i < length histBuckets then histBuckets ! i else histBuckets ! (length histBuckets - 1))"

definition percentile :: "(f64 \<Rightarrow> int) \<Rightarrow> histogram \<Rightarrow> f64 \<Rightarrow> duration" where
  "percentile oor h q =
     (let q1 = if f_lt q (Fin 0) then Fin 0 else q;
          q2 = if f_lt (Fin 1) q1 then Fin 1 else q1;
          n = foldl (\<lambda>t c. u64 (t + c)) 0 (h_counts h)
      in if n = 0 then 0
         else let rank = f_to_u64 oor (f_ceil (f_mul q2 (f64_of_int n)))
              in case first_above rank 0 0 (h_counts h) of
                   Some i \<Rightarrow> bucket_bound i
                 | None \<Rightarrow> histBuckets ! (length histBuckets - 1))"

section \<open>Counting\<close>

definition histogram_of :: "duration list \<Rightarrow> histogram" where
  "histogram_of ds = fold hist_record ds zero_histogram"

definition bucket_count :: "duration list \<Rightarrow> nat \<Rightarrow> nat" where
  "bucket_count ds i = length (filter (\<lambda>d. bucket_of d = i) ds)"

lemma length_histBuckets [simp]: "length histBuckets = 17"
  by (simp add: histBuckets_def)

lemma bucket_from_le: "bucket_from i bs d \<le> i + length bs"
  by (induction bs arbitrary: i) (simp_all, metis add_Suc)

lemma bucket_of_le: "bucket_of d < 18"
  using bucket_from_le [of 0 histBuckets 0] bucket_from_le [of 0 histBuckets d]
  by (simp add: bucket_of_def Let_def)

lemma u64_add_left: "u64 (u64 a + b) = u64 (a + b)"
  by (simp add: u64_def mod_simps)

lemma u64_add_right: "u64 (a + u64 b) = u64 (a + b)"
  by (simp add: u64_def mod_simps)

lemma length_hist_add [simp]: "length (h_counts (hist_add i n h)) = length (h_counts h)"
  by (simp add: hist_add_def)

lemma hist_add_nth:
  "j < length (h_counts h) \<Longrightarrow>
     h_counts (hist_add i n h) ! j = (if j = i then u64 (h_counts h ! j + n) else h_counts h ! j)"
  by (simp add: hist_add_def nth_list_update)

lemma hist_add_commute: "hist_add i n (hist_add j m h) = hist_add j m (hist_add i n h)"
proof (cases "i = j")
  case True
  then show ?thesis
    by (cases "j < length (h_counts h)")
       (simp_all add: hist_add_def u64_add_right u64_add_left list_update_beyond algebra_simps)
next
  case False
  then show ?thesis by (simp add: hist_add_def list_update_swap)
qed

lemma foldl_hist_add_nth:
  assumes "k \<le> length (h_counts h)" "j < length (h_counts h)"
  shows "h_counts (foldl (\<lambda>h' i. hist_add i (f i) h') h [0 ..< k]) ! j
           = (if j < k then u64 (h_counts h ! j + f j) else h_counts h ! j)
       \<and> length (h_counts (foldl (\<lambda>h' i. hist_add i (f i) h') h [0 ..< k])) = length (h_counts h)"
  using assms(1) by (induction k) (use assms(2) in \<open>auto simp: hist_add_nth\<close>)

lemma merge_hist_nth:
  assumes "j < length (h_counts h)"
  shows "h_counts (merge_hist h s) ! j = u64 (h_counts h ! j + h_counts s ! j)"
  using foldl_hist_add_nth [OF le_refl assms] assms by (simp add: merge_hist_def)

lemma length_merge_hist [simp]: "length (h_counts (merge_hist h s)) = length (h_counts h)"
proof (cases "h_counts h")
  case Nil
  then show ?thesis by (simp add: merge_hist_def)
next
  case (Cons c cs)
  then show ?thesis using foldl_hist_add_nth [OF le_refl, of 0 h] by (simp add: merge_hist_def)
qed

lemma length_histogram_of [simp]: "length (h_counts (histogram_of ds)) = 18"
  by (induction ds rule: rev_induct) (simp_all add: histogram_of_def zero_histogram_def hist_record_def)

lemma histogram_of_nth:
  "i < 18 \<Longrightarrow> h_counts (histogram_of ds) ! i = u64 (int (bucket_count ds i))"
proof (induction ds rule: rev_induct)
  case Nil
  then show ?case by (simp add: histogram_of_def zero_histogram_def bucket_count_def u64_def)
next
  case (snoc d ds)
  have "histogram_of (ds @ [d]) = hist_add (bucket_of d) 1 (histogram_of ds)"
    by (simp add: histogram_of_def hist_record_def)
  then show ?case using snoc bucket_of_le [of d]
    by (auto simp: hist_add_nth bucket_count_def u64_add_right add.commute)
qed

lemma histogram_eqI:
  "length (h_counts h) = length (h_counts g) \<Longrightarrow>
   (\<And>i. i < length (h_counts h) \<Longrightarrow> h_counts h ! i = h_counts g ! i) \<Longrightarrow> h = (g::histogram)"
  by (cases h; cases g) (simp add: nth_equalityI)

lemma counts_histogram_of:
  "h_counts (histogram_of ds) = map (\<lambda>i. u64 (int (bucket_count ds i))) [0 ..< 18]"
  by (rule nth_equalityI) (simp_all add: histogram_of_nth)

lemma histogram_merge_union: "merge_hist (histogram_of ds) (histogram_of es) = histogram_of (ds @ es)"
  by (rule histogram_eqI)
     (simp_all add: merge_hist_nth histogram_of_nth u64_add_left u64_add_right bucket_count_def)

text \<open>Merging the histograms of two sets of samples is the histogram of all the samples, and
  the count of every bucket is the number of samples that fall in it (modulo 2^64).\<close>

theorem histogram_merge_is_union:
  "merge_hist (histogram_of ds) (histogram_of es) = histogram_of (ds @ es)
   \<and> h_counts (histogram_of ds) = map (\<lambda>i. u64 (int (bucket_count ds i))) [0 ..< 18]"
  by (simp add: histogram_merge_union counts_histogram_of)

section \<open>Percentiles\<close>

lemma bucket_from_mono: "d \<le> e \<Longrightarrow> bucket_from i bs d \<le> bucket_from i bs e"
proof (induction bs arbitrary: i)
  case Nil
  then show ?case by simp
next
  case (Cons b bs)
  have "i \<le> bucket_from (Suc i) bs e" for e
    by (induction bs arbitrary: i) (auto intro: Suc_leD)
  then show ?case using Cons by auto
qed

lemma bucket_of_mono: "d \<le> e \<Longrightarrow> bucket_of d \<le> bucket_of e"
  by (auto simp: bucket_of_def Let_def intro: bucket_from_mono)

text \<open>In a sorted list, more than \<open>k\<close> elements lie at or below bucket \<open>i\<close> exactly when the one
  at index \<open>k\<close> does.\<close>

lemma sorted_rank:
  assumes "sorted xs" "\<And>x y. x \<le> y \<Longrightarrow> f x \<le> (f y :: nat)"
  shows "k < length (filter (\<lambda>x. f x \<le> i) xs) \<longleftrightarrow> k < length xs \<and> f (xs ! k) \<le> i"
  using assms(1)
proof (induction xs arbitrary: k)
  case Nil
  then show ?case by simp
next
  case (Cons x xs)
  show ?case
  proof (cases "f x \<le> i")
    case True
    then show ?thesis using Cons by (cases k) simp_all
  next
    case False
    then have "\<not> f y \<le> i" if "y \<in> set (x # xs)" for y
      using that Cons.prems assms(2) [of x y] by (auto intro: order_trans)
    then have "filter (\<lambda>x. f x \<le> i) (x # xs) = []" "k < length (x # xs) \<Longrightarrow> \<not> f ((x # xs) ! k) \<le> i"
      by (auto simp only: filter_empty_conv nth_mem)
    then show ?thesis by auto
  qed
qed

text \<open>The cumulative count up to bucket \<open>i\<close>.\<close>

definition below :: "duration list \<Rightarrow> nat \<Rightarrow> nat" where
  "below ds i = length (filter (\<lambda>d. bucket_of d < i) ds)"

lemma below_Suc: "below ds (Suc i) = below ds i + bucket_count ds i"
  by (induction ds) (auto simp: below_def bucket_count_def)

lemma below_0 [simp]: "below ds 0 = 0"
  by (simp add: below_def)

lemma below_all [simp]: "below ds 18 = length ds"
  by (simp add: below_def bucket_of_le)

lemma below_le: "below ds i \<le> length ds"
  by (simp add: below_def)

lemma total_count:
  assumes "int (length ds) < 2 ^ 64"
  shows "foldl (\<lambda>t c. u64 (t + c)) 0 (h_counts (histogram_of ds)) = int (length ds)"
proof -
  have "foldl (\<lambda>t c. u64 (t + c)) 0 (map (\<lambda>i. u64 (int (bucket_count ds i))) [0 ..< k]) = int (below ds k)"
    for k
  proof (induction k)
    case 0
    then show ?case by simp
  next
    case (Suc k)
    have "int (below ds (Suc k)) < 2 ^ 64" using below_le [of ds "Suc k"] assms by linarith
    then show ?case using Suc by (simp add: u64_add_right below_Suc u64_small)
  qed
  from this [of 18] show ?thesis by (simp add: counts_histogram_of)
qed

lemma below_rank: "r < below ds (Suc i) \<longleftrightarrow> r < length ds \<and> bucket_of (sort ds ! r) \<le> i"
proof -
  have "below ds (Suc i) = length (filter (\<lambda>d. bucket_of d \<le> i) (sort ds))"
    by (simp add: below_def less_Suc_eq_le filter_sort)
  then show ?thesis using sorted_rank [of "sort ds" bucket_of r i] bucket_of_mono by simp
qed

lemma first_above_counts:
  assumes "int (length ds) < 2 ^ 64" "m + k = 18" "below ds m \<le> r"
  shows "first_above (int r) (int (below ds m)) m (map (\<lambda>i. u64 (int (bucket_count ds i))) [m ..< 18])
     = (if r < length ds then Some (bucket_of (sort ds ! r)) else None)"
  using assms(2,3)
proof (induction k arbitrary: m)
  case 0
  then show ?case by simp
next
  case (Suc k)
  have "int (below ds (Suc m)) < 2 ^ 64" using below_le [of ds "Suc m"] assms(1) by linarith
  then have c: "u64 (int (below ds m) + u64 (int (bucket_count ds m))) = int (below ds (Suc m))"
    by (simp add: u64_add_right below_Suc u64_small)
  have u: "[m ..< 18] = m # [Suc m ..< 18]" using Suc.prems(1) by (simp add: upt_conv_Cons)
  show ?case
  proof (cases "r < below ds (Suc m)")
    case True
    then have "r < length ds" "bucket_of (sort ds ! r) \<le> m" by (simp_all add: below_rank)
    moreover have "\<not> bucket_of (sort ds ! r) < m"
      using Suc.prems(2) below_rank [of r ds "m - 1"] \<open>r < length ds\<close> by (cases m) auto
    ultimately show ?thesis using True by (simp add: u c)
  next
    case False
    then show ?thesis using Suc.IH [of "Suc m"] Suc.prems(1) by (simp add: u c)
  qed
qed

text \<open>The reference: sort the samples and take the one of rank \<open>k\<close>, reported as its bucket's
  bound; there is none when the rank is the number of samples.\<close>

definition percentile_spec :: "duration list \<Rightarrow> nat \<Rightarrow> duration" where
  "percentile_spec ds k =
     (if ds = [] then 0
      else if k < length ds then bucket_bound (bucket_of (sort ds ! k)) else 30 * second)"

definition rank_of :: "rat \<Rightarrow> nat \<Rightarrow> nat" where
  "rank_of q n = nat \<lceil>rnd (q * of_nat n)\<rceil>"

lemma rank_of_le:
  assumes "0 \<le> q" "q \<le> 1" "n < 2 ^ 53" shows "rank_of q n \<le> n"
proof -
  have "q * of_nat n \<le> of_int (int n)" using assms by (simp add: mult_left_le_one_le)
  then have "rnd (q * of_nat n) \<le> of_int (int n)" using rnd_of_int_bounds(2) [of "int n"] assms(3) by simp
  then show ?thesis by (simp add: rank_of_def nat_le_iff ceiling_le_iff)
qed

lemma percentile_rank:
  assumes "0 \<le> q" "q \<le> 1" "n < 2 ^ 53"
  shows "f_to_u64 oor (f_ceil (f_mul (Fin q) (f64_of_int (int n)))) = int (rank_of q n)"
proof -
  have "\<bar>q * of_nat n\<bar> \<le> 1 * of_nat n" using assms unfolding abs_mult by (intro mult_mono) simp_all
  also have "(of_nat n :: rat) \<le> of_nat (2 ^ 53)" using assms(3) by (simp only: of_nat_le_iff less_imp_le)
  also have "(of_nat (2 ^ 53) :: rat) \<le> 2 ^ 1023"
    unfolding of_nat_power of_nat_numeral by (rule power_increasing) simp_all
  finally have "\<bar>q * of_nat n\<bar> \<le> 2 ^ 1023" by simp
  then have "f64_of_rat (q * of_nat n) = Fin (rnd (q * of_nat n))" by (rule f64_of_rat_small)
  moreover have "f64_of_int (int n) = Fin (of_nat n)" using assms(3) by (simp add: f64_of_int_small)
  moreover have "0 \<le> rnd (q * of_nat n)" using assms by (intro rnd_nonneg) simp
  then have "0 \<le> \<lceil>rnd (q * of_nat n)\<rceil>" by linarith
  moreover have "\<lceil>rnd (q * of_nat n)\<rceil> < 2 ^ 64"
  proof -
    have "rank_of q n < 2 ^ 53" using rank_of_le [OF assms] assms(3) by linarith
    then show ?thesis using calculation(3) by (simp add: rank_of_def nat_less_iff)
  qed
  ultimately show ?thesis by (simp add: rank_of_def trunc_rat_def)
qed

lemma percentile_sorted:
  assumes "0 \<le> q" "q \<le> 1" "length ds < 2 ^ 53"
  shows "percentile oor (histogram_of ds) (Fin q) = percentile_spec ds (rank_of q (length ds))"
proof -
  have small: "int (length ds) < 2 ^ 64"
  proof -
    have "length ds < 2 ^ 64" using assms(3) by (rule less_trans) simp
    then show ?thesis by (metis of_nat_less_iff of_nat_numeral of_nat_power)
  qed
  have "first_above (int r) 0 0 (h_counts (histogram_of ds))
     = (if r < length ds then Some (bucket_of (sort ds ! r)) else None)" for r
    using first_above_counts [OF small, of 0 18 r] by (simp add: counts_histogram_of)
  moreover have "histBuckets ! 16 = 30 * second" by (simp add: histBuckets_def)
  ultimately show ?thesis using assms(1,2) percentile_rank [OF assms]
    by (auto simp: percentile_def percentile_spec_def Let_def total_count [OF small] f_lt.simps
        simp del: f_ceil.simps f_mul.simps f_to_u64.simps split: if_splits)
qed

text \<open>C29. The bucketed percentile is the sort-based one: the upper bound of the bucket of the
  sample whose rank is the ceiling of \<open>q * n\<close>, counted from zero; and when that rank is \<open>n\<close>
  itself the top boundary, 30 s, is reported whatever the samples are.\<close>

theorem percentile_is_sort_based:
  assumes "0 \<le> q" "q \<le> 1" "length ds < 2 ^ 53"
  shows "percentile oor (histogram_of ds) (Fin q) = percentile_spec ds (rank_of q (length ds))"
  using assms by (rule percentile_sorted)

theorem percentile_is_sort_based_witness:
  "percentile (\<lambda>_. 0) (histogram_of [1000000, 5, 300]) (Fin (1 / 2)) = 1000000"
proof -
  have "rnd (3 / 2) = 3 / 2" by (rule rnd_grid [of _ 3 "-1"]) (simp_all add: power_int_def)
  moreover have ceil_3_2: "\<lceil>3 / 2 :: rat\<rceil> = 2" by (rule ceiling_unique) simp_all
  ultimately have r: "rank_of (1 / 2) (length [1000000, 5, 300::int]) = 2"
    by (simp add: rank_of_def ceil_3_2 del: divide_eq_eq_numeral1 eq_divide_eq_numeral1)
  have "percentile_spec [1000000, 5, 300] 2 = 1000000" by code_simp
  then show ?thesis
    using percentile_is_sort_based [of "1 / 2" "[1000000, 5, 300]" "\<lambda>_. 0"] unfolding r by simp
qed

text \<open>Below a hundred samples the reported p99 carries no information: it is 30 s even when
  every sample is instantaneous.\<close>

theorem p99_blind_below_hundred_samples:
  assumes "ds \<noteq> []" "length ds < 100" "\<bar>q - 99 / 100\<bar> \<le> 1 / 2 ^ 53"
  shows "percentile oor (histogram_of ds) (Fin q) = 30 * second"
proof -
  let ?n = "length ds"
  have n: "1 \<le> ?n" "?n \<le> 99" using assms(1,2) by (simp_all add: Suc_le_eq)
  have "q - 99 / 100 \<le> 1 / 2 ^ 53" "99 / 100 - q \<le> 1 / 2 ^ 53"
    using assms(3) unfolding abs_le_iff by linarith+
  moreover have "(1::rat) / 2 ^ 53 \<le> 1 / 100" by simp
  ultimately have q: "0 \<le> q" "q \<le> 1" "99 / 100 - 1 / 2 ^ 53 \<le> q" by linarith+
  have "(99 / 100 - 1 / 2 ^ 53) * (of_nat ?n :: rat) \<le> q * of_nat ?n"
    using q(3) by (intro mult_right_mono) simp_all
  moreover have "(of_nat ?n :: rat) \<le> 99" using n(2) by (metis of_nat_le_iff of_nat_numeral)
  then have "of_int (128 * int ?n - 127) / 128 \<le> (99 / 100 - 1 / 2 ^ 53) * (of_nat ?n :: rat)"
    by (simp add: field_simps)
  ultimately have "of_int (128 * int ?n - 127) / 128 \<le> q * of_nat ?n" by (rule order_trans [rotated])
  moreover have p: "(2::rat) powi (- 7) = 1 / 128" by (simp add: power_int_def power_one_over)
  ultimately have le: "of_int (128 * int ?n - 127) * 2 powi (- 7) \<le> q * of_nat ?n" by simp
  have "rnd (of_int (128 * int ?n - 127) * 2 powi (- 7)) = of_int (128 * int ?n - 127) * 2 powi (- 7)"
    using n by (intro rnd_grid [OF refl]) simp_all
  then have "of_int (128 * int ?n - 127) * 2 powi (- 7) \<le> rnd (q * of_nat ?n)"
    using rnd_mono [OF le] by simp
  moreover have "(of_int (int ?n - 1) :: rat) < of_int (128 * int ?n - 127) * 2 powi (- 7)"
    by (simp add: p)
  ultimately have "of_int (int ?n - 1) < rnd (q * of_nat ?n)" by linarith
  then have "int ?n - 1 < \<lceil>rnd (q * of_nat ?n)\<rceil>" by (simp only: less_ceiling_iff)
  then have "?n \<le> rank_of q ?n" by (simp add: rank_of_def)
  moreover have "?n < 2 ^ 53" using n(2) by (rule le_less_trans) simp
  ultimately show ?thesis
    using percentile_sorted [OF q(1,2)] assms(1) by (simp add: percentile_spec_def)
qed

theorem p99_blind_below_hundred_samples_witness:
  "percentile (\<lambda>_. 0) (histogram_of [0, 0, 0]) (Fin (99 / 100)) = 30 * second"
  by (rule p99_blind_below_hundred_samples) simp_all

end
