(* ===== verification/Stats.thy ===== *)
theory Stats
  imports Protocols Histogram "HOL-Library.Multiset"
begin

text \<open>
  The statistics collector (\<open>internal/engine/stats.go\<close>) and the snapshot publisher
  (\<open>publisher.go\<close>).

  Recording a result is the sequence of atomic additions the code performs, in its order
  (\<open>record_steps\<close>); the workers' sequences interleave freely. Shards are held by pointer in
  the code and by name here: no code replaces a shard once it is in the map. A snapshot
  is read by an instant's state; since the code reads the counters one after the other, a
  concurrent one can mix instants.

  A subscriber's channel is its one-element buffer. \<open>publish\<close> is given, for each attempt,
  whether the subscriber takes the buffered value between the two selects.
\<close>

section \<open>Counters of one shard\<close>

datatype counter = CRequests | CSuccesses | CFailures | CReconnects | CPanics
  | CBytesIn | CBytesOut | CBucket nat

record counterShard =
  sh_requests :: int
  sh_successes :: int
  sh_failures :: int
  sh_reconnects :: int
  sh_panics :: int
  sh_bytesIn :: int
  sh_bytesOut :: int
  sh_hist :: histogram

definition newCounterShard :: counterShard where
  "newCounterShard = \<lparr>sh_requests = 0, sh_successes = 0, sh_failures = 0, sh_reconnects = 0,
     sh_panics = 0, sh_bytesIn = 0, sh_bytesOut = 0, sh_hist = zero_histogram\<rparr>"

fun shard_add :: "counter \<times> int \<Rightarrow> counterShard \<Rightarrow> counterShard" where
  "shard_add (CRequests, n) s = s\<lparr>sh_requests := i64 (sh_requests s + n)\<rparr>"
| "shard_add (CSuccesses, n) s = s\<lparr>sh_successes := i64 (sh_successes s + n)\<rparr>"
| "shard_add (CFailures, n) s = s\<lparr>sh_failures := i64 (sh_failures s + n)\<rparr>"
| "shard_add (CReconnects, n) s = s\<lparr>sh_reconnects := i64 (sh_reconnects s + n)\<rparr>"
| "shard_add (CPanics, n) s = s\<lparr>sh_panics := i64 (sh_panics s + n)\<rparr>"
| "shard_add (CBytesIn, n) s = s\<lparr>sh_bytesIn := i64 (sh_bytesIn s + n)\<rparr>"
| "shard_add (CBytesOut, n) s = s\<lparr>sh_bytesOut := i64 (sh_bytesOut s + n)\<rparr>"
| "shard_add (CBucket i, n) s = s\<lparr>sh_hist := hist_add i n (sh_hist s)\<rparr>"

text \<open>\<open>counterShard.record\<close>, as its additions in order.\<close>

definition record_steps :: "Result \<Rightarrow> (counter \<times> int) list" where
  "record_steps r =
     [(CRequests, 1)]
     @ (case r_Outcome r of
          OutcomeSuccess \<Rightarrow> [(CSuccesses, 1)]
        | OutcomeReconnect \<Rightarrow> [(CReconnects, 1)]
        | OutcomePanicked \<Rightarrow> [(CPanics, 1)]
        | OutcomeFailure \<Rightarrow> [(CFailures, 1)]
        | _ \<Rightarrow> [])
     @ (if r_BytesIn r \<noteq> 0 then [(CBytesIn, r_BytesIn r)] else [])
     @ (if r_BytesOut r \<noteq> 0 then [(CBytesOut, r_BytesOut r)] else [])
     @ [(CBucket (bucket_of (r_Latency r)), 1)]"

section \<open>The collector\<close>

record collector =
  co_global :: counterShard
  co_shards :: "string \<rightharpoonup> counterShard"
  co_targetIDs :: "string list"
  co_active :: int

definition newCollector :: "string list \<Rightarrow> collector" where
  "newCollector targetIDs =
     \<lparr>co_global = newCounterShard,
      co_shards = foldl (\<lambda>m i. m(i \<mapsto> newCounterShard)) Map.empty targetIDs,
      co_targetIDs = targetIDs, co_active = 0\<rparr>"

text \<open>One atomic addition, on the global shard or on a target's.\<close>

definition collector_add :: "string option \<times> counter \<times> int \<Rightarrow> collector \<Rightarrow> collector" where
  "collector_add p c =
     (case fst p of
        None \<Rightarrow> c\<lparr>co_global := shard_add (snd p) (co_global c)\<rparr>
      | Some i \<Rightarrow> c\<lparr>co_shards := (co_shards c)(i := map_option (shard_add (snd p)) (co_shards c i))\<rparr>)"

text \<open>\<open>Record\<close>: the global shard, the lookup, the target's shard when there is one.\<close>

definition Record_steps :: "(string \<rightharpoonup> counterShard) \<Rightarrow> Result \<Rightarrow> (string option \<times> counter \<times> int) list" where
  "Record_steps shards r =
     map (Pair None) (record_steps r)
     @ (case shards (r_Target r) of
          None \<Rightarrow> []
        | Some _ \<Rightarrow> map (Pair (Some (r_Target r))) (record_steps r))"

definition Record :: "collector \<Rightarrow> Result \<Rightarrow> collector" where
  "Record c r = fold collector_add (Record_steps (co_shards c) r) c"

definition addShard :: "collector \<Rightarrow> string \<Rightarrow> collector" where
  "addShard c i =
     (if co_shards c i \<noteq> None then c
      else c\<lparr>co_shards := (co_shards c)(i \<mapsto> newCounterShard),
             co_targetIDs := co_targetIDs c @ [i]\<rparr>)"

definition incActive :: "collector \<Rightarrow> collector" where
  "incActive c = c\<lparr>co_active := i64 (co_active c + 1)\<rparr>"

definition decActive :: "collector \<Rightarrow> collector" where
  "decActive c = c\<lparr>co_active := i64 (co_active c - 1)\<rparr>"

record TargetStats =
  ts_Requests :: int
  ts_Successes :: int
  ts_Failures :: int
  ts_BytesIn :: int
  ts_BytesOut :: int

record StatsSnapshot =
  ss_At :: instant
  ss_Requests :: int
  ss_Successes :: int
  ss_Failures :: int
  ss_Reconnects :: int
  ss_Panics :: int
  ss_BytesIn :: int
  ss_BytesOut :: int
  ss_ActiveConns :: int
  ss_CapSaturationPct :: f64
  ss_LatencyP50 :: duration
  ss_LatencyP90 :: duration
  ss_LatencyP99 :: duration
  ss_PerTarget :: "string \<rightharpoonup> TargetStats"

definition target_stats :: "counterShard \<Rightarrow> TargetStats" where
  "target_stats s = \<lparr>ts_Requests = sh_requests s, ts_Successes = sh_successes s,
     ts_Failures = sh_failures s, ts_BytesIn = sh_bytesIn s, ts_BytesOut = sh_bytesOut s\<rparr>"

text \<open>The float64 constants 0.50, 0.90 and 0.99.\<close>

definition q50 :: f64 where "q50 = Fin (1 / 2)"
definition q90 :: f64 where "q90 = Fin (8106479329266893 / 9007199254740992)"
definition q99 :: f64 where "q99 = Fin (8917127262193582 / 9007199254740992)"

text \<open>\<open>snapshot\<close> at reading \<open>now\<close> and saturation \<open>sat\<close>; None is the nil dereference of a listed
  target without a shard.\<close>

definition snapshot :: "(f64 \<Rightarrow> int) \<Rightarrow> collector \<Rightarrow> instant \<Rightarrow> f64 \<Rightarrow> StatsSnapshot option" where
  "snapshot oor c now sat =
     (let g = co_global c; merged = merge_hist zero_histogram (sh_hist g)
      in if list_all (\<lambda>i. co_shards c i \<noteq> None) (co_targetIDs c)
         then Some \<lparr>ss_At = now, ss_Requests = sh_requests g, ss_Successes = sh_successes g,
           ss_Failures = sh_failures g, ss_Reconnects = sh_reconnects g, ss_Panics = sh_panics g,
           ss_BytesIn = sh_bytesIn g, ss_BytesOut = sh_bytesOut g, ss_ActiveConns = co_active c,
           ss_CapSaturationPct = sat, ss_LatencyP50 = percentile oor merged q50,
           ss_LatencyP90 = percentile oor merged q90, ss_LatencyP99 = percentile oor merged q99,
           ss_PerTarget = foldl (\<lambda>m i. m(i := map_option target_stats (co_shards c i)))
                            Map.empty (co_targetIDs c)\<rparr>
         else None)"

section \<open>The additions commute\<close>

lemma i64_add_left: "i64 (i64 a + b) = i64 (a + b)"
  by (simp add: i64_def mod_simps algebra_simps)

lemma i64_add_right: "i64 (a + i64 b) = i64 (a + b)"
  using i64_add_left [of b a] by (simp add: add.commute)

lemma shard_add_commute: "shard_add p (shard_add q s) = shard_add q (shard_add p s)"
proof (cases p; cases q)
  fix c n d m
  assume [simp]: "p = (c, n)" "q = (d, m)"
  show ?thesis
    by (cases c; cases d)
       (simp_all add: i64_add_left i64_add_right hist_add_commute algebra_simps)
qed

lemma collector_add_commute: "collector_add p (collector_add q c) = collector_add q (collector_add p c)"
proof (cases "fst p"; cases "fst q")
  fix i j
  assume "fst p = Some i" "fst q = Some j"
  then show ?thesis
    by (cases "i = j")
       (simp_all add: collector_add_def option.map_comp comp_def shard_add_commute fun_upd_twist)
qed (simp_all add: collector_add_def shard_add_commute)

lemma collector_add_shards:
  "dom (co_shards (collector_add p c)) = dom (co_shards c)"
  by (auto simp: collector_add_def split: option.splits)

lemma fold_collector_add_dom:
  "dom (co_shards (fold collector_add ps c)) = dom (co_shards c)"
  by (induction ps arbitrary: c) (simp_all add: collector_add_shards)

lemma Record_steps_dom: "dom m = dom m' \<Longrightarrow> Record_steps m r = Record_steps m' r"
proof -
  assume "dom m = dom m'"
  then have "m (r_Target r) = None \<longleftrightarrow> m' (r_Target r) = None" by (metis domIff)
  then show ?thesis by (auto simp: Record_steps_def split: option.splits)
qed

lemma foldl_Record_steps:
  "foldl Record c rs = fold collector_add (concat (map (Record_steps (co_shards c)) rs)) c"
proof (induction rs rule: rev_induct)
  case Nil
  then show ?case by simp
next
  case (snoc r rs)
  have "Record_steps (co_shards (foldl Record c rs)) r = Record_steps (co_shards c) r"
    unfolding snoc by (rule Record_steps_dom) (rule fold_collector_add_dom)
  then show ?case using snoc by (simp add: Record_def)
qed

text \<open>C28. Whatever way the atomic additions of concurrent workers interleave, the collector ends
  in the state of recording the results one after the other.\<close>

theorem record_is_interleaving_independent:
  assumes "mset steps = (\<Sum>r\<leftarrow>rs. mset (Record_steps (co_shards c) r))"
  shows "fold collector_add steps c = foldl Record c rs"
proof -
  have "mset steps = mset (concat (map (Record_steps (co_shards c)) rs))"
    using assms by (simp add: mset_concat comp_def)
  then have "fold collector_add steps = fold collector_add (concat (map (Record_steps (co_shards c)) rs))"
    by (intro fold_multiset_equiv) (auto simp: collector_add_commute)
  then show ?thesis by (simp add: foldl_Record_steps)
qed

text \<open>Two results recorded at once, the additions of both in reverse.\<close>

theorem record_is_interleaving_independent_witness:
  "fold collector_add
      (rev (Record_steps (co_shards (newCollector [''a''])) (zero_Result\<lparr>r_Target := ''a''\<rparr>)
            @ Record_steps (co_shards (newCollector [''a''])) zero_Result)) (newCollector [''a''])
    = foldl Record (newCollector [''a'']) [zero_Result\<lparr>r_Target := ''a''\<rparr>, zero_Result]"
  by (rule record_is_interleaving_independent) simp

section \<open>What the counters count\<close>

definition count_of :: "Outcome \<Rightarrow> Result list \<Rightarrow> int" where
  "count_of o' rs = i64 (int (length (filter (\<lambda>r. r_Outcome r = o') rs)))"

definition shard_of :: "Result list \<Rightarrow> counterShard" where
  "shard_of rs =
     \<lparr>sh_requests = i64 (int (length rs)),
      sh_successes = count_of OutcomeSuccess rs, sh_failures = count_of OutcomeFailure rs,
      sh_reconnects = count_of OutcomeReconnect rs, sh_panics = count_of OutcomePanicked rs,
      sh_bytesIn = i64 (\<Sum>r\<leftarrow>rs. r_BytesIn r), sh_bytesOut = i64 (\<Sum>r\<leftarrow>rs. r_BytesOut r),
      sh_hist = histogram_of (map r_Latency rs)\<rparr>"

lemma shard_of_Nil: "shard_of [] = newCounterShard"
  by (simp add: shard_of_def newCounterShard_def count_of_def histogram_of_def i64_small)

lemma histogram_of_snoc: "histogram_of (ds @ [d]) = hist_add (bucket_of d) 1 (histogram_of ds)"
  by (simp add: histogram_of_def hist_record_def)

lemma shard_of_snoc: "fold shard_add (record_steps r) (shard_of rs) = shard_of (rs @ [r])"
  by (cases "r_Outcome r")
     (simp_all add: record_steps_def shard_of_def count_of_def histogram_of_snoc
       i64_add_left i64_add_right add.commute)

lemma fold_global:
  "fold collector_add (map (Pair None) ps) c = c\<lparr>co_global := fold shard_add ps (co_global c)\<rparr>"
  by (induction ps arbitrary: c) (simp_all add: collector_add_def)

lemma fold_target:
  "co_shards c i = Some s \<Longrightarrow>
   fold collector_add (map (Pair (Some i)) ps) c = c\<lparr>co_shards := (co_shards c)(i \<mapsto> fold shard_add ps s)\<rparr>"
  by (induction ps arbitrary: c s) (simp_all add: collector_add_def map_upd_triv)

lemma Record_eq:
  "Record c r = c\<lparr>co_global := fold shard_add (record_steps r) (co_global c),
     co_shards := (co_shards c)(r_Target r :=
       map_option (fold shard_add (record_steps r)) (co_shards c (r_Target r)))\<rparr>"
proof (cases "co_shards c (r_Target r)")
  case None
  then show ?thesis
    by (simp add: Record_def Record_steps_def fold_global fun_upd_idem)
next
  case (Some s)
  then show ?thesis
    by (simp add: Record_def Record_steps_def fold_global fold_target)
qed

definition collector_of :: "string list \<Rightarrow> Result list \<Rightarrow> collector" where
  "collector_of ids rs =
     \<lparr>co_global = shard_of rs,
      co_shards = (\<lambda>i. if i \<in> set ids then Some (shard_of (filter (\<lambda>r. r_Target r = i) rs)) else None),
      co_targetIDs = ids, co_active = 0\<rparr>"

lemma foldl_shards:
  "foldl (\<lambda>m i. m(i := f i)) m ids = (\<lambda>i. if i \<in> set ids then f i else m i)"
  by (induction ids arbitrary: m) auto

lemma newCollector_eq: "newCollector ids = collector_of ids []"
  by (simp add: newCollector_def collector_of_def foldl_shards shard_of_Nil fun_eq_iff)

lemma Record_collector_of: "Record (collector_of ids rs) r = collector_of ids (rs @ [r])"
  by (auto simp: Record_eq collector_of_def shard_of_snoc)

lemma foldl_Record: "foldl Record (newCollector ids) rs = collector_of ids rs"
  by (induction rs rule: rev_induct) (simp_all add: newCollector_eq Record_collector_of)

lemma merge_zero: "merge_hist zero_histogram (histogram_of ds) = histogram_of ds"
  using histogram_merge_union [of "[]" ds] by (simp add: histogram_of_def)

text \<open>A snapshot of a collector that has recorded the results \<open>rs\<close>: requests, successes,
  failures, reconnects, panics and bytes are the counts and sums over \<open>rs\<close>, the percentiles those
  of all latencies, and the entry of every target of the run is that of its own results; results
  of unknown targets count globally only.\<close>

theorem snapshot_counts_results:
  "\<exists>s. snapshot oor (foldl Record (newCollector ids) rs) now sat = Some s
     \<and> ss_At s = now
     \<and> ss_Requests s = i64 (int (length rs))
     \<and> ss_Successes s = count_of OutcomeSuccess rs \<and> ss_Failures s = count_of OutcomeFailure rs
     \<and> ss_Reconnects s = count_of OutcomeReconnect rs \<and> ss_Panics s = count_of OutcomePanicked rs
     \<and> ss_BytesIn s = i64 (\<Sum>r\<leftarrow>rs. r_BytesIn r) \<and> ss_BytesOut s = i64 (\<Sum>r\<leftarrow>rs. r_BytesOut r)
     \<and> ss_LatencyP50 s = percentile oor (histogram_of (map r_Latency rs)) q50
     \<and> ss_LatencyP99 s = percentile oor (histogram_of (map r_Latency rs)) q99
     \<and> ss_PerTarget s = (\<lambda>i. if i \<in> set ids
           then Some (target_stats (shard_of (filter (\<lambda>r. r_Target r = i) rs))) else None)"
  unfolding foldl_Record
  by (simp add: snapshot_def Let_def collector_of_def list_all_iff foldl_shards merge_zero
      shard_of_def [of rs] cong: if_cong)

section \<open>The publisher\<close>

record 's channel =
  ch_buf :: "'s option"
  ch_closed :: bool

record 's publisher =
  pub_cur :: 's
  pub_subs :: "nat list"
  pub_chans :: "'s channel list"
  pub_cancelled :: "nat set"

definition newPublisher :: "'s \<Rightarrow> 's publisher" where
  "newPublisher initial = \<lparr>pub_cur = initial, pub_subs = [], pub_chans = [], pub_cancelled = {}\<rparr>"

text \<open>The send loop to one channel: the buffer it leaves and what the subscriber took meanwhile.
  \<open>takes k\<close>: the subscriber empties the buffer between the two selects of attempt \<open>k\<close>.\<close>

function deliver :: "(nat \<Rightarrow> bool) \<Rightarrow> 's \<Rightarrow> 's option \<Rightarrow> 's option \<times> 's list" where
  "deliver takes snap None = (Some snap, [])"
| "deliver takes snap (Some old) =
     (if takes 0 then (None, [old]) else deliver (\<lambda>k. takes (Suc k)) snap None)"
  by pat_completeness auto

termination deliver
  by (relation "measure (\<lambda>(takes, snap, b). case b of None \<Rightarrow> 0 | Some _ \<Rightarrow> 1)") simp_all

text \<open>\<open>publish\<close>; None is a send on a closed channel.\<close>

fun publish_to :: "(nat \<Rightarrow> nat \<Rightarrow> bool) \<Rightarrow> 's \<Rightarrow> nat list \<Rightarrow> 's channel list \<Rightarrow> 's channel list option" where
  "publish_to takes snap [] chans = Some chans"
| "publish_to takes snap (i # subs) chans =
     (if ch_closed (chans ! i) then None
      else publish_to takes snap subs
             (chans[i := (chans ! i)\<lparr>ch_buf := fst (deliver (takes i) snap (ch_buf (chans ! i)))\<rparr>]))"

definition publish :: "(nat \<Rightarrow> nat \<Rightarrow> bool) \<Rightarrow> 's publisher \<Rightarrow> 's \<Rightarrow> 's publisher option" where
  "publish takes p snap =
     map_option (\<lambda>chans. p\<lparr>pub_cur := snap, pub_chans := chans\<rparr>)
       (publish_to takes snap (pub_subs p) (pub_chans p))"

definition latest :: "'s publisher \<Rightarrow> 's" where
  "latest p = pub_cur p"

definition subscribe :: "'s publisher \<Rightarrow> 's \<times> nat \<times> 's publisher" where
  "subscribe p =
     (pub_cur p, length (pub_chans p),
      p\<lparr>pub_subs := pub_subs p @ [length (pub_chans p)],
        pub_chans := pub_chans p @ [\<lparr>ch_buf = None, ch_closed = False\<rparr>]\<rparr>)"

text \<open>The cancel function of a subscription, under its \<open>sync.Once\<close>; None is a double close.\<close>

definition cancel_sub :: "'s publisher \<Rightarrow> nat \<Rightarrow> 's publisher option" where
  "cancel_sub p i =
     (if i \<in> pub_cancelled p then Some p
      else if ch_closed (pub_chans p ! i) then None
      else Some (p\<lparr>pub_cancelled := insert i (pub_cancelled p),
                   pub_subs := removeAll i (pub_subs p),
                   pub_chans := (pub_chans p)[i := (pub_chans p ! i)\<lparr>ch_closed := True\<rparr>]\<rparr>))"

definition receive :: "'s publisher \<Rightarrow> nat \<Rightarrow> 's option \<times> 's publisher" where
  "receive p i =
     (ch_buf (pub_chans p ! i),
      p\<lparr>pub_chans := (pub_chans p)[i := (pub_chans p ! i)\<lparr>ch_buf := None\<rparr>]\<rparr>)"

datatype 's pub_op = Subscribe | Cancel nat | Publish 's "nat \<Rightarrow> nat \<Rightarrow> bool" | Receive nat

fun pub_apply :: "'s publisher \<Rightarrow> 's pub_op \<Rightarrow> 's publisher option" where
  "pub_apply p Subscribe = Some (snd (snd (subscribe p)))"
| "pub_apply p (Cancel i) = (if i < length (pub_chans p) then cancel_sub p i else Some p)"
| "pub_apply p (Publish s takes) = publish takes p s"
| "pub_apply p (Receive i) = (if i < length (pub_chans p) then Some (snd (receive p i)) else Some p)"

fun pub_run :: "'s publisher \<Rightarrow> 's pub_op list \<Rightarrow> 's publisher option" where
  "pub_run p [] = Some p"
| "pub_run p (a # as) = (case pub_apply p a of None \<Rightarrow> None | Some p' \<Rightarrow> pub_run p' as)"

definition pub_inv :: "'s publisher \<Rightarrow> bool" where
  "pub_inv p \<longleftrightarrow> distinct (pub_subs p)
     \<and> (\<forall>i \<in> set (pub_subs p). i < length (pub_chans p) \<and> \<not> ch_closed (pub_chans p ! i))
     \<and> (\<forall>i < length (pub_chans p). ch_closed (pub_chans p ! i) \<longleftrightarrow> i \<in> pub_cancelled p)
     \<and> (\<forall>i \<in> pub_cancelled p. i < length (pub_chans p))"

lemma publish_to_open:
  assumes "distinct subs" "\<forall>i \<in> set subs. i < length chans \<and> \<not> ch_closed (chans ! i)"
  shows "\<exists>chans'. publish_to takes snap subs chans = Some chans' \<and> length chans' = length chans
     \<and> (\<forall>i < length chans. ch_closed (chans' ! i) = ch_closed (chans ! i)
         \<and> ch_buf (chans' ! i) = (if i \<in> set subs then fst (deliver (takes i) snap (ch_buf (chans ! i)))
                                   else ch_buf (chans ! i)))"
  using assms
proof (induction subs arbitrary: chans)
  case Nil
  then show ?case by simp
next
  case (Cons j subs)
  let ?c = "chans[j := (chans ! j)\<lparr>ch_buf := fst (deliver (takes j) snap (ch_buf (chans ! j)))\<rparr>]"
  have j: "j \<notin> set subs" "\<not> ch_closed (chans ! j)" using Cons.prems by simp_all
  have "\<forall>i \<in> set subs. i < length ?c \<and> \<not> ch_closed (?c ! i)"
    using Cons.prems j(1) by (auto simp: nth_list_update)
  then obtain chans' where c: "publish_to takes snap subs ?c = Some chans'" "length chans' = length ?c"
    "\<And>i. i < length chans \<Longrightarrow> ch_closed (chans' ! i) = ch_closed (?c ! i)"
    "\<And>i. i < length chans \<Longrightarrow> ch_buf (chans' ! i) =
        (if i \<in> set subs then fst (deliver (takes i) snap (ch_buf (?c ! i))) else ch_buf (?c ! i))"
    using Cons.IH [of ?c] Cons.prems(1) by auto
  show ?case
  proof (intro exI [of _ chans'] conjI allI impI)
    fix i assume i: "i < length chans"
    show "ch_closed (chans' ! i) = ch_closed (chans ! i)"
      unfolding c(3) [OF i] by (cases "i = j") (use i in simp_all)
    show "ch_buf (chans' ! i) = (if i \<in> set (j # subs)
        then fst (deliver (takes i) snap (ch_buf (chans ! i))) else ch_buf (chans ! i))"
      unfolding c(4) [OF i] by (cases "i = j") (use i j in simp_all)
  qed (use c(1,2) j in simp_all)
qed

lemma publish_to_pub_inv:
  assumes "pub_inv p"
  shows "\<exists>chans'. publish_to takes s (pub_subs p) (pub_chans p) = Some chans'
    \<and> length chans' = length (pub_chans p)
    \<and> (\<forall>i < length (pub_chans p). ch_closed (chans' ! i) = ch_closed (pub_chans p ! i)
         \<and> ch_buf (chans' ! i) = (if i \<in> set (pub_subs p)
             then fst (deliver (takes i) s (ch_buf (pub_chans p ! i))) else ch_buf (pub_chans p ! i)))"
  using assms by (intro publish_to_open) (simp_all add: pub_inv_def)

lemma pub_apply_inv: "pub_inv p \<Longrightarrow> \<exists>p'. pub_apply p a = Some p' \<and> pub_inv p'"
proof (cases a)
  case (Publish s takes)
  assume inv: "pub_inv p"
  obtain chans' where c: "publish_to takes s (pub_subs p) (pub_chans p) = Some chans'"
    "length chans' = length (pub_chans p)"
    "\<And>i. i < length (pub_chans p) \<Longrightarrow> ch_closed (chans' ! i) = ch_closed (pub_chans p ! i)"
    using publish_to_pub_inv [OF inv] by blast
  then show ?thesis using Publish inv
    by (auto simp: pub_inv_def publish_def)
next
  case Subscribe
  assume "pub_inv p"
  then show ?thesis using Subscribe
    by (auto simp: pub_inv_def subscribe_def nth_append less_Suc_eq)
next
  case (Cancel i)
  assume "pub_inv p"
  then show ?thesis using Cancel
    by (auto simp: pub_inv_def cancel_sub_def nth_list_update distinct_removeAll)
next
  case (Receive i)
  assume "pub_inv p"
  then show ?thesis using Receive
    by (auto simp: pub_inv_def receive_def nth_list_update)
qed

lemma pub_run_inv: "pub_inv p \<Longrightarrow> \<exists>p'. pub_run p as = Some p' \<and> pub_inv p'"
  by (induction "as" arbitrary: p) (simp_all, metis option.simps(5) pub_apply_inv)

lemma pub_inv_new: "pub_inv (newPublisher s)"
  by (simp add: pub_inv_def newPublisher_def)

lemma deliver_eq:
  "fst (deliver takes snap b) = (if b \<noteq> None \<and> takes 0 then None else Some snap)"
  by (cases b) simp_all

text \<open>No sequence of subscriptions, cancellations, receives and publications panics (no send
  on or close of a closed channel), and after a publication a live subscriber holds the newest
  snapshot, unless it took the stale one between the two selects of the send: then its channel is
  left empty and the newest snapshot is lost to it.\<close>

theorem publish_never_panics_and_latest_wins:
  "\<exists>p p'. pub_run (newPublisher s0) ops = Some p \<and> publish takes p snap = Some p'
     \<and> latest p' = snap
     \<and> list_all (\<lambda>i. ch_buf (pub_chans p' ! i) =
          (if ch_buf (pub_chans p ! i) \<noteq> None \<and> takes i 0 then None else Some snap)) (pub_subs p')"
proof -
  obtain p where p: "pub_run (newPublisher s0) ops = Some p" "pub_inv p"
    using pub_run_inv [OF pub_inv_new, of s0 ops] by (elim exE conjE)
  have r: "i \<in> set (pub_subs p) \<Longrightarrow> i < length (pub_chans p)" for i
    using conjunct1 [OF bspec [OF conjunct1 [OF conjunct2 [OF p(2) [unfolded pub_inv_def]]]]] .
  obtain chans' where "publish_to takes snap (pub_subs p) (pub_chans p) = Some chans'"
    "\<And>i. i < length (pub_chans p) \<Longrightarrow> ch_buf (chans' ! i) = (if i \<in> set (pub_subs p)
             then fst (deliver (takes i) snap (ch_buf (pub_chans p ! i))) else ch_buf (pub_chans p ! i))"
    using publish_to_pub_inv [OF p(2), of takes snap] by blast
  note c = this
  have b: "list_all (\<lambda>i. ch_buf (chans' ! i) =
      (if ch_buf (pub_chans p ! i) \<noteq> None \<and> takes i 0 then None else Some snap)) (pub_subs p)"
    unfolding list_all_iff by (intro ballI) (simp only: c(2) [OF r] deliver_eq if_True)
  show ?thesis
  proof (intro exI conjI)
    show "pub_run (newPublisher s0) ops = Some p" by (rule p(1))
    show "publish takes p snap = Some (p\<lparr>pub_cur := snap, pub_chans := chans'\<rparr>)"
      by (simp add: publish_def c(1))
  qed (use b in \<open>simp_all add: latest_def\<close>)
qed

end
