(* ===== verification/Worker.thy ===== *)
theory Worker
  imports Session Breaker Limiter Ramp Semaphore Stats
begin

text \<open>
  One worker goroutine of \<open>internal/engine/worker.go\<close>: an action through breaker, limiter,
  semaphore, routing, the panic shim (\<open>panic.go\<close>) and the retry loop, and the loop that drives a
  session. \<open>NoopHandler\<close> (\<open>noop_handler.go\<close>) is the handler the source itself provides.

  What the worker does not control is the environment \<open>Env\<close> over a world \<open>'w\<close>: what the context
  says, how the gate, a started timer and the semaphore answer (None = granted, Some = the
  context's error), what a handler does with an action (None = it panics), and what the other
  goroutines of the run do. The state is the shared components as this worker sees them, with two
  histories: \<open>ws_calls\<close>, its handler calls, and \<open>ws_ops\<close>, its own operations on what it shares.

  The other goroutines get a turn (\<open>others\<close>) before every access to a shared component and before
  every handler call. In a turn they may change the limiter, the semaphore, the breakers and the
  statistics at will, and call \<open>Trip\<close> any number of times; there is no way to unlatch a tripwire.
  They do not replace the breaker a target has: \<open>Breakers\<close> is a plain map without a lock, and a
  patch that writes it while workers read it is a data race, to which Go gives no meaning.
\<close>

section \<open>Results\<close>

definition baseResult :: "PlannedAction \<Rightarrow> Result" where
  "baseResult pa = zero_Result\<lparr>r_Protocol := ref_Protocol (pa_Ref pa), r_Action := ref_Verb (pa_Ref pa),
     r_Target := t_ID (pa_Target pa)\<rparr>"

definition skipResult :: "PlannedAction \<Rightarrow> Result" where
  "skipResult pa = (baseResult pa)\<lparr>r_Outcome := OutcomeSkipped\<rparr>"

definition cancelResult :: "PlannedAction \<Rightarrow> Result" where
  "cancelResult pa = (baseResult pa)\<lparr>r_Outcome := OutcomeCancelled\<rparr>"

definition safetyResult :: "PlannedAction \<Rightarrow> Result" where
  "safetyResult pa = (baseResult pa)\<lparr>r_Outcome := OutcomeFailure, r_ErrClass := ClassSafety,
     r_ErrCode := ''safety.cap''\<rparr>"

definition panicResult :: "PlannedAction \<Rightarrow> Result" where
  "panicResult pa = (baseResult pa)\<lparr>r_Outcome := OutcomePanicked, r_ErrClass := ClassUnknown,
     r_ErrCode := ''panic''\<rparr>"

definition failureResult :: "PlannedAction \<Rightarrow> pclass \<Rightarrow> string \<Rightarrow> Result" where
  "failureResult pa cl code = (baseResult pa)\<lparr>r_Outcome := OutcomeFailure, r_ErrClass := cl, r_ErrCode := code\<rparr>"

definition failedResult :: "PlannedAction \<Rightarrow> Result \<Rightarrow> pclass \<Rightarrow> Result" where
  "failedResult pa res cl =
     (let r1 = (if r_Protocol res = '''' then baseResult pa else res);
          r2 = r1\<lparr>r_Outcome := OutcomeFailure\<rparr>
      in if r_ErrClass r2 = ClassTransient then r2\<lparr>r_ErrClass := cl\<rparr> else r2)"

definition worker_classify :: "Result \<Rightarrow> goerr option \<Rightarrow> pclass" where
  "worker_classify res err =
     (if err \<noteq> None then Classify err
      else if r_Outcome res \<noteq> OutcomeSuccess then r_ErrClass res
      else ClassUnknown)"

definition recordBreaker :: "clock \<Rightarrow> Breaker option \<Rightarrow> Outcome \<Rightarrow> Breaker option \<times> clock" where
  "recordBreaker clk b outcome =
     (case b of None \<Rightarrow> (None, clk)
      | Some b' \<Rightarrow>
          if outcome = OutcomeSuccess then (Some (RecordSuccess b'), clk)
          else (case RecordFailure clk b' of (b'', clk') \<Rightarrow> (Some b'', clk')))"

section \<open>The noop handler\<close>

record NoopHandler =
  nh_Latency :: duration
  nh_Fail :: bool
  nh_Panic :: bool

definition noopActionKind :: ActionKind where "noopActionKind = ''noop''"

definition noop_ID :: "NoopHandler \<Rightarrow> ProtocolID" where "noop_ID h = ProtoHTTP"

text \<open>\<open>Do\<close>: None is the intentional panic.\<close>

definition noop_Do ::
  "NoopHandler \<Rightarrow> goerr option \<Rightarrow> SessionID \<Rightarrow> clock \<Rightarrow> (Result \<times> Observation \<times> goerr option) option \<times> clock" where
  "noop_Do h ctx_err sid clk =
     (case ctx_err of Some e \<Rightarrow> (Some (zero_Result, zero_Observation, Some e), clk)
      | None \<Rightarrow>
          if nh_Panic h then (None, clk)
          else (case Now clk of (now, clk') \<Rightarrow>
                  (Some (zero_Result\<lparr>r_Protocol := ProtoHTTP, r_Action := noopActionKind, r_Session := sid,
                           r_Outcome := (if nh_Fail h then OutcomeFailure else OutcomeSuccess),
                           r_StartedAt := now, r_Latency := nh_Latency h\<rparr>,
                         zero_Observation, None), clk')))"

section \<open>The environment and the state\<close>

record shared =
  so_limiter :: limiter
  so_breakers :: "string \<rightharpoonup> Breaker"
  so_sem :: semaphore
  so_stats :: collector

record ('h, 'w) Env =
  en_ctx :: "'w \<Rightarrow> goerr option \<times> 'w"
  en_gate :: "'w \<Rightarrow> goerr option \<times> 'w"
  en_timer :: "'w \<Rightarrow> goerr option \<times> 'w"
  en_sem :: "'w \<Rightarrow> goerr option \<times> 'w"
  en_do :: "'h \<Rightarrow> PlannedAction \<Rightarrow> 'w \<Rightarrow> (Result \<times> Observation \<times> goerr option) option \<times> 'w"
  en_others :: "'w \<Rightarrow> shared \<Rightarrow> shared \<times> string list \<times> 'w"

record workerDeps =
  wd_MaxRetries :: int
  wd_BackoffBase :: duration
  wd_BackoffMax :: duration
  wd_PanicStorm :: int
  wd_SessionMaxActions :: int

text \<open>What the worker itself does to the components it shares: \<open>OpReserve\<close> is a reservation the limiter
  granted, with the state of the tripwire at that moment; \<open>OpUnreserve\<close> its release; \<open>OpTake\<close> and
  \<open>OpGive\<close> the semaphore; \<open>OpAllow\<close> and \<open>OpReport\<close> the breaker of a target.\<close>

datatype own_op = OpAllow string | OpReserve string bool | OpUnreserve | OpTake | OpGive
  | OpCall Target | OpReport string | OpTrip

record ('w, 'r) wstate =
  ws_world :: 'w
  ws_rand :: 'r
  ws_clk :: clock
  ws_limiter :: limiter
  ws_tripwire :: Tripwire
  ws_breakers :: "string \<rightharpoonup> Breaker"
  ws_sem :: semaphore
  ws_stats :: collector
  ws_calls :: "Target list"
  ws_ops :: "own_op list"

definition own :: "own_op \<Rightarrow> ('w, 'r) wstate \<Rightarrow> ('w, 'r) wstate" where
  "own x st = st\<lparr>ws_ops := ws_ops st @ [x]\<rparr>"

text \<open>A turn of the other goroutines.\<close>

definition others :: "('h, 'w) Env \<Rightarrow> ('w, 'r) wstate \<Rightarrow> ('w, 'r) wstate" where
  "others E st =
     (case en_others E (ws_world st) \<lparr>so_limiter = ws_limiter st, so_breakers = ws_breakers st,
             so_sem = ws_sem st, so_stats = ws_stats st\<rparr> of
        (s, reasons, w) \<Rightarrow>
          st\<lparr>ws_world := w, ws_limiter := so_limiter s, ws_sem := so_sem s, ws_stats := so_stats s,
             ws_breakers := (\<lambda>i. case ws_breakers st i of None \<Rightarrow> None
                | Some b \<Rightarrow> Some (case so_breakers s i of None \<Rightarrow> b | Some b' \<Rightarrow> b')),
             ws_tripwire := foldl Trip (ws_tripwire st) reasons\<rparr>)"

text \<open>\<open>Clock.Sleep(ctx, d)\<close>: the timer is started only for a positive wait under a live context.\<close>

definition sleep :: "('h, 'w) Env \<Rightarrow> duration \<Rightarrow> ('w, 'r) wstate \<Rightarrow> goerr option \<times> ('w, 'r) wstate" where
  "sleep E d st =
     (case en_ctx E (ws_world st) of (ce, w1) \<Rightarrow>
        if ce = None \<and> d > 0
        then (case en_timer E w1 of (o2, w2) \<Rightarrow> (Sleep ce d o2, st\<lparr>ws_world := w2\<rparr>))
        else (Sleep ce d None, st\<lparr>ws_world := w1\<rparr>))"

section \<open>The retry loop\<close>

text \<open>One guarded call of the handler, entered in the history.\<close>

definition call_handler ::
  "('h, 'w) Env \<Rightarrow> 'h \<Rightarrow> PlannedAction \<Rightarrow> ('w, 'r) wstate
     \<Rightarrow> (Result \<times> Observation \<times> goerr option) option \<times> ('w, 'r) wstate" where
  "call_handler E h pa st0 =
     (let st = others E st0 in
      case en_do E h pa (ws_world st) of (x, w) \<Rightarrow>
        (x, own (OpCall (pa_Target pa)) (st\<lparr>ws_world := w, ws_calls := ws_calls st @ [pa_Target pa]\<rparr>)))"

definition retryable :: "pclass \<Rightarrow> bool" where
  "retryable cl \<longleftrightarrow> cl = ClassTransient \<or> cl = ClassUnknown"

function doWithRetry ::
  "('h, 'w) Env \<Rightarrow> (f64 \<Rightarrow> int) \<Rightarrow> 'r Rand \<Rightarrow> workerDeps \<Rightarrow> 'h \<Rightarrow> PlannedAction \<Rightarrow> nat \<Rightarrow> ('w, 'r) wstate
     \<Rightarrow> ((Result \<times> Observation) \<times> ('w, 'r) wstate) option" where
  "doWithRetry E oor R d h pa attempt st =
     (case call_handler E h pa st of
        (None, st1) \<Rightarrow> Some ((panicResult pa, zero_Observation), st1)
      | (Some (res, obs, err), st1) \<Rightarrow>
          (let cl = worker_classify res err in
           if err = None \<and> r_Outcome res = OutcomeSuccess then Some ((res, obs), st1)
           else if \<not> retryable cl \<or> int attempt \<ge> wd_MaxRetries d
           then Some ((failedResult pa res cl, obs), st1)
           else case backoffDelay oor R attempt (wd_BackoffBase d) (wd_BackoffMax d) (ws_rand st1) of
                  None \<Rightarrow> None
                | Some (delay, r') \<Rightarrow>
                    (case sleep E delay (st1\<lparr>ws_rand := r'\<rparr>) of
                       (Some e, st2) \<Rightarrow> Some ((cancelResult pa, obs), st2)
                     | (None, st2) \<Rightarrow> doWithRetry E oor R d h pa (Suc attempt) st2)))"
  by pat_completeness auto
termination
  by (relation "measure (\<lambda>(E, oor, R, d, h, pa, attempt, st). nat (wd_MaxRetries d) - attempt)") auto

declare doWithRetry.simps [simp del]

section \<open>One action\<close>

definition set_breaker :: "string \<Rightarrow> Breaker option \<Rightarrow> ('w, 'r) wstate \<Rightarrow> ('w, 'r) wstate" where
  "set_breaker i b st = (case b of None \<Rightarrow> st | Some b' \<Rightarrow> st\<lparr>ws_breakers := (ws_breakers st)(i \<mapsto> b')\<rparr>)"

definition note_outcome :: "string \<Rightarrow> Outcome \<Rightarrow> ('w, 'r) wstate \<Rightarrow> ('w, 'r) wstate" where
  "note_outcome i outcome st =
     (case recordBreaker (ws_clk st) (ws_breakers st i) outcome of (b, clk) \<Rightarrow>
        set_breaker i b ((if b = None then st else own (OpReport i) st)\<lparr>ws_clk := clk\<rparr>))"

text \<open>The deferred calls.\<close>

definition drop_permit :: "('w, 'r) wstate \<Rightarrow> ('w, 'r) wstate" where
  "drop_permit st = own OpGive (st\<lparr>ws_sem := sem_release (ws_sem st)\<rparr>)"

definition drop_reservation :: "reservation \<Rightarrow> ('w, 'r) wstate \<Rightarrow> ('w, 'r) wstate" where
  "drop_reservation rsv st = own OpUnreserve (st\<lparr>ws_limiter := fst (Release (ws_limiter st) rsv)\<rparr>)"

text \<open>What the granted semaphore call leaves, and the end of an action that holds permit and
  reservation: report to the breaker, then the two deferred calls.\<close>

definition take_permit :: "('w, 'r) wstate \<Rightarrow> ('w, 'r) wstate" where
  "take_permit st = own OpTake (st\<lparr>ws_sem := (ws_sem st)\<lparr>sem_held := sem_held (ws_sem st) + 1\<rparr>\<rparr>)"

definition finish_action ::
  "('h, 'w) Env \<Rightarrow> string \<Rightarrow> Outcome \<Rightarrow> reservation \<Rightarrow> ('w, 'r) wstate \<Rightarrow> ('w, 'r) wstate" where
  "finish_action E tid outcome rsv st =
     drop_reservation rsv (others E (drop_permit (others E (note_outcome tid outcome (others E st)))))"

text \<open>From the admission on: the semaphore, the routing and the handler.\<close>

definition run_admitted ::
  "('h, 'w) Env \<Rightarrow> (f64 \<Rightarrow> int) \<Rightarrow> 'r Rand \<Rightarrow> 'h Registry \<Rightarrow> workerDeps \<Rightarrow> PlannedAction \<Rightarrow> reservation
     \<Rightarrow> ('w, 'r) wstate \<Rightarrow> (Result \<times> Observation \<times> ('w, 'r) wstate) option" where
  "run_admitted E oor R reg d pa rsv st =
     (case en_sem E (ws_world st) of
        (Some e, w) \<Rightarrow>
          Some (cancelResult pa, zero_Observation, drop_reservation rsv (others E (st\<lparr>ws_world := w\<rparr>)))
      | (None, w) \<Rightarrow>
          (let st1 = take_permit (others E (st\<lparr>ws_world := w\<rparr>));
               tid = t_ID (pa_Target pa)
           in case Lookup reg (ref_Protocol (pa_Ref pa)) of
                None \<Rightarrow>
                  (let res = failureResult pa ClassPermanent ''routing.unknown''
                   in Some (res, zero_Observation, finish_action E tid (r_Outcome res) rsv st1))
              | Some h \<Rightarrow>
                  (case doWithRetry E oor R d h pa 0 st1 of
                     None \<Rightarrow> None
                   | Some ((res, obs), st2) \<Rightarrow>
                       Some (res, obs,
                         finish_action E tid (r_Outcome res)
                           (Reconcile rsv (i64 (r_BytesIn res + r_BytesOut res))) st2))))"

text \<open>\<open>Allow\<close> of the target's breaker, when it has one.\<close>

definition ask_breaker :: "string \<Rightarrow> ('w, 'r) wstate \<Rightarrow> bool \<times> ('w, 'r) wstate" where
  "ask_breaker tid st =
     (case ws_breakers st tid of
        None \<Rightarrow> (True, st)
      | Some b \<Rightarrow>
          (case Allow (ws_clk st) b of (b', go, clk) \<Rightarrow>
             (go, own (OpAllow tid) (st\<lparr>ws_breakers := (ws_breakers st)(tid \<mapsto> b'), ws_clk := clk\<rparr>))))"

text \<open>The verdict of the limiter, on a state \<open>st\<close> the other goroutines have left.\<close>

definition admit ::
  "goerr option \<Rightarrow> string \<Rightarrow> ('w, 'r) wstate \<Rightarrow> (goerr + reservation) \<times> ('w, 'r) wstate" where
  "admit ce tid st =
     (case Acquire (ws_clk st) (ws_limiter st) ce (Some (ws_tripwire st)) tid 0 of
        (l, Inl e, clk) \<Rightarrow> (Inl e, st\<lparr>ws_limiter := l, ws_clk := clk\<rparr>)
      | (l, Inr rsv, clk) \<Rightarrow>
          (Inr rsv, own (OpReserve tid (Tripped (ws_tripwire st))) (st\<lparr>ws_limiter := l, ws_clk := clk\<rparr>)))"

definition runAction ::
  "('h, 'w) Env \<Rightarrow> (f64 \<Rightarrow> int) \<Rightarrow> 'r Rand \<Rightarrow> 'h Registry \<Rightarrow> workerDeps \<Rightarrow> PlannedAction
     \<Rightarrow> ('w, 'r) wstate \<Rightarrow> (Result \<times> Observation \<times> bool \<times> ('w, 'r) wstate) option" where
  "runAction E oor R reg d pa st =
     (case ask_breaker (t_ID (pa_Target pa)) (others E st) of (go, st1) \<Rightarrow>
        if \<not> go then Some (skipResult pa, zero_Observation, False, st1)
        else case en_ctx E (ws_world st1) of (ce, w) \<Rightarrow>
        case admit ce (t_ID (pa_Target pa)) (others E (st1\<lparr>ws_world := w\<rparr>)) of
          (Inl e, st2) \<Rightarrow>
             if IsClass (Some e) ClassSafety
             then (let st3 = others E st2 in
                   Some (safetyResult pa, zero_Observation, True,
                     own OpTrip (st3\<lparr>ws_tripwire := Trip (ws_tripwire st3) ''limiter ClassSafety''\<rparr>)))
             else Some (cancelResult pa, zero_Observation, False, st2)
        | (Inr rsv, st2) \<Rightarrow>
            map_option (\<lambda>(res, obs, st3). (res, obs, False, st3)) (run_admitted E oor R reg d pa rsv st2))"

section \<open>The worker's loop\<close>

datatype worker_end = SessionOver | Backstop | GateCancelled | SleepCancelled | SafetyStop | Running

definition record_result :: "Result \<Rightarrow> ('w, 'r) wstate \<Rightarrow> ('w, 'r) wstate" where
  "record_result res st = st\<lparr>ws_stats := Record (ws_stats st) res\<rparr>"

text \<open>\<open>runWorker\<close> for at most \<open>fuel\<close> turns of its loop, \<open>Running\<close> when they are used up. The last
  component lists the results it recorded. None is a panic of a source or the selector.\<close>

fun runWorker ::
  "('h, 'w) Env \<Rightarrow> (f64 \<Rightarrow> f64) \<Rightarrow> (f64 \<Rightarrow> int) \<Rightarrow> 'r Rand \<Rightarrow> ('loc \<Rightarrow> instant \<Rightarrow> localtime) \<Rightarrow> 'loc
     \<Rightarrow> ('sel \<Rightarrow> ProtocolID \<Rightarrow> (Target option \<times> 'sel) option) \<Rightarrow> 'h Registry \<Rightarrow> workerDeps
     \<Rightarrow> nat \<Rightarrow> int \<Rightarrow> ('r, 'loc) session \<Rightarrow> 'sel \<Rightarrow> ('w, 'r) wstate
     \<Rightarrow> (worker_end \<times> 'sel \<times> ('w, 'r) wstate \<times> Result list) option" where
  "runWorker E expf oor R In utc nxt reg d 0 actions vs sel st = Some (Running, sel, st, [])"
| "runWorker E expf oor R In utc nxt reg d (Suc n) actions vs sel st =
     (case en_ctx E (ws_world st) of (ce, w) \<Rightarrow>
      case sess_Next expf oor R In utc nxt ce (ws_clk st) vs sel of
        None \<Rightarrow> None
      | Some (a, vs1, sel1, clk1) \<Rightarrow>
          (let st1 = st\<lparr>ws_world := w, ws_clk := clk1\<rparr> in
           case a of
             Inl e \<Rightarrow> Some (SessionOver, sel1, st1, [])
           | Inr step \<Rightarrow>
               if st_Done step then Some (SessionOver, sel1, st1, [])
               else if actions \<ge> wd_SessionMaxActions d then Some (Backstop, sel1, st1, [])
               else case en_gate E (ws_world st1) of
                 (Some e, w2) \<Rightarrow> Some (GateCancelled, sel1, st1\<lparr>ws_world := w2\<rparr>, [])
               | (None, w2) \<Rightarrow>
                 (case sleep E (st_Wait step) (st1\<lparr>ws_world := w2\<rparr>) of
                   (Some e, st3) \<Rightarrow> Some (SleepCancelled, sel1, st3, [])
                 | (None, st3) \<Rightarrow>
                   (case st_Action step of
                      None \<Rightarrow> runWorker E expf oor R In utc nxt reg d n actions vs1 sel1 st3
                    | Some pa \<Rightarrow>
                        (case runAction E oor R reg d pa st3 of
                           None \<Rightarrow> None
                         | Some (res, obs, stop, st4) \<Rightarrow>
                             if stop then Some (SafetyStop, sel1, st4, [])
                             else map_option (\<lambda>(e, s, y, rs). (e, s, y, res # rs))
                                (runWorker E expf oor R In utc nxt reg d n (i64 (actions + 1))
                                   (Observe vs1 res obs) sel1
                                   (record_result res (others E st4))))))))"


section \<open>The retry loop is bounded\<close>

text \<open>The shared state as a whole, an environment whose other goroutines do nothing, and a stretch of
  execution in which only the others touch what is shared: the latch holds, and without others
  nothing changes.\<close>

definition same_shared :: "('w, 'r) wstate \<Rightarrow> ('w, 'r) wstate \<Rightarrow> bool" where
  "same_shared st st' \<longleftrightarrow> ws_limiter st' = ws_limiter st \<and> ws_tripwire st' = ws_tripwire st
     \<and> ws_breakers st' = ws_breakers st \<and> ws_sem st' = ws_sem st \<and> ws_stats st' = ws_stats st
     \<and> ws_clk st' = ws_clk st"

definition quiet :: "('h, 'w) Env \<Rightarrow> bool" where
  "quiet E \<longleftrightarrow> (\<forall>w s. en_others E w s = (s, [], w))"

definition others_only :: "('h, 'w) Env \<Rightarrow> ('w, 'r) wstate \<Rightarrow> ('w, 'r) wstate \<Rightarrow> bool" where
  "others_only E st st' \<longleftrightarrow> (Tripped (ws_tripwire st) \<longrightarrow> Tripped (ws_tripwire st'))
     \<and> (quiet E \<longrightarrow> same_shared st st')"

lemma same_shared_refl [simp]: "same_shared st st"
  by (simp add: same_shared_def)

lemma others_only_refl [simp]: "others_only E st st"
  by (simp add: others_only_def)

lemma others_only_trans: "others_only E a b \<Longrightarrow> others_only E b c \<Longrightarrow> others_only E a c"
  by (simp add: others_only_def same_shared_def)

lemma others_only_upd [simp]:
  "others_only E st (st'\<lparr>ws_rand := r\<rparr>) = others_only E st st'"
  "others_only E st (st'\<lparr>ws_world := w\<rparr>) = others_only E st st'"
  "others_only E st (st'\<lparr>ws_calls := c\<rparr>) = others_only E st st'"
  "others_only E st (own x st') = others_only E st st'"
  "others_only E (st\<lparr>ws_rand := r\<rparr>) st' = others_only E st st'"
  "others_only E (st\<lparr>ws_world := w\<rparr>) st' = others_only E st st'"
  "others_only E (own x st) st' = others_only E st st'"
  by (simp_all add: others_only_def same_shared_def own_def)

lemma own_frame [simp]:
  "ws_limiter (own x st) = ws_limiter st" "ws_tripwire (own x st) = ws_tripwire st"
  "ws_sem (own x st) = ws_sem st" "ws_stats (own x st) = ws_stats st" "ws_breakers (own x st) = ws_breakers st"
  "ws_calls (own x st) = ws_calls st" "ws_rand (own x st) = ws_rand st" "ws_world (own x st) = ws_world st"
  "ws_clk (own x st) = ws_clk st" "ws_ops (own x st) = ws_ops st @ [x]"
  by (simp_all add: own_def)

lemma Trips_Tripped: "Tripped t \<Longrightarrow> Tripped (foldl Trip t rs)"
  by (induction rs arbitrary: t) (simp_all add: Trip_def Tripped_def)

lemma others_frame [simp]:
  "ws_calls (others E st) = ws_calls st" "ws_ops (others E st) = ws_ops st" "ws_rand (others E st) = ws_rand st"
  "ws_clk (others E st) = ws_clk st"
  by (simp_all add: others_def split: prod.split)

lemma others_latch: "Tripped (ws_tripwire st) \<Longrightarrow> Tripped (ws_tripwire (others E st))"
  by (simp add: others_def Trips_Tripped split: prod.split)

lemma others_quiet: "quiet E \<Longrightarrow> others E st = st"
proof -
  have "(\<lambda>i. case m i of None \<Rightarrow> None | Some b \<Rightarrow> Some (case m i of None \<Rightarrow> b | Some b' \<Rightarrow> b')) = m"
    for m :: "string \<rightharpoonup> Breaker"
    by (rule ext) (simp split: option.split)
  then show "quiet E \<Longrightarrow> others E st = st" 
    by (simp add: others_def quiet_def cong: option.case_cong)
qed

lemma others_only_others [simp]: "others_only E st (others E st)"
  by (simp add: others_only_def others_latch others_quiet)

lemma call_handler_frame:
  assumes "call_handler E h pa st = (x, st')"
  shows "others_only E st st' \<and> ws_calls st' = ws_calls st @ [pa_Target pa]
    \<and> ws_ops st' = ws_ops st @ [OpCall (pa_Target pa)] \<and> ws_rand st' = ws_rand st"
  using assms by (auto simp: call_handler_def Let_def split: prod.splits)

lemma sleep_frame:
  "sleep E d st = (o', st') \<Longrightarrow> same_shared st st' \<and> ws_calls st' = ws_calls st \<and> ws_ops st' = ws_ops st
     \<and> ws_rand st' = ws_rand st"
  by (auto simp: sleep_def same_shared_def split: prod.splits if_splits)

lemma same_shared_others_only: "same_shared st st' \<Longrightarrow> others_only E st st'"
  by (simp add: others_only_def same_shared_def)

lemma doWithRetry_calls:
  "doWithRetry E oor R d h pa attempt st = Some (x, st') \<Longrightarrow>
     others_only E st st' \<and>
     (\<exists>k. 1 \<le> k \<and> k \<le> Suc (nat (wd_MaxRetries d - int attempt))
        \<and> ws_calls st' = ws_calls st @ replicate k (pa_Target pa)
        \<and> ws_ops st' = ws_ops st @ replicate k (OpCall (pa_Target pa)))"
proof (induction E oor R d h pa attempt st arbitrary: rule: doWithRetry.induct)
  case (1 E oor R d h pa attempt st)
  obtain y st1 where c: "call_handler E h pa st = (y, st1)" by (cases "call_handler E h pa st")
  note f = call_handler_frame [OF c]
  have one: "\<exists>k. 1 \<le> k \<and> k \<le> Suc (nat (wd_MaxRetries d - int attempt))
      \<and> ws_calls st1 = ws_calls st @ replicate k (pa_Target pa)
      \<and> ws_ops st1 = ws_ops st @ replicate k (OpCall (pa_Target pa))"
    using f by (intro exI [of _ 1]) simp
  show ?case
  proof (cases y)
    case None
    then show ?thesis using 1(2) c f one by (simp add: doWithRetry.simps)
  next
    case (Some z)
    obtain res obs err where z: "z = (res, obs, err)" by (cases z)
    let ?cl = "worker_classify res err"
    consider (fin) "err = None \<and> r_Outcome res = OutcomeSuccess \<or> \<not> retryable ?cl \<or> int attempt \<ge> wd_MaxRetries d"
      | (again) "\<not> (err = None \<and> r_Outcome res = OutcomeSuccess)" "retryable ?cl" "int attempt < wd_MaxRetries d"
      by linarith
    then show ?thesis
    proof cases
      case fin
      then show ?thesis using 1(2) c f one
        by (auto simp: doWithRetry.simps [of E] Some z Let_def split: if_splits)
    next
      case again
      obtain delay r' where b: "backoffDelay oor R attempt (wd_BackoffBase d) (wd_BackoffMax d) (ws_rand st1)
          = Some (delay, r')"
        using 1(2) again c by (auto simp: doWithRetry.simps [of E] Some z Let_def split: option.splits if_splits)
      obtain o2 st2 where s: "sleep E delay (st1\<lparr>ws_rand := r'\<rparr>) = (o2, st2)"
        by (cases "sleep E delay (st1\<lparr>ws_rand := r'\<rparr>)")
      have "others_only E (st1\<lparr>ws_rand := r'\<rparr>) st2"
        using sleep_frame [OF s] same_shared_others_only by blast
      then have f2: "others_only E st st2" "ws_calls st2 = ws_calls st1" "ws_ops st2 = ws_ops st1"
        using f sleep_frame [OF s] by (auto intro: others_only_trans)
      show ?thesis
      proof (cases o2)
        case (Some e)
        have "st' = st2" using 1(2) again c b s Some
          by (auto simp: doWithRetry.simps [of E] \<open>y = Some z\<close> z Let_def split: if_splits)
        then show ?thesis using f2 one by auto
      next
        case None
        have r: "doWithRetry E oor R d h pa (Suc attempt) st2 = Some (x, st')"
          using 1(2) again c b s None
          by (auto simp: doWithRetry.simps [of E _ _ _ _ _ attempt st] \<open>y = Some z\<close> z Let_def split: if_splits)
        have "others_only E st2 st' \<and> (\<exists>k. 1 \<le> k \<and> k \<le> Suc (nat (wd_MaxRetries d - int (Suc attempt)))
            \<and> ws_calls st' = ws_calls st2 @ replicate k (pa_Target pa)
            \<and> ws_ops st' = ws_ops st2 @ replicate k (OpCall (pa_Target pa)))"
          by (rule 1(1) [OF c [symmetric] Some z [symmetric] refl refl _ _ b refl s [symmetric] None r])
             (use again in auto)
        then obtain k where k: "others_only E st2 st'" "k \<le> Suc (nat (wd_MaxRetries d - int (Suc attempt)))"
          "ws_calls st' = ws_calls st2 @ replicate k (pa_Target pa)"
          "ws_ops st' = ws_ops st2 @ replicate k (OpCall (pa_Target pa))" by blast
        have "ws_calls st' = ws_calls st @ replicate (Suc k) (pa_Target pa)"
          "ws_ops st' = ws_ops st @ replicate (Suc k) (OpCall (pa_Target pa))"
          using k(3,4) f2(2,3) f by simp_all
        moreover have "Suc k \<le> Suc (nat (wd_MaxRetries d - int attempt))" using k(2) again by simp
        ultimately show ?thesis using others_only_trans [OF f2(1) k(1)]
          by (intro conjI exI [of _ "Suc k"]) simp_all
      qed
    qed
  qed
qed


section \<open>The retry loop against a reference\<close>

text \<open>A handler that answers from a tape, in a world that counts the answers given; nothing is
  cancelled, and the other goroutines leave the shared components alone.\<close>

definition taped :: "(nat \<Rightarrow> (Result \<times> Observation \<times> goerr option) option) \<Rightarrow> ('h, nat) Env" where
  "taped f = \<lparr>en_ctx = \<lambda>w. (None, w), en_gate = \<lambda>w. (None, w), en_timer = \<lambda>w. (None, w),
     en_sem = \<lambda>w. (None, w), en_do = \<lambda>h pa w. (f w, Suc w),
     en_others = \<lambda>w s. (s, [], w)\<rparr>"

lemma taped_quiet [simp]: "quiet (taped f)"
  by (simp add: quiet_def taped_def)

lemma taped_others [simp]: "others (taped f) st = st"
  by (rule others_quiet) simp

text \<open>An answer the loop does not repeat, and what becomes of the last answer.\<close>

definition conclusive :: "(Result \<times> Observation \<times> goerr option) option \<Rightarrow> bool" where
  "conclusive a \<longleftrightarrow> (case a of None \<Rightarrow> True
     | Some (res, obs, err) \<Rightarrow> err = None \<and> r_Outcome res = OutcomeSuccess
                              \<or> \<not> retryable (worker_classify res err))"

definition verdict :: "PlannedAction \<Rightarrow> (Result \<times> Observation \<times> goerr option) option \<Rightarrow> Result \<times> Observation" where
  "verdict pa a = (case a of None \<Rightarrow> (panicResult pa, zero_Observation)
     | Some (res, obs, err) \<Rightarrow>
         if err = None \<and> r_Outcome res = OutcomeSuccess then (res, obs)
         else (failedResult pa res (worker_classify res err), obs))"

text \<open>The attempt at which to stop: the first conclusive one, or the one after \<open>n\<close> retries.\<close>

fun last_attempt :: "(nat \<Rightarrow> (Result \<times> Observation \<times> goerr option) option) \<Rightarrow> nat \<Rightarrow> nat \<Rightarrow> nat" where
  "last_attempt f k 0 = k"
| "last_attempt f k (Suc n) = (if conclusive (f k) then k else last_attempt f (Suc k) n)"

lemma taped_retry:
  fixes h :: 'h
  assumes "\<And>r. rand_Float64 R r \<noteq> None" "ws_world st = k" "nat (wd_MaxRetries d - int k) = n"
  shows "\<exists>st'. doWithRetry (taped f) oor R d h pa k st = Some (verdict pa (f (last_attempt f k n)), st')
    \<and> ws_world st' = Suc (last_attempt f k n)"
  using assms(2,3)
proof (induction n arbitrary: k st)
  case 0
  have c: "call_handler (taped f) h pa st =
      (f k, own (OpCall (pa_Target pa)) (st\<lparr>ws_world := Suc k, ws_calls := ws_calls st @ [pa_Target pa]\<rparr>))"
    using 0 by (simp add: call_handler_def) (simp add: taped_def)
  show ?case using 0(2)
    by (cases "f k") (auto simp: doWithRetry.simps c verdict_def Let_def split: prod.splits)
next
  case (Suc n)
  have c: "call_handler (taped f) h pa st =
      (f k, own (OpCall (pa_Target pa)) (st\<lparr>ws_world := Suc k, ws_calls := ws_calls st @ [pa_Target pa]\<rparr>))"
      (is "_ = (_, ?st1)")
    using Suc.prems by (simp add: call_handler_def) (simp add: taped_def)
  show ?case
  proof (cases "conclusive (f k)")
    case True
    then show ?thesis using Suc.prems
      by (cases "f k") (auto simp: doWithRetry.simps c verdict_def conclusive_def Let_def split: prod.splits)
  next
    case False
    then obtain res obs err where a: "f k = Some (res, obs, err)"
      "\<not> (err = None \<and> r_Outcome res = OutcomeSuccess)" "retryable (worker_classify res err)"
      by (cases "f k") (auto simp: conclusive_def split: prod.splits)
    obtain u r' where "rand_Float64 R (ws_rand ?st1) = Some (u, r')" using assms(1) [of "ws_rand ?st1"] by auto
    then obtain delay where b: "backoffDelay oor R k (wd_BackoffBase d) (wd_BackoffMax d) (ws_rand ?st1)
        = Some (delay, r')" by (simp add: backoffDelay_def Let_def)
    let ?st2 = "?st1\<lparr>ws_rand := r'\<rparr>"
    have s: "sleep (taped f :: ('h, nat) Env) delay ?st2 = (None, ?st2)"
      by (simp add: sleep_def taped_def Sleep_def)
    have lt: "\<not> int k \<ge> wd_MaxRetries d" using Suc.prems by simp
    have "doWithRetry (taped f) oor R d h pa k st = doWithRetry (taped f) oor R d h pa (Suc k) ?st2"
      using a lt b s by (subst doWithRetry.simps) (auto simp: c Let_def)
    moreover have "nat (wd_MaxRetries d - int (Suc k)) = n" using Suc.prems by simp
    ultimately show ?thesis using Suc.IH [of ?st2 "Suc k"] False by simp
  qed
qed

text \<open>C14. The retry loop is the reference: with \<open>MaxRetries = n\<close> it calls the handler until the
  first conclusive answer (a panic, a success, or a class that is not retryable), at most
  \<open>n + 1\<close> times, and reports that answer; a negative \<open>MaxRetries\<close> means a single call. The context
  stays live: a backoff that is cancelled ends the loop with a cancelled result instead.\<close>

theorem retry_is_the_reference:
  assumes "\<And>r. rand_Float64 R r \<noteq> None" "ws_world st = 0"
  shows "\<exists>st'. doWithRetry (taped f) oor R d h pa 0 st
      = Some (verdict pa (f (last_attempt f 0 (nat (wd_MaxRetries d)))), st')
    \<and> ws_world st' = Suc (last_attempt f 0 (nat (wd_MaxRetries d)))"
  using taped_retry [OF assms, of d "nat (wd_MaxRetries d)" f oor h pa] by simp

lemma last_attempt_inconclusive: "(\<And>k. \<not> conclusive (f k)) \<Longrightarrow> last_attempt f k n = k + n"
  by (induction f k n rule: last_attempt.induct) auto

text \<open>An error the routing layer documents as permanent and never retried is retried to the
  limit: \<open>RoutingError\<close> is not a \<open>pterr.Error\<close>, so the worker sees class unknown, and the handler is
  called \<open>n + 1\<close> times before the failure is reported.\<close>

theorem routing_error_is_retried:
  assumes "\<And>r. rand_Float64 R r \<noteq> None" "ws_world st = 0"
  shows "RoutingError_Class = ClassPermanent \<and> \<not> retryable RoutingError_Class
    \<and> (\<exists>st'. doWithRetry (taped (\<lambda>_. Some (zero_Result, zero_Observation, Some (RoutingError got proto msg))))
              oor R d h pa 0 st = Some ((failedResult pa zero_Result ClassUnknown, zero_Observation), st')
          \<and> ws_world st' = Suc (nat (wd_MaxRetries d)))"
proof -
  let ?f = "\<lambda>_. Some (zero_Result, zero_Observation, Some (RoutingError got proto msg))"
  have c: "Classify (Some (RoutingError got proto msg)) = ClassUnknown" by (simp add: Classify_def)
  have "\<not> conclusive (?f k)" for k
    by (simp add: conclusive_def worker_classify_def c retryable_def)
  then have l: "last_attempt ?f 0 (nat (wd_MaxRetries d)) = nat (wd_MaxRetries d)"
    using last_attempt_inconclusive [of ?f 0] by simp
  have "\<exists>st'. doWithRetry (taped ?f) oor R d h pa 0 st = Some (verdict pa (?f (nat (wd_MaxRetries d))), st')
      \<and> ws_world st' = Suc (nat (wd_MaxRetries d))"
    using taped_retry [OF assms, of d "nat (wd_MaxRetries d)" ?f] l by simp
  then show ?thesis
    by (simp add: verdict_def worker_classify_def c RoutingError_Class_def retryable_def)
qed


section \<open>What one action does\<close>

text \<open>The discipline of an action, as a reader of its operations: it asks only its own target's
  breaker, before everything else; it is admitted only while the tripwire is not latched; it takes
  the permit only with a reservation in hand, calls the handler only with both, reports only to its
  own target's breaker, and gives back first the permit and then the reservation; at the end it
  holds neither.\<close>

fun disciplined :: "Target \<Rightarrow> bool \<Rightarrow> bool \<Rightarrow> own_op list \<Rightarrow> bool" where
  "disciplined t rsv per [] \<longleftrightarrow> \<not> rsv \<and> \<not> per"
| "disciplined t rsv per (OpAllow i # xs) \<longleftrightarrow> i = t_ID t \<and> \<not> rsv \<and> \<not> per \<and> disciplined t rsv per xs"
| "disciplined t rsv per (OpReserve i tripped # xs) \<longleftrightarrow>
     i = t_ID t \<and> \<not> tripped \<and> \<not> rsv \<and> \<not> per \<and> disciplined t True per xs"
| "disciplined t rsv per (OpTake # xs) \<longleftrightarrow> rsv \<and> \<not> per \<and> disciplined t rsv True xs"
| "disciplined t rsv per (OpCall u # xs) \<longleftrightarrow> u = t \<and> rsv \<and> per \<and> disciplined t rsv per xs"
| "disciplined t rsv per (OpReport i # xs) \<longleftrightarrow> i = t_ID t \<and> rsv \<and> per \<and> disciplined t rsv per xs"
| "disciplined t rsv per (OpGive # xs) \<longleftrightarrow> per \<and> disciplined t rsv False xs"
| "disciplined t rsv per (OpUnreserve # xs) \<longleftrightarrow> rsv \<and> \<not> per \<and> disciplined t False per xs"
| "disciplined t rsv per (OpTrip # xs) \<longleftrightarrow> \<not> rsv \<and> \<not> per \<and> disciplined t rsv per xs"

definition called :: "own_op list \<Rightarrow> Target list" where
  "called xs = List.map_filter (\<lambda>x. case x of OpCall t \<Rightarrow> Some t | _ \<Rightarrow> None) xs"

lemma called_simps [simp]:
  "called [] = []" "called (xs @ ys) = called xs @ called ys"
  "called (OpAllow i # xs) = called xs" "called (OpReserve i b # xs) = called xs"
  "called (OpUnreserve # xs) = called xs" "called (OpTake # xs) = called xs" "called (OpGive # xs) = called xs"
  "called (OpReport i # xs) = called xs" "called (OpTrip # xs) = called xs"
  "called (OpCall t # xs) = t # called xs"
  by (simp_all add: called_def map_filter_def)

lemma called_replicate [simp]: "called (replicate k (OpCall t)) = replicate k t"
  by (induction k) simp_all

lemma disciplined_calls [simp]:
  "disciplined t True True (replicate k (OpCall t) @ xs) = disciplined t True True xs"
  by (induction k) simp_all

lemma note_outcome_frame [simp]:
  "ws_limiter (note_outcome i x st) = ws_limiter st" "ws_tripwire (note_outcome i x st) = ws_tripwire st"
  "ws_sem (note_outcome i x st) = ws_sem st" "ws_stats (note_outcome i x st) = ws_stats st"
  "ws_calls (note_outcome i x st) = ws_calls st" "ws_world (note_outcome i x st) = ws_world st"
  by (simp_all add: note_outcome_def set_breaker_def split: prod.splits option.splits)

lemma note_outcome_ops:
  "\<exists>xs \<in> {[], [OpReport i]}. ws_ops (note_outcome i x st) = ws_ops st @ xs"
  by (simp add: note_outcome_def set_breaker_def split: prod.splits option.splits)

lemma note_outcome_breakers: "j \<noteq> i \<Longrightarrow> ws_breakers (note_outcome i x st) j = ws_breakers st j"
  by (simp add: note_outcome_def set_breaker_def split: prod.splits option.splits)

lemma drops_frame [simp]:
  "ws_calls (drop_permit st) = ws_calls st" "ws_calls (drop_reservation v st) = ws_calls st"
  "ws_ops (drop_permit st) = ws_ops st @ [OpGive]" "ws_ops (drop_reservation v st) = ws_ops st @ [OpUnreserve]"
  "ws_tripwire (drop_permit st) = ws_tripwire st" "ws_tripwire (drop_reservation v st) = ws_tripwire st"
  "ws_stats (drop_permit st) = ws_stats st" "ws_stats (drop_reservation v st) = ws_stats st"
  "ws_breakers (drop_permit st) = ws_breakers st" "ws_breakers (drop_reservation v st) = ws_breakers st"
  "ws_sem (drop_reservation v st) = ws_sem st"
  "ws_world (drop_permit st) = ws_world st" "ws_world (drop_reservation v st) = ws_world st"
  "ws_sem (drop_permit st) = sem_release (ws_sem st)"
  by (simp_all add: drop_permit_def drop_reservation_def)

lemma take_permit_frame [simp]:
  "ws_calls (take_permit st) = ws_calls st" "ws_ops (take_permit st) = ws_ops st @ [OpTake]"
  "ws_tripwire (take_permit st) = ws_tripwire st" "ws_stats (take_permit st) = ws_stats st"
  "ws_breakers (take_permit st) = ws_breakers st" "ws_world (take_permit st) = ws_world st"
  "ws_sem (take_permit st) = (ws_sem st)\<lparr>sem_held := sem_held (ws_sem st) + 1\<rparr>"
  by (simp_all add: take_permit_def)

lemma permit_returned:
  "0 \<le> sem_held s \<Longrightarrow> sem_release (s\<lparr>sem_held := sem_held s + 1\<rparr>) = s"
  by (simp add: sem_release_def)

text \<open>What a stretch of an action leaves behind: the operations \<open>xs\<close>, the handler calls among them,
  the latch, and, when the other goroutines do nothing, everything but the target's breaker, the
  limiter and the permits taken and not yet given back.\<close>

definition leaves :: "('h, 'w) Env \<Rightarrow> Target \<Rightarrow> own_op list \<Rightarrow> ('w, 'r) wstate \<Rightarrow> ('w, 'r) wstate \<Rightarrow> bool" where
  "leaves E t xs st st' \<longleftrightarrow> ws_ops st' = ws_ops st @ xs \<and> ws_calls st' = ws_calls st @ called xs
     \<and> (Tripped (ws_tripwire st) \<longrightarrow> Tripped (ws_tripwire st'))
     \<and> (quiet E \<longrightarrow> ws_stats st' = ws_stats st \<and> (\<forall>j. j \<noteq> t_ID t \<longrightarrow> ws_breakers st' j = ws_breakers st j)
          \<and> (OpTrip \<in> set xs \<or> ws_tripwire st' = ws_tripwire st))"

lemma leaves_trans: "leaves E t xs a b \<Longrightarrow> leaves E t ys b c \<Longrightarrow> leaves E t (xs @ ys) a c"
  unfolding leaves_def by (intro conjI impI) auto

lemma leaves_others: "leaves E t [] st (others E st)"
  by (auto simp: leaves_def others_latch others_quiet)

lemma leaves_world: "leaves E t xs st (st'\<lparr>ws_world := w\<rparr>) = leaves E t xs st st'"
  "leaves E t xs (st\<lparr>ws_world := w\<rparr>) st' = leaves E t xs st st'"
  by (simp_all add: leaves_def)

lemma leaves_others_after: "leaves E t xs a b \<Longrightarrow> leaves E t xs a (others E b)"
  using leaves_trans [OF _ leaves_others] by fastforce

lemma ask_breaker_leaves:
  assumes "ask_breaker (t_ID t) st = (go, st')"
  shows "(\<exists>xs \<in> {[], [OpAllow (t_ID t)]}. leaves E t xs st st') \<and> ws_sem st' = ws_sem st"
  using assms by (auto simp: ask_breaker_def leaves_def split: option.splits prod.splits)

lemma finish_leaves:
  fixes st :: "('w, 'r) wstate"
  shows "\<exists>xs \<in> {[], [OpReport (t_ID t)]}. leaves E t (xs @ [OpGive, OpUnreserve]) st (finish_action E (t_ID t) x rsv st)"
proof -
  let ?a = "others E st" let ?b = "note_outcome (t_ID t) x ?a"
  obtain xs where xs: "xs \<in> {[], [OpReport (t_ID t)]}" "ws_ops ?b = ws_ops ?a @ xs"
    using note_outcome_ops [of "t_ID t" x ?a] by blast
  then have "leaves E t xs ?a ?b" by (auto simp: leaves_def note_outcome_breakers)
  moreover have "leaves E t [OpGive] (others E ?b) (drop_permit (others E ?b))" by (simp add: leaves_def)
  moreover have "leaves E t [OpUnreserve] s (drop_reservation rsv s)" for s :: "('w, 'r) wstate"
    by (simp add: leaves_def)
  ultimately have "leaves E t ((([] @ xs @ []) @ [OpGive] @ []) @ [OpUnreserve]) st (finish_action E (t_ID t) x rsv st)"
    unfolding finish_action_def by (blast intro: leaves_trans leaves_others)
  then show ?thesis using xs(1) by auto
qed

lemma finish_sem:
  "quiet E \<Longrightarrow> ws_sem (finish_action E i x rsv st) = sem_release (ws_sem st)"
  by (simp add: finish_action_def others_quiet)

text \<open>From a granted admission on: the permit is taken or not, the handler called at most
  \<open>MaxRetries + 1\<close> times, and everything is given back.\<close>

lemma run_admitted_leaves:
  assumes "run_admitted E oor R reg d pa rsv st = Some (res, obs, st')"
  obtains xs k where "leaves E (pa_Target pa) xs st st'" "disciplined (pa_Target pa) True False xs"
    "called xs = replicate k (pa_Target pa)" "k \<le> Suc (nat (wd_MaxRetries d))" "OpTrip \<notin> set xs"
    "quiet E \<longrightarrow> 0 \<le> sem_held (ws_sem st) \<longrightarrow> ws_sem st' = ws_sem st"
proof -
  obtain o' w where w: "en_sem E (ws_world st) = (o', w)" by (cases "en_sem E (ws_world st)")
  let ?t = "pa_Target pa"
  let ?st0 = "others E (st\<lparr>ws_world := w\<rparr>)"
  let ?st1 = "take_permit ?st0"
  have l0: "leaves E ?t [] st ?st0"
    using leaves_others [of E ?t "st\<lparr>ws_world := w\<rparr>"] by (simp only: leaves_world)
  have "leaves E ?t [OpTake] ?st0 ?st1" by (simp add: leaves_def)
  then have l1: "leaves E ?t [OpTake] st ?st1" using leaves_trans [OF l0] by fastforce
  have held: "ws_sem ?st1 = (ws_sem st)\<lparr>sem_held := sem_held (ws_sem st) + 1\<rparr>" if "quiet E"
    using that by (simp add: others_quiet)
  show ?thesis
  proof (cases o')
    case (Some e)
    have st': "st' = drop_reservation rsv ?st0" using assms w Some by (simp add: run_admitted_def)
    have "leaves E ?t [OpUnreserve] ?st0 st'" unfolding st' by (simp add: leaves_def)
    then show ?thesis using leaves_trans [OF l0] st'
      by (intro that [of "[OpUnreserve]" 0]) (fastforce simp: others_quiet)+
  next
    case None
    show ?thesis
    proof (cases "Lookup reg (ref_Protocol (pa_Ref pa))")
      case None
      obtain x where st': "st' = finish_action E (t_ID ?t) x rsv ?st1"
        using assms w None \<open>o' = None\<close> by (auto simp: run_admitted_def Let_def)
      obtain xs where xs: "xs \<in> {[], [OpReport (t_ID ?t)]}" "leaves E ?t (xs @ [OpGive, OpUnreserve]) ?st1 st'"
        using finish_leaves [of ?t E ?st1 x rsv] unfolding st' by blast
      have "quiet E \<longrightarrow> 0 \<le> sem_held (ws_sem st) \<longrightarrow> ws_sem st' = ws_sem st"
        using held by (simp add: st' finish_sem permit_returned del: take_permit_frame)
      then show ?thesis using leaves_trans [OF l1 xs(2)] xs(1)
        by (intro that [of "[OpTake] @ xs @ [OpGive, OpUnreserve]" 0]) auto
    next
      case (Some h)
      then obtain st2 rsv' where r: "doWithRetry E oor R d h pa 0 ?st1 = Some ((res, obs), st2)"
        and st': "st' = finish_action E (t_ID ?t) (r_Outcome res) rsv' st2"
        using assms w \<open>o' = None\<close> by (auto simp: run_admitted_def Let_def split: option.splits)
      from doWithRetry_calls [OF r] obtain k where k: "others_only E ?st1 st2" "k \<le> Suc (nat (wd_MaxRetries d))"
        "ws_calls st2 = ws_calls ?st1 @ replicate k ?t" "ws_ops st2 = ws_ops ?st1 @ replicate k (OpCall ?t)" by auto
      have l2: "leaves E ?t (replicate k (OpCall ?t)) ?st1 st2"
        using k by (simp add: leaves_def others_only_def same_shared_def)
      obtain xs where xs: "xs \<in> {[], [OpReport (t_ID ?t)]}" "leaves E ?t (xs @ [OpGive, OpUnreserve]) st2 st'"
        using finish_leaves [of ?t E st2 "r_Outcome res" rsv'] unfolding st' by blast
      have "ws_sem st2 = ws_sem ?st1" if "quiet E" using k(1) that by (simp add: others_only_def same_shared_def)
      then have "quiet E \<longrightarrow> 0 \<le> sem_held (ws_sem st) \<longrightarrow> ws_sem st' = ws_sem st"
        using held by (simp add: st' finish_sem permit_returned del: take_permit_frame)
      then show ?thesis using leaves_trans [OF l1 leaves_trans [OF l2 xs(2)]] xs(1) k(2)
        by (intro that [of "[OpTake] @ replicate k (OpCall ?t) @ xs @ [OpGive, OpUnreserve]" k]) auto
    qed
  qed
qed

text \<open>The ways an action can end.\<close>

lemma runAction_cases:
  assumes "runAction E oor R reg d pa st = Some (res, obs, stop, st')"
  obtains (skipped) "ask_breaker (t_ID (pa_Target pa)) (others E st) = (False, st')" "res = skipResult pa" "\<not> stop"
    | (refused) st1 ce w e st2 where "ask_breaker (t_ID (pa_Target pa)) (others E st) = (True, st1)"
        "admit ce (t_ID (pa_Target pa)) (others E (st1\<lparr>ws_world := w\<rparr>)) = (Inl e, st2)" "\<not> stop" "st' = st2"
    | (stopped) st1 ce w e st2 where "ask_breaker (t_ID (pa_Target pa)) (others E st) = (True, st1)"
        "admit ce (t_ID (pa_Target pa)) (others E (st1\<lparr>ws_world := w\<rparr>)) = (Inl e, st2)"
        "stop" "res = safetyResult pa"
        "st' = own OpTrip ((others E st2)\<lparr>ws_tripwire := Trip (ws_tripwire (others E st2)) ''limiter ClassSafety''\<rparr>)"
    | (went) st1 ce w rsv st2 where "ask_breaker (t_ID (pa_Target pa)) (others E st) = (True, st1)"
        "admit ce (t_ID (pa_Target pa)) (others E (st1\<lparr>ws_world := w\<rparr>)) = (Inr rsv, st2)"
        "run_admitted E oor R reg d pa rsv st2 = Some (res, obs, st')" "\<not> stop"
proof -
  obtain go st1 where b: "ask_breaker (t_ID (pa_Target pa)) (others E st) = (go, st1)"
    by (cases "ask_breaker (t_ID (pa_Target pa)) (others E st)")
  obtain ce w where c: "en_ctx E (ws_world st1) = (ce, w)" by (cases "en_ctx E (ws_world st1)")
  obtain x st2 where a: "admit ce (t_ID (pa_Target pa)) (others E (st1\<lparr>ws_world := w\<rparr>)) = (x, st2)"
    by (cases "admit ce (t_ID (pa_Target pa)) (others E (st1\<lparr>ws_world := w\<rparr>))")
  show ?thesis
  proof (cases go)
    case False
    then show ?thesis using assms b by (intro skipped) (auto simp: runAction_def)
  next
    case True
    show ?thesis
    proof (cases x)
      case (Inl e)
      show ?thesis
      proof (cases "IsClass (Some e) ClassSafety")
        case yes: True
        then show ?thesis using assms b c a True Inl
          by (intro stopped [of st1 ce w e st2]) (auto simp: runAction_def Let_def)
      next
        case False
        then show ?thesis using assms b c a True Inl
          by (intro refused [of st1 ce w e st2]) (auto simp: runAction_def)
      qed
    next
      case (Inr rsv)
      show ?thesis using assms b c a True Inr
        by (intro went [of st1 ce w rsv st2]) (auto simp: runAction_def)
    qed
  qed
qed

lemma Trip_Tripped [simp]: "Tripped (Trip t r)"
  by (simp add: Trip_def Tripped_def)

lemma Acquire_tripped:
  "Tripped t \<Longrightarrow> Acquire clk l ce (Some t) x est = (l', Inr rsv, clk') \<Longrightarrow> False"
  by (auto simp: Acquire_def split: option.splits)

lemma admit_refused:
  "admit ce i st = (Inl e, st') \<Longrightarrow> leaves E t [] st st' \<and> ws_sem st' = ws_sem st"
  by (auto simp: admit_def leaves_def split: prod.splits sum.splits)

lemma admit_granted:
  "admit ce (t_ID t) st = (Inr rsv, st') \<Longrightarrow>
     leaves E t [OpReserve (t_ID t) False] st st' \<and> ws_sem st' = ws_sem st \<and> \<not> Tripped (ws_tripwire st)"
  by (auto simp: admit_def leaves_def dest: Acquire_tripped split: prod.splits sum.splits)

text \<open>The whole action.\<close>

definition action_ok ::
  "('h, 'w) Env \<Rightarrow> workerDeps \<Rightarrow> PlannedAction \<Rightarrow> bool \<Rightarrow> own_op list \<Rightarrow> ('w, 'r) wstate \<Rightarrow> ('w, 'r) wstate \<Rightarrow> bool" where
  "action_ok E d pa stop xs st st' \<longleftrightarrow> leaves E (pa_Target pa) xs st st'
     \<and> disciplined (pa_Target pa) False False xs
     \<and> (\<exists>k \<le> Suc (nat (wd_MaxRetries d)). called xs = replicate k (pa_Target pa))
     \<and> (stop \<longleftrightarrow> OpTrip \<in> set xs) \<and> (stop \<longrightarrow> called xs = [] \<and> Tripped (ws_tripwire st'))
     \<and> (Tripped (ws_tripwire st) \<longrightarrow> called xs = [])
     \<and> (quiet E \<longrightarrow> 0 \<le> sem_held (ws_sem st) \<longrightarrow> ws_sem st' = ws_sem st)"

lemma action_effect:
  assumes "runAction E oor R reg d pa st = Some (res, obs, stop, st')"
  shows "(\<exists>xs. action_ok E d pa stop xs st st') \<and> (stop \<longrightarrow> res = safetyResult pa)"
proof -
  let ?t = "pa_Target pa"
  have start: "\<exists>xs \<in> {[], [OpAllow (t_ID ?t)]}. leaves E ?t xs st (others E (st1\<lparr>ws_world := w\<rparr>))
      \<and> (quiet E \<longrightarrow> ws_sem (others E (st1\<lparr>ws_world := w\<rparr>)) = ws_sem st)"
    if ask: "ask_breaker (t_ID ?t) (others E st) = (go, st1)" for go st1 w
  proof -
    obtain xs where xs: "xs \<in> {[], [OpAllow (t_ID ?t)]}" "leaves E ?t xs (others E st) st1"
      "ws_sem st1 = ws_sem (others E st)"
      using ask_breaker_leaves [OF ask, of E] by blast
    have "leaves E ?t xs st (st1\<lparr>ws_world := w\<rparr>)"
      using leaves_trans [OF leaves_others xs(2)] by (simp add: leaves_world)
    then have "leaves E ?t xs st (others E (st1\<lparr>ws_world := w\<rparr>))" by (rule leaves_others_after)
    moreover have "quiet E \<longrightarrow> ws_sem (others E (st1\<lparr>ws_world := w\<rparr>)) = ws_sem st"
      using xs(3) by (simp add: others_quiet)
    ultimately show ?thesis using xs(1) by blast
  qed
  from assms show ?thesis
  proof (cases rule: runAction_cases)
    case skipped
    obtain xs where xs: "xs \<in> {[], [OpAllow (t_ID ?t)]}" "leaves E ?t xs (others E st) st'"
      "ws_sem st' = ws_sem (others E st)"
      using ask_breaker_leaves [OF skipped(1), of E] by blast
    have "leaves E ?t xs st st'" using leaves_trans [OF leaves_others xs(2)] by simp
    then have "action_ok E d pa stop xs st st'"
      using xs(1,3) skipped(3) by (auto simp: action_ok_def others_quiet intro: exI [of _ 0])
    then show ?thesis using skipped(3) by blast
  next
    case (refused st1 ce w e st2)
    obtain xs where xs: "xs \<in> {[], [OpAllow (t_ID ?t)]}" "leaves E ?t xs st (others E (st1\<lparr>ws_world := w\<rparr>))"
      "quiet E \<longrightarrow> ws_sem (others E (st1\<lparr>ws_world := w\<rparr>)) = ws_sem st"
      using start [OF refused(1)] by blast
    have "leaves E ?t xs st st'" using leaves_trans [OF xs(2)] admit_refused [OF refused(2)] refused(4) by fastforce
    then have "action_ok E d pa stop xs st st'"
      using xs(1,3) refused(3,4) admit_refused [OF refused(2), of E ?t] by (auto simp: action_ok_def intro: exI [of _ 0])
    then show ?thesis using refused(3) by blast
  next
    case (stopped st1 ce w e st2)
    obtain xs where xs: "xs \<in> {[], [OpAllow (t_ID ?t)]}" "leaves E ?t xs st (others E (st1\<lparr>ws_world := w\<rparr>))"
      "quiet E \<longrightarrow> ws_sem (others E (st1\<lparr>ws_world := w\<rparr>)) = ws_sem st"
      using start [OF stopped(1)] by blast
    have "leaves E ?t xs st st2" using leaves_trans [OF xs(2)] admit_refused [OF stopped(2)] by fastforce
    then have "leaves E ?t xs st (others E st2)" by (rule leaves_others_after)
    moreover have "leaves E ?t [OpTrip] (others E st2) st'" by (simp add: stopped(5) leaves_def)
    ultimately have "leaves E ?t (xs @ [OpTrip]) st st'" by (rule leaves_trans)
    then have "action_ok E d pa stop (xs @ [OpTrip]) st st'"
      using xs(1,3) stopped(3,5) admit_refused [OF stopped(2), of E ?t]
      by (auto simp: action_ok_def others_quiet intro: exI [of _ 0])
    then show ?thesis using stopped(4) by blast
  next
    case (went st1 ce w rsv st2)
    obtain xs where xs: "xs \<in> {[], [OpAllow (t_ID ?t)]}" "leaves E ?t xs st (others E (st1\<lparr>ws_world := w\<rparr>))"
      "quiet E \<longrightarrow> ws_sem (others E (st1\<lparr>ws_world := w\<rparr>)) = ws_sem st"
      using start [OF went(1)] by blast
    note g = admit_granted [OF went(2), of E]
    obtain ys k where ys: "leaves E ?t ys st2 st'" "disciplined ?t True False ys"
      "called ys = replicate k ?t" "k \<le> Suc (nat (wd_MaxRetries d))" "OpTrip \<notin> set ys"
      "quiet E \<longrightarrow> 0 \<le> sem_held (ws_sem st2) \<longrightarrow> ws_sem st' = ws_sem st2"
      using run_admitted_leaves [OF went(3)] by blast
    have "leaves E ?t (xs @ [OpReserve (t_ID ?t) False] @ ys) st st'"
      using leaves_trans [OF xs(2) leaves_trans [OF conjunct1 [OF g] ys(1)]] .
    moreover have "\<not> Tripped (ws_tripwire st)" using g xs(2) by (auto simp: leaves_def)
    moreover have "disciplined ?t False False (xs @ [OpReserve (t_ID ?t) False] @ ys)"
      "called (xs @ [OpReserve (t_ID ?t) False] @ ys) = replicate k ?t"
      "OpTrip \<notin> set (xs @ [OpReserve (t_ID ?t) False] @ ys)"
      using xs(1) ys by auto
    moreover have "quiet E \<longrightarrow> 0 \<le> sem_held (ws_sem st) \<longrightarrow> ws_sem st' = ws_sem st"
      using ys(6) xs(3) g by simp
    ultimately have "action_ok E d pa stop (xs @ [OpReserve (t_ID ?t) False] @ ys) st st'"
      using ys(4) went(4) unfolding action_ok_def by blast
    then show ?thesis using went(4) by blast
  qed
qed

lemma action_stop_calls:
  "runAction E oor R reg d pa st = Some (res, obs, True, st') \<Longrightarrow> ws_calls st' = ws_calls st"
  using action_effect [of E oor R reg d pa st res obs True st'] by (auto simp: action_ok_def leaves_def)

lemma action_calls:
  "runAction E oor R reg d pa st = Some (res, obs, stop, st') \<Longrightarrow>
     \<exists>k \<le> Suc (nat (wd_MaxRetries d)). ws_calls st' = ws_calls st @ replicate k (pa_Target pa)"
  using action_effect [of E oor R reg d pa st res obs stop st'] by (auto simp: action_ok_def leaves_def)

lemma action_tripwire:
  "runAction E oor R reg d pa st = Some (res, obs, stop, st') \<Longrightarrow> Tripped (ws_tripwire st) \<Longrightarrow>
     Tripped (ws_tripwire st') \<and> ws_calls st' = ws_calls st"
  using action_effect [of E oor R reg d pa st res obs stop st'] by (auto simp: action_ok_def leaves_def)



section \<open>What a worker does over its life\<close>

text \<open>The state when an action is about to run: no call was made and the latch, when set, has held.\<close>

lemma runWorker_cases:
  assumes "runWorker E expf oor R In utc nxt reg d (Suc n) actions vs sel st = Some (e, sel', st', rs)"
  obtains (ended) "rs = []" "ws_calls st' = ws_calls st" "Tripped (ws_tripwire st) \<longrightarrow> Tripped (ws_tripwire st')"
    | (idle) ce step vs1 sel1 clk1 st3 where
        "sess_Next expf oor R In utc nxt ce (ws_clk st) vs sel = Some (Inr step, vs1, sel1, clk1)"
        "ws_calls st3 = ws_calls st" "Tripped (ws_tripwire st) \<longrightarrow> Tripped (ws_tripwire st3)"
        "runWorker E expf oor R In utc nxt reg d n actions vs1 sel1 st3 = Some (e, sel', st', rs)"
    | (stopped) ce step vs1 sel1 clk1 st3 pa res obs where
        "sess_Next expf oor R In utc nxt ce (ws_clk st) vs sel = Some (Inr step, vs1, sel1, clk1)"
        "ws_calls st3 = ws_calls st" "Tripped (ws_tripwire st) \<longrightarrow> Tripped (ws_tripwire st3)"
        "runAction E oor R reg d pa st3 = Some (res, obs, True, st')" "rs = []"
    | (acted) ce step vs1 sel1 clk1 st3 pa res obs st4 rs' where
        "sess_Next expf oor R In utc nxt ce (ws_clk st) vs sel = Some (Inr step, vs1, sel1, clk1)"
        "ws_calls st3 = ws_calls st" "Tripped (ws_tripwire st) \<longrightarrow> Tripped (ws_tripwire st3)"
        "st_Action step = Some pa" "actions < wd_SessionMaxActions d"
        "runAction E oor R reg d pa st3 = Some (res, obs, False, st4)"
        "runWorker E expf oor R In utc nxt reg d n (i64 (actions + 1)) (Observe vs1 res obs) sel1
           (record_result res (others E st4)) = Some (e, sel', st', rs')" "rs = res # rs'"
proof -
  obtain ce w where c: "en_ctx E (ws_world st) = (ce, w)" by (cases "en_ctx E (ws_world st)")
  obtain a vs1 sel1 clk1 where s: "sess_Next expf oor R In utc nxt ce (ws_clk st) vs sel = Some (a, vs1, sel1, clk1)"
    using assms c by (cases "sess_Next expf oor R In utc nxt ce (ws_clk st) vs sel") (auto simp: Let_def)
  let ?st1 = "st\<lparr>ws_world := w, ws_clk := clk1\<rparr>"
  show ?thesis
  proof (cases "(\<exists>e. a = Inl e) \<or> (\<exists>step. a = Inr step \<and> (st_Done step \<or> actions \<ge> wd_SessionMaxActions d))")
    case True
    then show ?thesis using assms c s by (intro ended) (auto simp: Let_def split: if_splits)
  next
    case False
    then obtain step where a: "a = Inr step" "\<not> st_Done step" "actions < wd_SessionMaxActions d"
      by (cases a) auto
    obtain og w2 where g: "en_gate E w = (og, w2)" by (cases "en_gate E w")
    obtain os st3 where z: "sleep E (st_Wait step) (?st1\<lparr>ws_world := w2\<rparr>) = (os, st3)"
      by (cases "sleep E (st_Wait step) (?st1\<lparr>ws_world := w2\<rparr>)")
    have f: "ws_calls st3 = ws_calls st" "Tripped (ws_tripwire st) \<longrightarrow> Tripped (ws_tripwire st3)"
      using sleep_frame [OF z] by (simp_all add: same_shared_def)
    consider (no) "og \<noteq> None \<or> os \<noteq> None" | (go) "og = None" "os = None" by blast
    then show ?thesis
    proof cases
      case no
      then show ?thesis using assms c s a g z f
        by (intro ended) (auto simp: Let_def split: option.splits)
    next
      case go
      show ?thesis
      proof (cases "st_Action step")
        case None
        then show ?thesis using assms c s a g z f go by (intro idle [OF s [unfolded a] f]) (auto simp: Let_def)
      next
        case (Some pa)
        obtain res obs stop st4 where r: "runAction E oor R reg d pa st3 = Some (res, obs, stop, st4)"
          using assms c s a g z go Some
          by (cases "runAction E oor R reg d pa st3") (auto simp: Let_def)
        show ?thesis
        proof (cases stop)
          case True
          then show ?thesis using assms c s a g z go Some r
            by (intro stopped [OF s [unfolded a] f]) (auto simp: Let_def)
        next
          case False
          then have r': "runAction E oor R reg d pa st3 = Some (res, obs, False, st4)" using r by simp
          let ?k = "runWorker E expf oor R In utc nxt reg d n (i64 (actions + 1)) (Observe vs1 res obs) sel1
           (record_result res (others E st4))"
          have "map_option (\<lambda>(e, s, y, rs). (e, s, y, res # rs)) ?k = Some (e, sel', st', rs)"
            using assms c s a g z go Some r' by (simp add: Let_def)
          then obtain rs' where "?k = Some (e, sel', st', rs')" "rs = res # rs'" by auto
          then show ?thesis by (rule acted [OF s [unfolded a(1)] f Some a(3) r'])
        qed
      qed
    qed
  qed
qed

context session_parts
begin

lemma next_on_target:
  assumes "sess_Next expf oor R In utc nxt ce clk s sel = Some (Inr st, s', sel', clk')" "sok sel"
  shows "on_target (pool sel) st \<and> sok sel' \<and> pool sel' = pool sel"
proof -
  have "ce = None" using assms(1) by (cases ce) (simp_all add: sess_Next_def)
  then have n: "sess_step expf oor R In utc nxt (s, sel) (fst (Now clk)) st (s', sel')"
    using assms(1) by (auto simp: sess_step_def)
  show ?thesis using user.nx_on_target [OF _ n] user.nx_ok [OF _ n] assms(2) by simp
qed

lemma worker_life:
  assumes "runWorker E expf oor R In utc nxt reg d n actions vs sel st = Some (e, sel', st', rs)"
    and "sok sel" "0 \<le> actions" "wd_SessionMaxActions d \<le> int64_max"
  shows "actions + int (length rs) \<le> max actions (wd_SessionMaxActions d)
    \<and> (\<exists>cs. ws_calls st' = ws_calls st @ cs \<and> list_all (\<lambda>t. \<exists>p. t \<in> set (pool sel p)) cs
        \<and> length cs \<le> length rs * Suc (nat (wd_MaxRetries d)))
    \<and> (Tripped (ws_tripwire st) \<longrightarrow> ws_calls st' = ws_calls st)"
  using assms
proof (induction n arbitrary: actions vs sel st rs)
  case 0
  then show ?case by auto
next
  case (Suc n)
  from Suc.prems(1) show ?case
  proof (cases rule: runWorker_cases)
    case ended
    then show ?thesis by auto
  next
    case (idle ce step vs1 sel1 clk1 st3)
    have k: "sok sel1" "pool sel1 = pool sel" using next_on_target [OF idle(1) Suc.prems(2)] by simp_all
    show ?thesis using Suc.IH [OF idle(4) k(1) Suc.prems(3,4)] idle(2,3) k(2) by simp
  next
    case (stopped ce step vs1 sel1 clk1 st3 pa res obs)
    have "ws_calls st' = ws_calls st" using action_stop_calls [OF stopped(4)] stopped(2) by simp
    then show ?thesis using stopped(5) by simp
  next
    case (acted ce step vs1 sel1 clk1 st3 pa res obs st4 rs')
    have k: "sok sel1" "pool sel1 = pool sel" "on_target (pool sel) step"
      using next_on_target [OF acted(1) Suc.prems(2)] by simp_all
    then have t: "pa_Target pa \<in> set (pool sel (ref_Protocol (pa_Ref pa)))"
      using acted(4) by (simp add: on_target_def)
    have i: "i64 (actions + 1) = actions + 1"
      using Suc.prems(3,4) acted(5) by (intro i64_small) (simp_all add: int64_max_def)
    obtain j where j: "j \<le> Suc (nat (wd_MaxRetries d))" "ws_calls st4 = ws_calls st @ replicate j (pa_Target pa)"
      using action_calls [OF acted(6)] acted(2) by auto
    let ?st5 = "record_result res (others E st4)"
    have r5: "ws_calls ?st5 = ws_calls st4" "Tripped (ws_tripwire st4) \<longrightarrow> Tripped (ws_tripwire ?st5)"
      by (simp_all add: record_result_def others_latch)
    have tr: "Tripped (ws_tripwire st) \<longrightarrow> Tripped (ws_tripwire ?st5)"
      "Tripped (ws_tripwire st) \<longrightarrow> ws_calls st4 = ws_calls st"
      using action_tripwire [OF acted(6)] acted(2,3) r5(2) by auto
    have "0 \<le> actions + 1" using Suc.prems(3) by simp
    note ih = Suc.IH [OF acted(7) [unfolded i] k(1) this Suc.prems(4)]
    then obtain cs where cs: "ws_calls st' = ws_calls st4 @ cs" "list_all (\<lambda>t. \<exists>p. t \<in> set (pool sel p)) cs"
      "length cs \<le> length rs' * Suc (nat (wd_MaxRetries d))"
      by (auto simp: k(2) r5)
    have "ws_calls st' = ws_calls st @ (replicate j (pa_Target pa) @ cs)"
      "list_all (\<lambda>t. \<exists>p. t \<in> set (pool sel p)) (replicate j (pa_Target pa) @ cs)"
      using cs(1,2) j(2) t by (auto simp: list_all_iff)
    moreover have "length (replicate j (pa_Target pa) @ cs) \<le> length rs * Suc (nat (wd_MaxRetries d))"
      using cs(3) j(1) acted(8) by simp
    moreover have "Tripped (ws_tripwire st) \<longrightarrow> ws_calls st' = ws_calls st" using ih tr r5(1) by simp
    moreover have "actions + int (length rs) \<le> max actions (wd_SessionMaxActions d)"
      using ih acted(5,8) by simp
    ultimately show ?thesis by blast
  qed
qed

end




definition ok_answer :: "(Result \<times> Observation \<times> goerr option) option" where
  "ok_answer = fst (noop_Do \<lparr>nh_Latency = 5, nh_Fail = False, nh_Panic = False\<rparr> None ''s'' (\<lambda>_. 0))"

definition demo_deps :: workerDeps where
  "demo_deps = \<lparr>wd_MaxRetries = 2, wd_BackoffBase = 1, wd_BackoffMax = 8, wd_PanicStorm = 8,
     wd_SessionMaxActions = 1\<rparr>"

definition demo_wstate :: "'r \<Rightarrow> (nat, 'r) wstate" where
  "demo_wstate r = \<lparr>ws_world = 0, ws_rand = r, ws_clk = \<lambda>_. 0, ws_limiter = sample_limiter (Fin 5),
     ws_tripwire = NewTripwire 0, ws_breakers = [''b'' \<mapsto> NewBreaker 5 30], ws_sem = newSemaphore 1,
     ws_stats = newCollector [''b''], ws_calls = [], ws_ops = []\<rparr>"

definition demo_registry :: "unit Registry" where
  "demo_registry = fst (Register (\<lambda>_. ProtoHTTP) NewRegistry (Some ()))"

lemma demo_Acquire:
  "\<exists>l rsv. Acquire (\<lambda>_. 0) (sample_limiter (Fin 5)) None (Some (NewTripwire 0)) ''b'' 0 = (l, Inr rsv, \<lambda>_. 0)"
  by (simp add: Acquire_def sample_limiter_def bucketFor_def newTokenBucket_def Now_def Since_def
        max1_def tryTake_def refill_def Let_def f_sub_def set_pt_def stored_def sample_numbers
        NewTripwire_def Tripped_def)

lemma demo_Lookup: "Lookup demo_registry ProtoHTTP = Some ()"
  by (simp add: demo_registry_def Register_def NewRegistry_def Lookup_def Let_def proto_defs)



text \<open>The latch is read at the admission and nowhere else: when another goroutine trips the run while
  an admitted action waits for its permit, the action goes on, calls the handler and reports its
  result, without the stop flag.\<close>

definition tripped_while_waiting :: "(unit, nat) Env" where
  "tripped_while_waiting = (taped (\<lambda>_. ok_answer))\<lparr>en_sem := (\<lambda>w. (None, 1)),
     en_others := (\<lambda>w s. (s, if w = 0 then [] else [''panic storm''], w))\<rparr>"

lemma trip_while_waiting_does_not_stop:
  "\<exists>res obs st'. runAction tripped_while_waiting (\<lambda>_. 0) fakeRand_ops demo_registry demo_deps
      (the (st_Action (demo_action ''b''))) (demo_wstate one_half_rand) = Some (res, obs, False, st')
    \<and> \<not> Tripped (ws_tripwire (demo_wstate one_half_rand)) \<and> Tripped (ws_tripwire st')
    \<and> ws_calls st' = [demo_target ''b'']"
proof -
  obtain l rsv where a: "Acquire (\<lambda>_. 0) (sample_limiter (Fin 5)) None (Some (NewTripwire 0)) ''b'' 0
      = (l, Inr rsv, \<lambda>_. 0)" using demo_Acquire by blast
  let ?E = tripped_while_waiting
  have e: "en_ctx ?E w = (None, w)" "en_sem ?E w = (None, 1)" "en_do ?E h pa w = (ok_answer, Suc w)"
    for w h pa by (simp_all add: tripped_while_waiting_def taped_def)
  have o0: "others ?E st = st" if "ws_world st = 0" for st :: "(nat, 'b) wstate"
  proof -
    have "(\<lambda>i. case m i of None \<Rightarrow> None | Some b \<Rightarrow> Some (case m i of None \<Rightarrow> b | Some b' \<Rightarrow> b')) = m"
      for m :: "string \<rightharpoonup> Breaker"
      by (rule ext) (simp split: option.split)
    then show ?thesis using that by (simp add: others_def tripped_while_waiting_def cong: option.case_cong)
  qed
  have o1: "Tripped (ws_tripwire (others ?E st))" "ws_world (others ?E st) = ws_world st"
    if "ws_world st \<noteq> 0" for st :: "(nat, 'b) wstate"
    using that by (simp_all add: others_def tripped_while_waiting_def Trip_def Tripped_def)
  have nt: "\<not> Tripped (NewTripwire 0)" by (simp add: NewTripwire_def Tripped_def)
  show ?thesis
    by (simp add: runAction_def ask_breaker_def admit_def demo_wstate_def demo_action_def demo_target_def Allow_def
        NewBreaker_def e a o0 o1 run_admitted_def demo_Lookup doWithRetry.simps call_handler_def ok_answer_def
        noop_Do_def Now_def Let_def finish_action_def nt)
qed



definition flaky :: "nat \<Rightarrow> (Result \<times> Observation \<times> goerr option) option" where
  "flaky k = (if k = 0 then Some (zero_Result, zero_Observation, Some (pterr_New ClassTransient ''c'' ''o'' ''m''))
              else ok_answer)"

theorem retry_is_the_reference_witness:
  "\<exists>st'. doWithRetry (taped flaky) (\<lambda>_. 0) steady demo_deps () (the (st_Action (demo_action ''b''))) 0
      (demo_wstate ()) = Some (verdict (the (st_Action (demo_action ''b''))) ok_answer, st')
    \<and> ws_world st' = Suc (Suc 0)"
proof -
  have l: "last_attempt flaky 0 2 = 1"
    by (simp add: numeral_2_eq_2 flaky_def conclusive_def worker_classify_def retryable_def ok_answer_def noop_Do_def Now_def)
  show ?thesis
    using retry_is_the_reference [of steady "(demo_wstate ())" flaky "\<lambda>_. 0" demo_deps "()"
        "the (st_Action (demo_action ''b''))"] l
    by (simp add: steady_def demo_wstate_def demo_deps_def flaky_def)
qed

theorem routing_error_is_retried_witness:
  "\<exists>st'. doWithRetry (taped (\<lambda>_. Some (zero_Result, zero_Observation, Some (RoutingError ''a'' ''http'' ''''))))
      (\<lambda>_. 0) steady demo_deps () (the (st_Action (demo_action ''b''))) 0 (demo_wstate ())
      = Some ((failedResult (the (st_Action (demo_action ''b''))) zero_Result ClassUnknown, zero_Observation), st')
    \<and> ws_world st' = 3"
  using routing_error_is_retried [of steady "(demo_wstate ())" "''a''" "''http''" "''''" "\<lambda>_. 0" demo_deps "()"
      "the (st_Action (demo_action ''b''))"]
  by (simp add: steady_def demo_wstate_def demo_deps_def)

end
