(* ===== verification/Handler.thy ===== *)
theory Handler
  imports Worker
begin

text \<open>
  What the engine hands to a protocol handler (\<open>internal/protocols/session.go\<close>, \<open>handler.go\<close>): the
  session of a virtual user with its injected dependencies, and what a handler advertises, with
  those methods of the noop handler that theory \<open>Worker\<close> does not need.

  Of a dependency that is an interface only its presence is kept here: the clock, the limiter and
  the collector are threaded where they are used. \<open>'st\<close> is the opaque \<open>SessionState\<close>.
\<close>

record 'r SessionDeps =
  dp_Clock :: bool
  dp_Rand :: 'r
  dp_Log :: bool
  dp_Stats :: bool
  dp_Caps :: Caps
  dp_Audit :: bool
  dp_CredSrc :: bool
  dp_SharedDNSCache :: bool
  dp_SharedJarGroups :: bool
  dp_Transport :: bool

record ('r, 'st) proto_session =
  pse_ID :: SessionID
  pse_Persona :: string
  pse_Targets :: TargetSet
  pse_States :: "ProtocolID \<rightharpoonup> 'st"
  pse_Deps :: "'r SessionDeps"

definition zero_Caps :: Caps where
  "zero_Caps = \<lparr>caps_MaxConcurrent = 0, caps_MaxRPS = Fin 0, caps_PerActionLimit = 0\<rparr>"

record Capability =
  cy_Proto :: ProtocolID
  cy_Actions :: "ActionKind list"
  cy_SupportsTLS :: bool
  cy_SupportsProxyChain :: bool
  cy_TransportModes :: "string list"

definition noop_Capability :: "NoopHandler \<Rightarrow> Capability" where
  "noop_Capability h = \<lparr>cy_Proto = ProtoHTTP, cy_Actions = [noopActionKind], cy_SupportsTLS = False,
     cy_SupportsProxyChain = False, cy_TransportModes = []\<rparr>"

text \<open>The nil state and no error.\<close>

definition noop_OpenState :: "NoopHandler \<Rightarrow> ('r, 'st) proto_session \<Rightarrow> 'st option \<times> goerr option" where
  "noop_OpenState h s = (None, None)"

definition noop_CloseState :: "NoopHandler \<Rightarrow> 'st option \<Rightarrow> goerr option" where
  "noop_CloseState h st = None"

text \<open>The noop handler keeps to what it advertises: a result it returns without an error is of its
  protocol and of the one action kind of its capability, for the session it was given.\<close>

lemma noop_keeps_to_its_capability:
  "fst (noop_Do h e sid clk) = Some (r, obs, None) \<Longrightarrow>
     r_Protocol r = cy_Proto (noop_Capability h) \<and> r_Protocol r = noop_ID h
     \<and> r_Action r \<in> set (cy_Actions (noop_Capability h)) \<and> r_Session r = sid"
  by (auto simp: noop_Do_def noop_Capability_def noop_ID_def split: option.splits if_splits prod.splits)

end
