(* ===== verification/Gate.thy ===== *)
theory Gate
  imports Clock Pterr
begin

text \<open>
  The two-source pause gate of the engine (\<open>internal/engine/gate.go\<close>).

  Every operation runs under the gate's mutex, so a run of the gate is a sequence of
  operations; each reads the clock at most once. \<open>closeNotify\<close> is a channel that is closed
  when the gate closes and replaced when it opens again: \<open>g_gen\<close> is the number of the current
  channel and \<open>g_closed\<close> whether it is closed. Closing a closed channel panics (None).

  A blocked \<open>wait\<close> is given what it observes each time it holds the mutex: the gate and the
  context's error. Whether a wakeup arrives is the subject of theory \<open>Semaphore\<close>, whose
  waiting loop is the same.
\<close>

section \<open>The code\<close>

datatype gateSource = gateOperator | gateSchedule

record gate =
  g_paused :: "gateSource \<Rightarrow> bool"
  g_gen :: nat
  g_closed :: bool
  g_opPausedAt :: instant
  g_opPausedTotal :: duration

definition newGate :: gate where
  "newGate = \<lparr>g_paused = \<lambda>_. False, g_gen = 0, g_closed = False, g_opPausedAt = zero_time,
     g_opPausedTotal = 0\<rparr>"

definition openLocked :: "gate \<Rightarrow> bool" where
  "openLocked g \<longleftrightarrow> list_all (\<lambda>s. \<not> g_paused g s) [gateOperator, gateSchedule]"

definition isOpen :: "gate \<Rightarrow> bool" where
  "isOpen g \<longleftrightarrow> openLocked g"

definition gate_pause :: "clock \<Rightarrow> gate \<Rightarrow> gateSource \<Rightarrow> (gate \<times> clock) option" where
  "gate_pause clk g src =
     (if g_paused g src then Some (g, clk)
      else let wasOpen = openLocked g;
               g1 = g\<lparr>g_paused := (g_paused g)(src := True)\<rparr>;
               (g2, clk2) = (if src = gateOperator
                             then (case Now clk of (now, clk1) \<Rightarrow> (g1\<lparr>g_opPausedAt := now\<rparr>, clk1))
                             else (g1, clk))
           in if wasOpen \<and> \<not> openLocked g2
              then if g_closed g2 then None else Some (g2\<lparr>g_closed := True\<rparr>, clk2)
              else Some (g2, clk2))"

definition gate_resume :: "clock \<Rightarrow> gate \<Rightarrow> gateSource \<Rightarrow> gate \<times> clock" where
  "gate_resume clk g src =
     (if \<not> g_paused g src then (g, clk)
      else let g1 = g\<lparr>g_paused := (g_paused g)(src := False)\<rparr>;
               (g2, clk2) = (if src = gateOperator \<and> g_opPausedAt g1 \<noteq> zero_time
                             then (case Since clk (g_opPausedAt g1) of (d, clk1) \<Rightarrow>
                                     (g1\<lparr>g_opPausedTotal := i64 (g_opPausedTotal g1 + d),
                                         g_opPausedAt := zero_time\<rparr>, clk1))
                             else (g1, clk))
           in (if openLocked g2 then g2\<lparr>g_gen := g_gen g2 + 1, g_closed := False\<rparr> else g2, clk2))"

definition pausedTotal :: "clock \<Rightarrow> gate \<Rightarrow> duration \<times> clock" where
  "pausedTotal clk g =
     (if g_opPausedAt g \<noteq> zero_time
      then (case Since clk (g_opPausedAt g) of (d, clk1) \<Rightarrow> (i64 (g_opPausedTotal g + d), clk1))
      else (g_opPausedTotal g, clk))"

text \<open>The waiting loops: None is still blocked, Some what the call returns.\<close>

fun gate_wait :: "(gate \<times> goerr option) list \<Rightarrow> goerr option option" where
  "gate_wait [] = None"
| "gate_wait ((g, err) # obs) =
     (if openLocked g then Some err
      else case err of Some e \<Rightarrow> Some (Some e) | None \<Rightarrow> gate_wait obs)"

fun waitOpenAndGetCloseCh :: "(gate \<times> goerr option) list \<Rightarrow> (goerr + nat) option" where
  "waitOpenAndGetCloseCh [] = None"
| "waitOpenAndGetCloseCh ((g, err) # obs) =
     (if openLocked g then (case err of Some e \<Rightarrow> Some (Inl e) | None \<Rightarrow> Some (Inr (g_gen g)))
      else case err of Some e \<Rightarrow> Some (Inl e) | None \<Rightarrow> waitOpenAndGetCloseCh obs)"

section \<open>Runs\<close>

datatype gate_op = GPause gateSource | GResume gateSource

fun gate_apply :: "gate \<Rightarrow> gate_op \<times> instant \<Rightarrow> gate option" where
  "gate_apply g (GPause s, t) = map_option fst (gate_pause (\<lambda>_. t) g s)"
| "gate_apply g (GResume s, t) = Some (fst (gate_resume (\<lambda>_. t) g s))"

fun gate_run :: "gate \<Rightarrow> (gate_op \<times> instant) list \<Rightarrow> gate option" where
  "gate_run g [] = Some g"
| "gate_run g (e # es) = (case gate_apply g e of None \<Rightarrow> None | Some g' \<Rightarrow> gate_run g' es)"

text \<open>The reference: a source is paused when its last operation was a pause; the gate reopens at
  each resume that leaves no source paused.\<close>

fun src_paused :: "gateSource \<Rightarrow> gate_op list \<Rightarrow> bool \<Rightarrow> bool" where
  "src_paused s [] p = p"
| "src_paused s (GPause s' # es) p = src_paused s es (s' = s \<or> p)"
| "src_paused s (GResume s' # es) p = src_paused s es (s' \<noteq> s \<and> p)"

definition gate_inv :: "gate \<Rightarrow> bool" where
  "gate_inv g \<longleftrightarrow> g_closed g = (\<not> openLocked g)"

lemma openLocked_iff: "openLocked g \<longleftrightarrow> \<not> g_paused g gateOperator \<and> \<not> g_paused g gateSchedule"
  by (simp add: openLocked_def)

lemma gate_apply_ok:
  assumes "gate_inv g"
  shows "\<exists>g'. gate_apply g e = Some g' \<and> gate_inv g'
     \<and> g_paused g' = (case fst e of GPause s \<Rightarrow> (g_paused g)(s := True) | GResume s \<Rightarrow> (g_paused g)(s := False))
     \<and> (openLocked g \<longrightarrow> g_gen g' = g_gen g)
     \<and> (openLocked g' \<and> \<not> openLocked g \<longrightarrow> g_gen g' = Suc (g_gen g))
     \<and> (\<not> openLocked g' \<longrightarrow> g_gen g' = g_gen g)"
proof (cases e)
  case (Pair op t)
  show ?thesis
  proof (cases op)
    case (GPause s)
    then show ?thesis using Pair assms
      by (cases s) (auto simp: gate_pause_def gate_inv_def openLocked_iff Now_def Let_def fun_upd_idem)
  next
    case (GResume s)
    then show ?thesis using Pair assms
      by (cases s) (auto simp: gate_resume_def gate_inv_def openLocked_iff Since_def Let_def fun_upd_idem)
  qed
qed

lemma gate_run_ok:
  assumes "gate_inv g"
  shows "\<exists>g'. gate_run g es = Some g' \<and> gate_inv g' \<and> g_gen g \<le> g_gen g'
     \<and> (\<forall>s. g_paused g' s = src_paused s (map fst es) (g_paused g s))"
  using assms
proof (induction es arbitrary: g)
  case Nil
  then show ?case by simp
next
  case (Cons e es)
  obtain g1 where g1: "gate_apply g e = Some g1" "gate_inv g1" "g_gen g \<le> g_gen g1"
    "g_paused g1 = (case fst e of GPause s \<Rightarrow> (g_paused g)(s := True) | GResume s \<Rightarrow> (g_paused g)(s := False))"
    using gate_apply_ok [OF Cons.prems, of e] by (metis eq_imp_le le_SucI)
  obtain g' where g': "gate_run g1 es = Some g'" "gate_inv g'" "g_gen g1 \<le> g_gen g'"
    "\<And>s. g_paused g' s = src_paused s (map fst es) (g_paused g1 s)"
    using Cons.IH [OF g1(2)] by blast
  have "src_paused s (map fst es) (g_paused g1 s) = src_paused s (map fst (e # es)) (g_paused g s)" for s
    using g1(4) by (cases "fst e") auto
  then show ?case using g1 g' by auto
qed

lemma gate_inv_new: "gate_inv newGate"
  by (simp add: gate_inv_def newGate_def openLocked_def)

text \<open>C25. No sequence of pauses and resumes of the two sources, by whichever goroutines, closes the
  notification channel twice; the gate is open exactly when no source's last operation is a
  pause, and the current channel is closed exactly while the gate is closed, so a timer waiting
  on it never misses the closing.\<close>

theorem gate_channel_tracks_gate:
  "\<exists>g. gate_run newGate es = Some g
     \<and> isOpen g = (\<not> src_paused gateOperator (map fst es) False \<and> \<not> src_paused gateSchedule (map fst es) False)
     \<and> g_closed g = (\<not> isOpen g)"
proof -
  obtain g where "gate_run newGate es = Some g" "gate_inv g"
    "\<And>s. g_paused g s = src_paused s (map fst es) False"
    using gate_run_ok [OF gate_inv_new, of es] by (auto simp: newGate_def)
  then show ?thesis by (auto simp: isOpen_def openLocked_iff gate_inv_def)
qed

section \<open>Accounting of operator pauses\<close>

text \<open>The reference: the time during which the operator flag is set, between successive events,
  up to \<open>T\<close>.\<close>

fun op_flag :: "gate_op \<Rightarrow> bool \<Rightarrow> bool" where
  "op_flag (GPause s) p = (s = gateOperator \<or> p)"
| "op_flag (GResume s) p = (s \<noteq> gateOperator \<and> p)"

fun paused_time :: "bool \<Rightarrow> instant \<Rightarrow> (gate_op \<times> instant) list \<Rightarrow> instant \<Rightarrow> int" where
  "paused_time p t0 [] T = (if p then T - t0 else 0)"
| "paused_time p t0 ((a, t) # es) T = (if p then t - t0 else 0) + paused_time (op_flag a p) t es T"

text \<open>The state of the accounts at \<open>t0\<close>, when \<open>acc\<close> was accumulated and \<open>base\<close> was the start.\<close>

definition accounts :: "instant \<Rightarrow> gate \<Rightarrow> bool \<Rightarrow> instant \<Rightarrow> int \<Rightarrow> bool" where
  "accounts base g p t0 acc \<longleftrightarrow> g_paused g gateOperator = p
     \<and> g_opPausedAt g = (if p then t0 else zero_time) \<and> g_opPausedTotal g = acc
     \<and> 0 \<le> acc \<and> acc \<le> t0 - base \<and> base \<le> t0 \<and> zero_time < base"

text \<open>Only the operator's own transitions touch the accounts.\<close>

lemma gate_apply_accounts:
  assumes "accounts base g p a acc" "gate_inv g" "a \<le> t" "t - base \<le> int64_max"
    "gate_apply g (op, t) = Some g'"
  shows "accounts base g' (op_flag op p) (if op_flag op p \<and> p then a else t)
           (if p \<and> \<not> op_flag op p then acc + (t - a) else acc)"
proof -
  have d: "time_sub t a = t - a" "i64 (acc + (t - a)) = acc + (t - a)" if "accounts base g p a acc"
    using that assms(3,4)
    by (simp_all add: accounts_def time_sub_def sat64_id i64_id in_i64_numeral int64_max_def)
  show ?thesis
  proof (cases op)
    case (GPause s)
    then show ?thesis using assms d [OF assms(1)]
      by (cases s) (auto simp: accounts_def gate_pause_def Now_def Let_def split: if_splits)
  next
    case (GResume s)
    then show ?thesis using assms d [OF assms(1)]
      by (cases s) (auto simp: accounts_def gate_resume_def Since_def Let_def split: if_splits)
  qed
qed

lemma pausedTotal_accounts:
  assumes "accounts base g p a acc" "a \<le> T" "T - base \<le> int64_max"
  shows "fst (pausedTotal (\<lambda>_. T) g) = acc + (if p then T - a else 0)"
  using assms
  by (auto simp: accounts_def pausedTotal_def Since_def time_sub_def sat64_id i64_id in_i64_numeral int64_max_def)

lemma pausedTotal_run:
  assumes "accounts base g p a acc" "gate_inv g" "a \<le> cur"
    and "sorted (cur # map snd es @ [T])" "T - base \<le> int64_max" "gate_run g es = Some g'"
  shows "fst (pausedTotal (\<lambda>_. T) g') = acc + (if p then cur - a else 0) + paused_time p cur es T"
  using assms
proof (induction es arbitrary: g p a acc cur)
  case Nil
  then show ?case using pausedTotal_accounts [OF Nil.prems(1)] by simp
next
  case (Cons e es)
  obtain op t where e: "e = (op, t)" by (cases e)
  obtain g1 where g1: "gate_apply g (op, t) = Some g1" "gate_inv g1"
    using gate_apply_ok [OF Cons.prems(2), of e] e by blast
  have t: "a \<le> t" "cur \<le> t" "t \<le> T" using Cons.prems(3,4) e by auto
  have acc: "accounts base g1 (op_flag op p) (if op_flag op p \<and> p then a else t)
      (if p \<and> \<not> op_flag op p then acc + (t - a) else acc)"
    using gate_apply_accounts [OF Cons.prems(1,2) t(1) _ g1(1)] t Cons.prems(5) by simp
  have "gate_run g1 es = Some g'" "sorted (t # map snd es @ [T])"
    using Cons.prems(4,6) e g1(1) by simp_all
  then have "fst (pausedTotal (\<lambda>_. T) g')
      = (if p \<and> \<not> op_flag op p then acc + (t - a) else acc)
        + (if op_flag op p then t - (if op_flag op p \<and> p then a else t) else 0)
        + paused_time (op_flag op p) t es T"
    by (intro Cons.IH [OF acc g1(2)]) (use t Cons.prems(5) in simp_all)
  then show ?case using e by simp
qed

text \<open>C26. For events in chronological order, the reported paused total is exactly the time during
  which the operator's pause was in force; pauses of the schedule do not contribute, repeated
  pauses and stray resumes change nothing, and a pause still in progress is included.\<close>

theorem paused_total_is_operator_pause_time:
  assumes "sorted (base # map snd es @ [T])" "zero_time < base" "T - base \<le> int64_max"
    and "gate_run newGate es = Some g"
  shows "fst (pausedTotal (\<lambda>_. T) g) = paused_time False base es T"
proof -
  have "accounts base newGate False base 0" using assms(2) by (simp add: accounts_def newGate_def)
  then show ?thesis using pausedTotal_run [OF _ gate_inv_new order_refl assms(1,3,4)] by simp
qed

theorem paused_total_is_operator_pause_time_witness:
  "\<exists>g. gate_run newGate [(GPause gateSchedule, 10), (GPause gateOperator, 20),
          (GPause gateOperator, 30), (GResume gateOperator, 50), (GResume gateSchedule, 60),
          (GPause gateOperator, 70)] = Some g
     \<and> fst (pausedTotal (\<lambda>_. 75) g) = 35"
proof -
  let ?es = "[(GPause gateSchedule, 10), (GPause gateOperator, 20), (GPause gateOperator, 30),
    (GResume gateOperator, 50), (GResume gateSchedule, 60), (GPause gateOperator, 70::int)]"
  obtain g where g: "gate_run newGate ?es = Some g"
    using gate_run_ok [OF gate_inv_new, of ?es] by (elim exE conjE)
  have "fst (pausedTotal (\<lambda>_. 75) g) = paused_time False 0 ?es 75"
    by (rule paused_total_is_operator_pause_time [OF _ _ _ g]) (simp_all add: zero_time_def int64_max_def)
  then show ?thesis using g by (intro exI [of _ g] conjI) simp_all
qed

text \<open>\<open>wait\<close> returns without error only when it saw the gate open under the mutex, and reports the
  context's error whenever it sees one.\<close>

lemma gate_wait_nil_open:
  "gate_wait obs = Some None \<Longrightarrow> \<exists>g. (g, None) \<in> set obs \<and> isOpen g"
  by (induction obs rule: gate_wait.induct) (auto simp: isOpen_def split: if_splits option.splits)

lemma gate_wait_error:
  "gate_wait obs = Some (Some e) \<Longrightarrow> \<exists>g. (g, Some e) \<in> set obs"
  by (induction obs rule: gate_wait.induct) (auto split: if_splits option.splits)

lemma waitOpen_channel:
  "waitOpenAndGetCloseCh obs = Some (Inr n) \<Longrightarrow> \<exists>g. (g, None) \<in> set obs \<and> isOpen g \<and> n = g_gen g"
  by (induction obs rule: waitOpenAndGetCloseCh.induct)
     (auto simp: isOpen_def split: if_splits option.splits)

end
