(* ===== verification/AuditLog.thy ===== *)
theory AuditLog
  imports GoStrings "HOL-Library.List_Lexorder" "HOL-Library.Char_ord"
begin

text \<open>
  The append-only audit log (\<open>internal/audit\<close>): the event check (audit.go), the canonical
  encoding and the record hash (hash.go), the file-backed hash chain (filesink.go) and the
  no-op sink (nop.go).

  Parameters: SHA-256 (\<open>sha\<close>), the JSON codec of a record (\<open>marshal\<close>, \<open>unmarshal\<close>), the
  Unicode case table and the iteration order of a Go map. The file is its bytes; what the
  operating system does to a write is an \<open>io\<close> outcome.
\<close>

section \<open>Events\<close>

definition ActionTLSVerificationSkipped :: string where
  "ActionTLSVerificationSkipped = ''tls.verification_skipped''"
definition ActionSSHHostKeyUnverified :: string where
  "ActionSSHHostKeyUnverified = ''ssh.host_key_unverified''"
definition ActionCapOverrideEnabled :: string where
  "ActionCapOverrideEnabled = ''safety.cap_override_enabled''"
definition ActionScenarioStarted :: string where
  "ActionScenarioStarted = ''scenario.started''"
definition ActionScenarioStopped :: string where
  "ActionScenarioStopped = ''scenario.stopped''"
definition ActionScenarioPatched :: string where
  "ActionScenarioPatched = ''scenario.patched''"

definition knownActions :: "string set" where
  "knownActions = {ActionTLSVerificationSkipped, ActionSSHHostKeyUnverified,
     ActionCapOverrideEnabled, ActionScenarioStarted, ActionScenarioStopped,
     ActionScenarioPatched}"

lemmas action_defs = ActionTLSVerificationSkipped_def ActionSSHHostKeyUnverified_def
  ActionCapOverrideEnabled_def ActionScenarioStarted_def ActionScenarioStopped_def
  ActionScenarioPatched_def

record Event =
  ev_Actor :: string
  ev_Action :: string
  ev_Resource :: string
  ev_Detail :: "string \<rightharpoonup> string"

record Record =
  rec_Seq :: int
  rec_Time :: instant
  rec_AgentID :: string
  rec_Actor :: string
  rec_Action :: string
  rec_Resource :: string
  rec_Detail :: "string \<rightharpoonup> string"
  rec_PrevHash :: string
  rec_Hash :: string

datatype auditErr = ErrSecretInEvent string | ErrEmptyField string | ErrChainBroken string
  | ErrOther string

definition sensitiveSubstrings :: "string list" where
  "sensitiveSubstrings = [''authorization'', ''cookie'', ''password'', ''passwd'', ''secret'',
     ''token'', ''apikey'', ''api_key'', ''credential'', ''private_key'', ''bearer '']"

definition containsSensitive :: "(string \<Rightarrow> string) \<Rightarrow> string \<Rightarrow> bool" where
  "containsSensitive uni s = (let low = ToLower uni s in list_ex (Contains low) sensitiveSubstrings)"

fun validateDetail ::
  "(string \<Rightarrow> string) \<Rightarrow> (string \<rightharpoonup> string) \<Rightarrow> string list \<Rightarrow> auditErr option" where
  "validateDetail uni d [] = None"
| "validateDetail uni d (k # ks) =
     (if containsSensitive uni k then Some (ErrSecretInEvent ''detail key'')
      else if containsSensitive uni (the (d k)) then Some (ErrSecretInEvent ''detail value'')
      else validateDetail uni d ks)"

definition ValidateEvent ::
  "(string \<Rightarrow> string) \<Rightarrow> ((string \<rightharpoonup> string) \<Rightarrow> string list) \<Rightarrow> Event \<Rightarrow> auditErr option" where
  "ValidateEvent uni order e =
     (if TrimSpace (ev_Actor e) = '''' then Some (ErrEmptyField ''actor'')
      else if TrimSpace (ev_Resource e) = '''' then Some (ErrEmptyField ''resource'')
      else if ev_Action e \<notin> knownActions then Some (ErrEmptyField (''action '' @ ev_Action e))
      else if containsSensitive uni (ev_Actor e) then Some (ErrSecretInEvent ''in actor'')
      else if containsSensitive uni (ev_Resource e) then Some (ErrSecretInEvent ''in resource'')
      else validateDetail uni (ev_Detail e) (order (ev_Detail e)))"

section \<open>The record hash\<close>

fun be_bytes :: "nat \<Rightarrow> nat \<Rightarrow> string" where
  "be_bytes 0 n = []"
| "be_bytes (Suc k) n = be_bytes k (n div 256) @ [char_of (n mod 256)]"

text \<open>\<open>binary.BigEndian.PutUint64\<close>.\<close>

definition be64 :: "int \<Rightarrow> string" where
  "be64 n = be_bytes 8 (nat (u64 n))"

definition writeField :: "string \<Rightarrow> string" where
  "writeField b = be64 (int (length b)) @ b"

definition sorted_keys :: "(string \<rightharpoonup> string) \<Rightarrow> string list" where
  "sorted_keys d = sorted_list_of_set (dom d)"

text \<open>The bytes \<open>recordHash\<close> writes to the digest, in order. \<open>UnixNano\<close> is the instant as a
  64-bit count.\<close>

definition canonical :: "Record \<Rightarrow> string" where
  "canonical r =
     writeField (be64 (rec_Seq r)) @
     writeField (be64 (i64 (rec_Time r))) @
     writeField (rec_AgentID r) @ writeField (rec_Actor r) @
     writeField (rec_Action r) @ writeField (rec_Resource r) @
     writeField (be64 (int (card (dom (rec_Detail r))))) @
     concat (map (\<lambda>k. writeField k @ writeField (the (rec_Detail r k))) (sorted_keys (rec_Detail r))) @
     writeField (rec_PrevHash r)"

definition hex_digit :: "nat \<Rightarrow> char" where
  "hex_digit n = (if n < 10 then char_of (n + 48) else char_of (n + 87))"

definition hex :: "string \<Rightarrow> string" where
  "hex s = concat (map (\<lambda>c. [hex_digit (of_char c div 16), hex_digit (of_char c mod 16)]) s)"

definition genesisHash :: "(string \<Rightarrow> string) \<Rightarrow> string" where
  "genesisHash sha = hex (sha ''phantomtraffic.audit.genesis.v1'')"

definition recordHash :: "(string \<Rightarrow> string) \<Rightarrow> Record \<Rightarrow> string" where
  "recordHash sha r = hex (sha (canonical r))"

section \<open>The file sink\<close>

definition max_token :: nat where "max_token = 1024 * 1024"

definition drop_cr :: "string \<Rightarrow> string" where
  "drop_cr l = (if l \<noteq> [] \<and> last l = CHR 0x0D then butlast l else l)"

fun replay_lines ::
  "(string \<Rightarrow> string) \<Rightarrow> (string \<Rightarrow> Record option) \<Rightarrow> int \<Rightarrow> string \<Rightarrow> string list
     \<Rightarrow> auditErr + (int \<times> string)" where
  "replay_lines sha unmarshal seq prevHash [] = Inr (seq, prevHash)"
| "replay_lines sha unmarshal seq prevHash (l # ls) =
     (if length l \<ge> max_token then Inl (ErrOther ''scanning'')
      else if drop_cr l = [] then replay_lines sha unmarshal seq prevHash ls
      else case unmarshal (drop_cr l) of
        None \<Rightarrow> Inl (ErrChainBroken ''not valid JSON'')
      | Some r \<Rightarrow>
          if rec_Seq r \<noteq> seq then Inl (ErrChainBroken ''Seq'')
          else if rec_PrevHash r \<noteq> prevHash then Inl (ErrChainBroken ''PrevHash'')
          else if recordHash sha r \<noteq> rec_Hash r then Inl (ErrChainBroken ''Hash'')
          else replay_lines sha unmarshal (u64 (seq + 1)) (rec_Hash r) ls)"

text \<open>None is a missing file.\<close>

definition replay ::
  "(string \<Rightarrow> string) \<Rightarrow> (string \<Rightarrow> Record option) \<Rightarrow> string option \<Rightarrow> auditErr + (int \<times> string)" where
  "replay sha unmarshal f =
     (case f of None \<Rightarrow> Inr (0, genesisHash sha)
      | Some content \<Rightarrow>
          replay_lines sha unmarshal 0 (genesisHash sha) (SplitByte content (CHR 0x0A)))"

record FileSink =
  sk_file :: string
  sk_agentID :: string
  sk_nextSeq :: int
  sk_tailHash :: string
  sk_closed :: bool

definition NewFileSink ::
  "(string \<Rightarrow> string) \<Rightarrow> (string \<Rightarrow> Record option) \<Rightarrow> string option \<Rightarrow> string \<Rightarrow> auditErr + FileSink" where
  "NewFileSink sha unmarshal f agentID =
     (case replay sha unmarshal f of
        Inl e \<Rightarrow> Inl e
      | Inr (nextSeq, tailHash) \<Rightarrow>
          Inr \<lparr>sk_file = (case f of None \<Rightarrow> [] | Some c \<Rightarrow> c), sk_agentID = agentID,
               sk_nextSeq = nextSeq, sk_tailHash = tailHash, sk_closed = False\<rparr>)"

datatype io = IoOk | MarshalFails | WriteFails nat | SyncFails

text \<open>The record \<open>Append\<close> builds at instant \<open>now\<close>.\<close>

definition next_record :: "(string \<Rightarrow> string) \<Rightarrow> FileSink \<Rightarrow> instant \<Rightarrow> Event \<Rightarrow> Record" where
  "next_record sha s now e =
     (let r = \<lparr>rec_Seq = sk_nextSeq s, rec_Time = now, rec_AgentID = sk_agentID s,
               rec_Actor = ev_Actor e, rec_Action = ev_Action e, rec_Resource = ev_Resource e,
               rec_Detail = ev_Detail e, rec_PrevHash = sk_tailHash s, rec_Hash = ''''\<rparr>
      in r\<lparr>rec_Hash := recordHash sha r\<rparr>)"

definition Append ::
  "(string \<Rightarrow> string) \<Rightarrow> (Record \<Rightarrow> string) \<Rightarrow> (string \<Rightarrow> string) \<Rightarrow> ((string \<rightharpoonup> string) \<Rightarrow> string list)
     \<Rightarrow> io \<Rightarrow> instant \<Rightarrow> FileSink \<Rightarrow> Event \<Rightarrow> FileSink \<times> auditErr option" where
  "Append sha marshal uni order out now s e =
     (case ValidateEvent uni order e of
        Some err \<Rightarrow> (s, Some err)
      | None \<Rightarrow>
          if sk_closed s then (s, Some (ErrOther ''append on closed sink''))
          else let r = next_record sha s now e; line = marshal r @ [CHR 0x0A] in
          (case out of
             MarshalFails \<Rightarrow> (s, Some (ErrOther ''marshal record''))
           | WriteFails n \<Rightarrow> (s\<lparr>sk_file := sk_file s @ take n line\<rparr>, Some (ErrOther ''write record''))
           | SyncFails \<Rightarrow> (s\<lparr>sk_file := sk_file s @ line\<rparr>, Some (ErrOther ''fsync''))
           | IoOk \<Rightarrow> (s\<lparr>sk_file := sk_file s @ line, sk_tailHash := rec_Hash r,
                        sk_nextSeq := u64 (sk_nextSeq s + 1)\<rparr>, None)))"

definition Verify ::
  "(string \<Rightarrow> string) \<Rightarrow> (string \<Rightarrow> Record option) \<Rightarrow> bool \<Rightarrow> FileSink \<Rightarrow> auditErr option" where
  "Verify sha unmarshal sync_ok s =
     (if \<not> sync_ok then Some (ErrOther ''fsync before verify'')
      else case replay sha unmarshal (Some (sk_file s)) of
        Inl e \<Rightarrow> Some e
      | Inr (onDiskSeq, onDiskTail) \<Rightarrow>
          if onDiskSeq \<noteq> sk_nextSeq s \<or> onDiskTail \<noteq> sk_tailHash s
          then Some (ErrChainBroken ''tail diverges'') else None)"

definition Close :: "FileSink \<Rightarrow> FileSink" where
  "Close s = (if sk_closed s then s else s\<lparr>sk_closed := True\<rparr>)"

section \<open>The no-op sink\<close>

definition nop_Append :: "unit \<Rightarrow> Event \<Rightarrow> unit \<times> auditErr option" where
  "nop_Append s e = (s, None)"

definition nop_Verify :: "unit \<Rightarrow> auditErr option" where
  "nop_Verify s = None"

definition nop_Close :: "unit \<Rightarrow> unit" where
  "nop_Close s = s"

section \<open>What the event check admits\<close>

lemma validateDetail_None:
  "validateDetail uni d ks = None \<longleftrightarrow>
     (\<forall>k \<in> set ks. \<not> containsSensitive uni k \<and> \<not> containsSensitive uni (the (d k)))"
  by (induction ks) auto

lemma ValidateEvent_kind: "ValidateEvent uni order e \<noteq> Some (ErrOther x)"
proof -
  have "validateDetail uni d ks \<noteq> Some (ErrOther x)" for d ks by (induction ks) auto
  then show ?thesis by (auto simp: ValidateEvent_def)
qed

text \<open>Nothing reaches the log but a known action on a named resource by a named actor, with no
  sensitive marker in any letter case in the actor, the resource, a detail key or a detail
  value: the check accepts exactly those events, in every iteration order of the details.\<close>

theorem event_check_is_exact:
  assumes "set (order (ev_Detail e)) = dom (ev_Detail e)"
  shows "ValidateEvent uni order e = None \<longleftrightarrow>
     TrimSpace (ev_Actor e) \<noteq> '''' \<and> TrimSpace (ev_Resource e) \<noteq> '''' \<and> ev_Action e \<in> knownActions
   \<and> \<not> containsSensitive uni (ev_Actor e) \<and> \<not> containsSensitive uni (ev_Resource e)
   \<and> (\<forall>k v. ev_Detail e k = Some v \<longrightarrow> \<not> containsSensitive uni k \<and> \<not> containsSensitive uni v)"
  using assms by (auto simp: ValidateEvent_def validateDetail_None dom_def)

theorem event_check_is_exact_witness:
  "ValidateEvent (\<lambda>s. s) (\<lambda>_. [])
     \<lparr>ev_Actor = ''cli'', ev_Action = ''scenario.started'', ev_Resource = ''run-1'',
      ev_Detail = Map.empty\<rparr> = None"
  by (subst event_check_is_exact)
     (simp_all add: knownActions_def action_defs containsSensitive_def ToLower_def ascii_def
        sensitiveSubstrings_def Contains_def HasPrefix_def lower_char_def TrimSpace_def
        TrimLeftSpace.simps TrimRightSpace.simps cut_left_def cut_right_def HasSuffix_def
        space_runes_def Let_def)

section \<open>The canonical encoding is injective\<close>

lemma length_be_bytes [simp]: "length (be_bytes k n) = k"
  by (induction k arbitrary: n) simp_all

lemma be_bytes_inj: "m < 256 ^ k \<Longrightarrow> n < 256 ^ k \<Longrightarrow> be_bytes k m = be_bytes k n \<Longrightarrow> m = n"
proof (induction k arbitrary: m n)
  case (Suc k)
  have "m div 256 < 256 ^ k" "n div 256 < 256 ^ k"
    using Suc.prems by (simp_all add: less_mult_imp_div_less mult.commute)
  moreover have "be_bytes k (m div 256) = be_bytes k (n div 256)"
    and c: "(char_of (m mod 256) :: char) = char_of (n mod 256)" using Suc.prems(3) by simp_all
  ultimately have "m div 256 = n div 256" using Suc.IH by blast
  moreover have "m mod 256 = n mod 256"
    using arg_cong [OF c, of "of_char :: char \<Rightarrow> nat"] by simp
  ultimately show ?case by (metis div_mult_mod_eq)
qed simp

lemma length_be64 [simp]: "length (be64 n) = 8"
  by (simp add: be64_def)

lemma be64_inj: "be64 m = be64 n \<Longrightarrow> u64 m = u64 n"
proof -
  assume "be64 m = be64 n"
  moreover have "nat (u64 k) < 256 ^ 8" for k
    using u64_range [of k] by (simp add: nat_less_iff)
  ultimately have "nat (u64 m) = nat (u64 n)" unfolding be64_def by (blast intro: be_bytes_inj)
  then show ?thesis using u64_range [of m] u64_range [of n] by (metis nat_eq_iff2)
qed

definition sized :: "string \<Rightarrow> bool" where
  "sized s \<longleftrightarrow> int (length s) < 2 ^ 63"

lemma be64_sized: "sized s \<Longrightarrow> sized t \<Longrightarrow> be64 (int (length s)) = be64 (int (length t)) \<Longrightarrow> length s = length t"
  using be64_inj [of "int (length s)" "int (length t)"] by (simp add: sized_def u64_small)

lemma writeField_inj:
  assumes "writeField a @ x = writeField b @ y" "sized a" "sized b"
  shows "a = b \<and> x = y"
proof -
  have "be64 (int (length a)) = be64 (int (length b))" and r: "a @ x = b @ y"
    using assms(1) by (simp_all add: writeField_def append_eq_append_conv)
  then have "length a = length b" using assms(2,3) by (intro be64_sized)
  with r show ?thesis by simp
qed

lemma fields_inj:
  assumes "concat (map (\<lambda>p. writeField (fst p) @ writeField (snd p)) ps) @ x
        = concat (map (\<lambda>p. writeField (fst p) @ writeField (snd p)) qs) @ y"
    and "length ps = length qs" and "\<forall>p \<in> set ps \<union> set qs. sized (fst p) \<and> sized (snd p)"
  shows "ps = qs \<and> x = y"
  using assms(2,1,3)
proof (induction ps qs rule: list_induct2)
  case (Cons p ps q qs)
  have s: "sized (fst p)" "sized (snd p)" "sized (fst q)" "sized (snd q)" using Cons.prems(2) by simp_all
  have "fst p = fst q \<and> writeField (snd p) @ concat (map (\<lambda>p. writeField (fst p) @ writeField (snd p)) ps) @ x
      = writeField (snd q) @ concat (map (\<lambda>p. writeField (fst p) @ writeField (snd p)) qs) @ y"
    using Cons.prems(1) s by (intro writeField_inj) simp_all
  then have 1: "fst p = fst q" and 2: "snd p = snd q \<and>
      concat (map (\<lambda>p. writeField (fst p) @ writeField (snd p)) ps) @ x
      = concat (map (\<lambda>p. writeField (fst p) @ writeField (snd p)) qs) @ y"
    using s writeField_inj [of "snd p" _ "snd q"] by blast+
  with Cons.IH Cons.prems(2) show ?case by (auto simp: prod_eq_iff)
qed simp

text \<open>What the Go types of the fields guarantee of any \<open>Record\<close> value: \<open>Seq\<close> is a \<open>uint64\<close>, and no
  string and no map is longer than an \<open>int\<close> can count. The time is not bounded.\<close>

definition record_sized :: "Record \<Rightarrow> bool" where
  "record_sized r \<longleftrightarrow> 0 \<le> rec_Seq r \<and> rec_Seq r < 2 ^ 64
     \<and> sized (rec_AgentID r) \<and> sized (rec_Actor r) \<and> sized (rec_Action r) \<and> sized (rec_Resource r)
     \<and> sized (rec_PrevHash r) \<and> finite (dom (rec_Detail r)) \<and> int (card (dom (rec_Detail r))) < 2 ^ 63
     \<and> (\<forall>k v. rec_Detail r k = Some v \<longrightarrow> sized k \<and> sized v)"

definition detail_pairs :: "(string \<rightharpoonup> string) \<Rightarrow> (string \<times> string) list" where
  "detail_pairs d = map (\<lambda>k. (k, the (d k))) (sorted_keys d)"

lemma detail_pairs_inj:
  assumes "detail_pairs d = detail_pairs d'" "finite (dom d)" "finite (dom d')"
  shows "d = d'"
proof -
  have "map fst (detail_pairs d) = sorted_keys d" for d by (simp add: detail_pairs_def comp_def)
  then have keys: "sorted_keys d = sorted_keys d'" using assms(1) by metis
  then have dom: "dom d = dom d'"
    using assms(2,3) unfolding sorted_keys_def by (metis set_sorted_list_of_set)
  have "the (d k) = the (d' k)" if "k \<in> dom d" for k
  proof -
    have "k \<in> set (sorted_keys d)" using that assms(2) by (simp add: sorted_keys_def)
    then show ?thesis using assms(1) keys by (simp add: detail_pairs_def)
  qed
  then show ?thesis using dom by (intro ext) (metis domIff option.expand)
qed

lemma canonical_pairs:
  "canonical r =
     writeField (be64 (rec_Seq r)) @ writeField (be64 (i64 (rec_Time r))) @
     writeField (rec_AgentID r) @ writeField (rec_Actor r) @
     writeField (rec_Action r) @ writeField (rec_Resource r) @
     writeField (be64 (int (card (dom (rec_Detail r))))) @
     concat (map (\<lambda>p. writeField (fst p) @ writeField (snd p)) (detail_pairs (rec_Detail r))) @
     writeField (rec_PrevHash r)"
  by (simp add: canonical_def detail_pairs_def comp_def)

lemma sized_be64 [simp]: "sized (be64 n)"
  by (simp add: sized_def)

lemma u64_i64_inj: "in_i64 a \<Longrightarrow> in_i64 b \<Longrightarrow> u64 (i64 a) = u64 (i64 b) \<Longrightarrow> a = b"
proof -
  assume a: "in_i64 a" "in_i64 b" "u64 (i64 a) = u64 (i64 b)"
  then have "a mod 2 ^ 64 = b mod 2 ^ 64" by (simp add: i64_id u64_def)
  moreover have "(n + 2 ^ 63) mod 2 ^ 64 = n + 2 ^ 63" if "in_i64 n" for n
    using that by (simp add: in_i64_def int64_min_def int64_max_def)
  ultimately show ?thesis using a(1,2) by (metis add_right_cancel mod_add_left_eq)
qed

lemma u64_i64_eq: "u64 (i64 a) = u64 (i64 b) \<Longrightarrow> i64 a = i64 b"
  using u64_i64_inj [of "i64 a" "i64 b"] by (simp add: i64_range i64_id)

lemma detail_pairs_sized:
  "record_sized r \<Longrightarrow> p \<in> set (detail_pairs (rec_Detail r)) \<Longrightarrow> sized (fst p) \<and> sized (snd p)"
  by (auto simp: record_sized_def detail_pairs_def sorted_keys_def)

lemma canonical_inj:
  assumes e: "canonical r = canonical q" and r: "record_sized r" and q: "record_sized q"
  shows "rec_Seq r = rec_Seq q \<and> i64 (rec_Time r) = i64 (rec_Time q) \<and> rec_AgentID r = rec_AgentID q
     \<and> rec_Actor r = rec_Actor q \<and> rec_Action r = rec_Action q \<and> rec_Resource r = rec_Resource q
     \<and> rec_Detail r = rec_Detail q \<and> rec_PrevHash r = rec_PrevHash q"
proof -
  note s = r [unfolded record_sized_def] q [unfolded record_sized_def]
  note st = writeField_inj
  obtain t1 t2 where "be64 (rec_Seq r) = be64 (rec_Seq q)" and 1: "t1 = t2"
    "t1 = writeField (be64 (i64 (rec_Time r))) @ writeField (rec_AgentID r) @ writeField (rec_Actor r) @
     writeField (rec_Action r) @ writeField (rec_Resource r) @
     writeField (be64 (int (card (dom (rec_Detail r))))) @
     concat (map (\<lambda>p. writeField (fst p) @ writeField (snd p)) (detail_pairs (rec_Detail r))) @
     writeField (rec_PrevHash r)"
    "t2 = writeField (be64 (i64 (rec_Time q))) @ writeField (rec_AgentID q) @ writeField (rec_Actor q) @
     writeField (rec_Action q) @ writeField (rec_Resource q) @
     writeField (be64 (int (card (dom (rec_Detail q))))) @
     concat (map (\<lambda>p. writeField (fst p) @ writeField (snd p)) (detail_pairs (rec_Detail q))) @
     writeField (rec_PrevHash q)"
    using st [OF e [unfolded canonical_pairs] sized_be64 sized_be64] by blast
  from be64_inj [OF this(1)] s have seq: "rec_Seq r = rec_Seq q" by (simp add: u64_small)
  note 2 = st [OF 1(1) [unfolded 1(2,3)] sized_be64 sized_be64]
  from be64_inj [OF conjunct1 [OF 2]] have time: "i64 (rec_Time r) = i64 (rec_Time q)" by (rule u64_i64_eq)
  have sz: "sized (rec_AgentID r)" "sized (rec_AgentID q)" "sized (rec_Actor r)" "sized (rec_Actor q)"
    "sized (rec_Action r)" "sized (rec_Action q)" "sized (rec_Resource r)" "sized (rec_Resource q)"
    "sized (rec_PrevHash r)" "sized (rec_PrevHash q)" using s by blast+
  note 3 = st [OF conjunct2 [OF 2] sz(1,2)]
  note 4 = st [OF conjunct2 [OF 3] sz(3,4)]
  note 5 = st [OF conjunct2 [OF 4] sz(5,6)]
  note 6 = st [OF conjunct2 [OF 5] sz(7,8)]
  note 7 = st [OF conjunct2 [OF 6] sized_be64 sized_be64]
  from be64_inj [OF conjunct1 [OF 7]] s have "card (dom (rec_Detail r)) = card (dom (rec_Detail q))"
    by (simp add: u64_small)
  then have "length (detail_pairs (rec_Detail r)) = length (detail_pairs (rec_Detail q))"
    by (simp add: detail_pairs_def sorted_keys_def)
  note 8 = fields_inj [OF conjunct2 [OF 7] this]
  have pairs: "detail_pairs (rec_Detail r) = detail_pairs (rec_Detail q)"
    and last: "writeField (rec_PrevHash r) = writeField (rec_PrevHash q)"
    using 8 detail_pairs_sized [OF r] detail_pairs_sized [OF q] by blast+
  have "rec_PrevHash r = rec_PrevHash q" using st [of _ "[]" _ "[]"] last sz(9,10) by simp
  moreover have "rec_Detail r = rec_Detail q" using detail_pairs_inj [OF pairs] s by blast
  ultimately show ?thesis using seq time 3 4 5 6 by blast
qed

text \<open>Two records that agree in every field, their times up to a multiple of \<open>2 ^ 64\<close> nanoseconds
  (about 584 years).\<close>

definition same_record :: "Record \<Rightarrow> Record \<Rightarrow> bool" where
  "same_record r q \<longleftrightarrow> rec_Seq r = rec_Seq q \<and> i64 (rec_Time r) = i64 (rec_Time q)
     \<and> rec_AgentID r = rec_AgentID q \<and> rec_Actor r = rec_Actor q \<and> rec_Action r = rec_Action q
     \<and> rec_Resource r = rec_Resource q \<and> rec_Detail r = rec_Detail q
     \<and> rec_PrevHash r = rec_PrevHash q \<and> rec_Hash r = rec_Hash q"

text \<open>The hash does not see such a shift of the time: \<open>UnixNano\<close> wraps, although the comment in hash.go
  says that it fully captures the instant.\<close>

lemma hash_ignores_whole_wraps:
  "recordHash sha (r\<lparr>rec_Time := rec_Time r + 2 ^ 64\<rparr>) = recordHash sha r"
  "r\<lparr>rec_Time := rec_Time r + 2 ^ 64\<rparr> \<noteq> r"
proof -
  have "i64 (t + 2 ^ 64) = i64 t" for t
    using mod_add_self2 [of "t + 2 ^ 63" "2 ^ 64 :: int"] unfolding i64_def by (simp add: algebra_simps)
  then show "recordHash sha (r\<lparr>rec_Time := rec_Time r + 2 ^ 64\<rparr>) = recordHash sha r"
    by (simp add: recordHash_def canonical_def)
  show "r\<lparr>rec_Time := rec_Time r + 2 ^ 64\<rparr> \<noteq> r"
    by (metis Record.select_convs(2) Record.surjective Record.update_convs(2) add_cancel_right_right zero_neq_numeral
        power_eq_0_iff)
qed

section \<open>The chain\<close>

lemma hex_digit_inj: "a < 16 \<Longrightarrow> b < 16 \<Longrightarrow> hex_digit a = hex_digit b \<Longrightarrow> a = b"
proof -
  assume ab: "a < 16" "b < 16" "hex_digit a = hex_digit b"
  have "(of_char (hex_digit n) :: nat) = (if n < 10 then n + 48 else n + 87)" if "n < 16" for n
    using that by (simp add: hex_digit_def)
  then have "(if a < 10 then a + 48 else a + 87) = (if b < 10 then b + 48 else b + 87)"
    using ab by metis
  then show ?thesis using ab(1,2) by (simp split: if_splits)
qed

lemma hex_inj: "hex a = hex b \<Longrightarrow> a = b"
proof (induction a arbitrary: b)
  case Nil
  then show ?case by (cases b) (simp_all add: hex_def)
next
  case (Cons c a)
  then obtain d b' where b: "b = d # b'" by (cases b) (simp_all add: hex_def)
  have lt: "(of_char x :: nat) div 16 < 16" for x :: char
    using mod_less_divisor [of 256 "of_char x :: nat"] by (simp add: less_mult_imp_div_less)
  have "hex_digit (of_char c div 16) = hex_digit (of_char d div 16)"
    "hex_digit (of_char c mod 16) = hex_digit (of_char d mod 16)" "hex a = hex b'"
    using Cons.prems b by (simp_all add: hex_def)
  then have "(of_char c :: nat) div 16 = of_char d div 16" "(of_char c :: nat) mod 16 = of_char d mod 16"
    "a = b'" using Cons.IH lt by (blast intro: hex_digit_inj mod_less_divisor [of 16] zero_less_numeral)+
  then have "(of_char c :: nat) = of_char d" by (metis div_mult_mod_eq)
  then show ?case using b \<open>a = b'\<close> by simp
qed

fun chain :: "(string \<Rightarrow> string) \<Rightarrow> int \<Rightarrow> string \<Rightarrow> Record list \<Rightarrow> bool" where
  "chain sha seq prev [] = True"
| "chain sha seq prev (r # rs) = (rec_Seq r = seq \<and> rec_PrevHash r = prev
     \<and> recordHash sha r = rec_Hash r \<and> chain sha (u64 (seq + 1)) (rec_Hash r) rs)"

definition chain_end :: "string \<Rightarrow> Record list \<Rightarrow> string" where
  "chain_end prev rs = (if rs = [] then prev else rec_Hash (last rs))"

definition seq_after :: "int \<Rightarrow> nat \<Rightarrow> int" where
  "seq_after seq n = ((\<lambda>k. u64 (k + 1)) ^^ n) seq"

fun decode :: "(string \<Rightarrow> Record option) \<Rightarrow> string list \<Rightarrow> Record list option" where
  "decode u [] = Some []"
| "decode u (l # ls) =
     (if length l \<ge> max_token then None else if drop_cr l = [] then decode u ls
      else case u (drop_cr l) of None \<Rightarrow> None | Some r \<Rightarrow> map_option ((#) r) (decode u ls))"

lemma chain_end_simps [simp]:
  "chain_end p [] = p" "chain_end p (r # rs) = chain_end (rec_Hash r) rs"
  by (simp_all add: chain_end_def)

lemma seq_after_simps [simp]:
  "seq_after s 0 = s" "seq_after s (Suc n) = seq_after (u64 (s + 1)) n"
  by (simp_all add: seq_after_def funpow_Suc_right del: funpow.simps(2))

lemma replay_lines_iff:
  "replay_lines sha u seq prev ls = Inr (n, h) \<longleftrightarrow>
     (\<exists>rs. decode u ls = Some rs \<and> chain sha seq prev rs
        \<and> n = seq_after seq (length rs) \<and> h = chain_end prev rs)"
  by (induction sha u seq prev ls rule: replay_lines.induct)
     (auto split: option.splits if_splits simp del: fun_upd_apply)

lemma chain_append:
  "chain sha s p (rs @ [r]) \<longleftrightarrow> chain sha s p rs \<and> rec_Seq r = seq_after s (length rs)
     \<and> rec_PrevHash r = chain_end p rs \<and> recordHash sha r = rec_Hash r"
  by (induction sha s p rs rule: chain.induct) auto

lemma chain_end_snoc [simp]: "chain_end p (rs @ [r]) = rec_Hash r"
  by (simp add: chain_end_def)

lemma seq_after_Suc: "seq_after s (Suc n) = u64 (seq_after s n + 1)"
  by (induction n arbitrary: s) simp_all

lemma seq_after_0: "int n < 2 ^ 64 \<Longrightarrow> seq_after 0 n = int n"
proof (induction n)
  case (Suc n)
  then show ?case unfolding seq_after_Suc by (simp add: u64_small)
qed simp

text \<open>Two chains of the same length with the same end are the same log, unless two of their
  canonical encodings collide.\<close>

lemma chain_determined:
  assumes "chain sha s p rs" "chain sha s p qs" "length rs = length qs"
    "chain_end p rs = chain_end p qs"
    "inj_on sha (canonical ` (set rs \<union> set qs))" "\<forall>r \<in> set rs \<union> set qs. record_sized r"
  shows "list_all2 same_record rs qs"
  using assms
proof (induction rs arbitrary: qs rule: rev_induct)
  case (snoc r rs)
  obtain qs' q where qs: "qs = qs' @ [q]" using snoc.prems(3) by (cases qs rule: rev_cases) auto
  have "recordHash sha r = recordHash sha q"
    using snoc.prems(1,2,4) qs by (simp add: chain_append)
  then have "sha (canonical r) = sha (canonical q)" unfolding recordHash_def by (rule hex_inj)
  then have "canonical r = canonical q"
    by (rule inj_onD [OF snoc.prems(5)]) (simp_all add: qs)
  then have f: "rec_Seq r = rec_Seq q \<and> i64 (rec_Time r) = i64 (rec_Time q) \<and> rec_AgentID r = rec_AgentID q
     \<and> rec_Actor r = rec_Actor q \<and> rec_Action r = rec_Action q \<and> rec_Resource r = rec_Resource q
     \<and> rec_Detail r = rec_Detail q \<and> rec_PrevHash r = rec_PrevHash q"
    using snoc.prems(6) qs by (intro canonical_inj) auto
  moreover have "rec_Hash r = rec_Hash q"
    using snoc.prems(4) qs by simp
  ultimately have "same_record r q" by (simp add: same_record_def)
  moreover have "list_all2 same_record rs qs'"
  proof (rule snoc.IH)
    show "chain sha s p rs" "chain sha s p qs'" "length rs = length qs'" "chain_end p rs = chain_end p qs'"
      using snoc.prems(1-3) qs f by (simp_all add: chain_append)
    show "inj_on sha (canonical ` (set rs \<union> set qs'))"
      using snoc.prems(5) by (rule inj_on_subset) (auto simp: qs)
    show "\<forall>r \<in> set rs \<union> set qs'. record_sized r" using snoc.prems(6) qs by simp
  qed
  ultimately show ?case using qs by (simp add: list_all2_appendI)
qed simp

section \<open>Executions of the sink\<close>

text \<open>A sequence of appends on a healthy disk: the sink, and the records it accepted.\<close>

fun appends ::
  "(string \<Rightarrow> string) \<Rightarrow> (Record \<Rightarrow> string) \<Rightarrow> (string \<Rightarrow> string) \<Rightarrow> ((string \<rightharpoonup> string) \<Rightarrow> string list)
     \<Rightarrow> (instant \<times> Event) list \<Rightarrow> FileSink \<Rightarrow> FileSink \<times> Record list" where
  "appends sha marshal uni order [] s = (s, [])"
| "appends sha marshal uni order ((now, e) # es) s =
     (case Append sha marshal uni order IoOk now s e of
        (s1, Some _) \<Rightarrow> appends sha marshal uni order es s1
      | (s1, None) \<Rightarrow>
          (case appends sha marshal uni order es s1 of (s2, rs) \<Rightarrow> (s2, next_record sha s now e # rs)))"

definition sink_at :: "(string \<Rightarrow> string) \<Rightarrow> FileSink \<Rightarrow> Record list \<Rightarrow> bool" where
  "sink_at sha s rs \<longleftrightarrow> chain sha 0 (genesisHash sha) rs
     \<and> sk_nextSeq s = seq_after 0 (length rs) \<and> sk_tailHash s = chain_end (genesisHash sha) rs"

lemma next_record_fields [simp]:
  "rec_Seq (next_record sha s now e) = sk_nextSeq s"
  "rec_PrevHash (next_record sha s now e) = sk_tailHash s"
  "recordHash sha (next_record sha s now e) = rec_Hash (next_record sha s now e)"
  by (simp_all add: next_record_def Let_def recordHash_def canonical_def)

lemma Append_sink_at:
  assumes "sink_at sha s rs" "Append sha marshal uni order IoOk now s e = (s', None)"
  shows "sink_at sha s' (rs @ [next_record sha s now e])
       \<and> sk_file s' = sk_file s @ marshal (next_record sha s now e) @ [CHR 0x0A]"
  using assms
  by (auto simp: Append_def sink_at_def chain_append seq_after_Suc Let_def
      simp del: seq_after_simps(2) split: option.splits if_splits)

lemma Append_err: "Append sha marshal uni order IoOk now s e = (s', Some err) \<Longrightarrow> s' = s"
  by (auto simp: Append_def Let_def split: option.splits if_splits)

definition log_file :: "(Record \<Rightarrow> string) \<Rightarrow> Record list \<Rightarrow> string" where
  "log_file marshal rs = concat (map (\<lambda>r. marshal r @ [CHR 0x0A]) rs)"

lemma appends_sink_at:
  "sink_at sha s rs \<Longrightarrow> appends sha marshal uni order es s = (s', qs) \<Longrightarrow>
     sink_at sha s' (rs @ qs) \<and> sk_file s' = sk_file s @ log_file marshal qs"
proof (induction es arbitrary: s s' rs qs)
  case Nil
  then show ?case by (auto simp: log_file_def)
next
  case (Cons p es)
  obtain now e where p: "p = (now, e)" by (cases p)
  obtain s1 r where a: "Append sha marshal uni order IoOk now s e = (s1, r)" by fastforce
  show ?case
  proof (cases r)
    case (Some err)
    then show ?thesis using Cons p a Append_err by fastforce
  next
    case None
    obtain s2 qs' where b: "appends sha marshal uni order es s1 = (s2, qs')" by fastforce
    have "sink_at sha s1 (rs @ [next_record sha s now e])"
      "sk_file s1 = sk_file s @ marshal (next_record sha s now e) @ [CHR 0x0A]"
      using Append_sink_at [OF Cons.prems(1)] a None by simp_all
    with Cons.IH [OF this(1) b] Cons.prems(2) p a b None show ?thesis by (auto simp: log_file_def)
  qed
qed

text \<open>A fresh log.\<close>

definition new_sink :: "(string \<Rightarrow> string) \<Rightarrow> string \<Rightarrow> FileSink" where
  "new_sink sha agentID = \<lparr>sk_file = [], sk_agentID = agentID, sk_nextSeq = 0,
     sk_tailHash = genesisHash sha, sk_closed = False\<rparr>"

lemma NewFileSink_missing: "NewFileSink sha u None agentID = Inr (new_sink sha agentID)"
  by (simp add: NewFileSink_def replay_def new_sink_def)

lemma new_sink_at: "sink_at sha (new_sink sha a) []"
  by (simp add: sink_at_def new_sink_def)

section \<open>Tamper evidence\<close>

lemma Verify_None_iff:
  "Verify sha u True s = None \<longleftrightarrow>
     (\<exists>rs. decode u (SplitByte (sk_file s) (CHR 0x0A)) = Some rs \<and> chain sha 0 (genesisHash sha) rs
        \<and> sk_nextSeq s = seq_after 0 (length rs) \<and> sk_tailHash s = chain_end (genesisHash sha) rs)"
  using replay_lines_iff [of sha u 0 "genesisHash sha" "SplitByte (sk_file s) (CHR 0x0A)"]
  by (auto simp: Verify_def replay_def split: sum.splits)

text \<open>C13. Tamper evidence while the writer lives, on a disk that takes every write: whatever bytes the log file has been replaced
  with, if \<open>Verify\<close> accepts them then the records in the file are, one by one, the records this sink
  appended, in order: no mutation, reordering, deletion, truncation or forged extension passes,
  unless two of the canonical encodings involved collide under SHA-256. What can pass is a record
  whose time is shifted by a multiple of \<open>2 ^ 64\<close> nanoseconds: the hash does not cover more.\<close>

theorem verify_detects_tampering:
  assumes "appends sha marshal uni order es (new_sink sha agentID) = (s, written)"
    and "Verify sha unmarshal True (s\<lparr>sk_file := bytes\<rparr>) = None"
    and "decode unmarshal (SplitByte bytes (CHR 0x0A)) = Some recs"
    and "length recs < 2 ^ 64" and "length written < 2 ^ 64"
    and "inj_on sha (canonical ` (set recs \<union> set written))"
    and "\<forall>r \<in> set recs \<union> set written. record_sized r"
  shows "list_all2 same_record recs written"
proof -
  have at: "sink_at sha s written"
    using appends_sink_at [OF new_sink_at assms(1)] by simp
  have c: "chain sha 0 (genesisHash sha) recs" "seq_after 0 (length recs) = seq_after 0 (length written)"
    "chain_end (genesisHash sha) recs = chain_end (genesisHash sha) written"
    using assms(2,3) at by (auto simp: Verify_None_iff sink_at_def)
  have "int (length recs) < 2 ^ 64" "int (length written) < 2 ^ 64" using assms(4,5) by simp_all
  then have "length recs = length written" using c(2) by (simp add: seq_after_0)
  then show ?thesis
    using chain_determined [OF c(1) _ _ c(3) assms(6,7)] at by (simp add: sink_at_def)
qed

section \<open>An honest log verifies\<close>

text \<open>The JSON codec serves a record: what \<open>encoding/json\<close> guarantees when its strings are valid UTF-8
  (one line, read back unchanged). Whether the line also fits the scanner's buffer is not up to the
  codec: \<open>Append\<close> does not look.\<close>

definition json_ok :: "(Record \<Rightarrow> string) \<Rightarrow> (string \<Rightarrow> Record option) \<Rightarrow> Record \<Rightarrow> bool" where
  "json_ok marshal unmarshal r \<longleftrightarrow> unmarshal (marshal r) = Some r \<and> marshal r \<noteq> []
     \<and> CHR 0x0A \<notin> set (marshal r) \<and> last (marshal r) \<noteq> CHR 0x0D"

definition codec_ok :: "(Record \<Rightarrow> string) \<Rightarrow> (string \<Rightarrow> Record option) \<Rightarrow> Record \<Rightarrow> bool" where
  "codec_ok marshal unmarshal r \<longleftrightarrow> json_ok marshal unmarshal r \<and> length (marshal r) < max_token"

lemma SplitByte_line: "c \<notin> set l \<Longrightarrow> SplitByte (l @ c # s) c = l # SplitByte s c"
  by (induction l) auto

lemma SplitByte_plain: "c \<notin> set l \<Longrightarrow> SplitByte l c = [l]"
  by (induction l) auto

lemma decode_log:
  "\<forall>r \<in> set rs. codec_ok marshal u r \<Longrightarrow>
     decode u (SplitByte (log_file marshal rs @ t) (CHR 0x0A)) =
       map_option ((@) rs) (decode u (SplitByte t (CHR 0x0A)))"
proof (induction rs)
  case Nil
  then show ?case by (cases "decode u (SplitByte t (CHR 0x0A))") (simp_all add: log_file_def)
next
  case (Cons r rs)
  have r: "codec_ok marshal u r" using Cons.prems by simp
  have "SplitByte (log_file marshal (r # rs) @ t) (CHR 0x0A)
      = marshal r # SplitByte (log_file marshal rs @ t) (CHR 0x0A)"
    using r SplitByte_line [of "CHR 0x0A" "marshal r" "log_file marshal rs @ t"]
    by (simp add: log_file_def codec_ok_def json_ok_def)
  moreover have "drop_cr (marshal r) = marshal r" using r by (simp add: drop_cr_def codec_ok_def json_ok_def)
  ultimately show ?case
    using Cons r by (simp add: codec_ok_def json_ok_def option.map_comp comp_def)
qed

lemma decode_honest:
  "\<forall>r \<in> set rs. codec_ok marshal u r \<Longrightarrow>
     decode u (SplitByte (log_file marshal rs) (CHR 0x0A)) = Some rs"
  using decode_log [of rs marshal u "[]"] by (simp add: max_token_def drop_cr_def)

lemma replay_honest:
  assumes "sink_at sha s rs" "sk_file s = log_file marshal rs" "\<forall>r \<in> set rs. codec_ok marshal u r"
  shows "replay sha u (Some (sk_file s)) = Inr (sk_nextSeq s, sk_tailHash s)"
  using assms decode_honest [OF assms(3)]
  by (simp add: replay_def replay_lines_iff sink_at_def)

lemma log_lines:
  "\<forall>r \<in> set rs. json_ok marshal u r \<Longrightarrow>
     SplitByte (log_file marshal rs) (CHR 0x0A) = map marshal rs @ [[]]"
proof (induction rs)
  case (Cons r rs)
  then have "SplitByte (log_file marshal (r # rs)) (CHR 0x0A)
      = marshal r # SplitByte (log_file marshal rs) (CHR 0x0A)"
    using SplitByte_line [of "CHR 0x0A" "marshal r" "log_file marshal rs"]
    by (simp add: log_file_def json_ok_def)
  then show ?case using Cons by simp
qed (simp add: log_file_def)

lemma decode_oversize: "\<exists>l \<in> set ls. max_token \<le> length l \<Longrightarrow> decode u ls = None"
  by (induction ls) (auto split: option.split)

lemma replay_oversize:
  assumes "\<forall>r \<in> set rs. json_ok marshal u r" "\<exists>r \<in> set rs. max_token \<le> length (marshal r)"
  shows "replay sha u (Some (log_file marshal rs)) \<noteq> Inr (n, h)"
proof -
  have "decode u (SplitByte (log_file marshal rs) (CHR 0x0A)) = None"
    using assms(2) by (intro decode_oversize) (auto simp: log_lines [OF assms(1)])
  then show ?thesis by (simp add: replay_def replay_lines_iff)
qed

text \<open>C27. What becomes of an honest log: after any sequence of appends to a fresh log on a disk that takes
  every write, whether refused or accepted, the records it accepted form one chain, and one of two things holds. When every
  accepted record fits a line of the scanner, below 1 MiB, \<open>Verify\<close> succeeds, and reopening the
  file recovers the sequence number and the tail hash, so the next process continues the same
  chain. When one does not, which \<open>Append\<close> accepts all the same, \<open>Verify\<close> fails and the log cannot be
  reopened. The JSON of each accepted record is one non-empty line that reads back as the record,
  which holds for valid UTF-8.\<close>

theorem honest_log_verifies_and_reopens:
  assumes "appends sha marshal uni order es (new_sink sha agentID) = (s, written)"
    and "\<forall>r \<in> set written. json_ok marshal unmarshal r"
  shows "chain sha 0 (genesisHash sha) written
       \<and> (if \<forall>r \<in> set written. length (marshal r) < 1048576
          then Verify sha unmarshal True s = None
             \<and> NewFileSink sha unmarshal (Some (sk_file s)) agent' =
                 Inr \<lparr>sk_file = sk_file s, sk_agentID = agent', sk_nextSeq = sk_nextSeq s,
                      sk_tailHash = sk_tailHash s, sk_closed = False\<rparr>
          else Verify sha unmarshal True s \<noteq> None
             \<and> (\<nexists>s'. NewFileSink sha unmarshal (Some (sk_file s)) agent' = Inr s'))"
proof -
  have at: "sink_at sha s written" and f: "sk_file s = log_file marshal written"
    using appends_sink_at [OF new_sink_at assms(1)] by (simp_all add: new_sink_def)
  have m: "max_token = 1048576" by (simp add: max_token_def)
  show ?thesis
  proof (cases "\<forall>r \<in> set written. length (marshal r) < 1048576")
    case True
    then have "\<forall>r \<in> set written. codec_ok marshal unmarshal r" using assms(2) by (simp add: codec_ok_def m)
    note r = replay_honest [OF at f this]
    show ?thesis using at r True by (simp add: Verify_def NewFileSink_def sink_at_def)
  next
    case False
    then have big: "\<exists>r \<in> set written. max_token \<le> length (marshal r)" by (auto simp: m not_less)
    then have "replay sha unmarshal (Some (sk_file s)) \<noteq> Inr x" for x
      using replay_oversize [OF assms(2)] by (cases x) (simp add: f)
    then show ?thesis using at False
      by (cases "replay sha unmarshal (Some (sk_file s))") (auto simp: Verify_def NewFileSink_def sink_at_def)
  qed
qed

text \<open>A failed fsync poisons the log: the record is in the file but the chain state did not
  advance, so the next successful append repeats its sequence number, and from then on
  \<open>Verify\<close> and every reopen report a broken chain.\<close>

theorem failed_sync_breaks_the_chain:
  assumes "appends sha marshal uni order es (new_sink sha agentID) = (s, written)"
    and "Append sha marshal uni order SyncFails t1 s e1 = (s1, Some (ErrOther ''fsync''))"
    and "Append sha marshal uni order IoOk t2 s1 e2 = (s2, None)"
    and "\<forall>r \<in> set written \<union> {next_record sha s t1 e1, next_record sha s1 t2 e2}. codec_ok marshal unmarshal r"
    and "length written + 2 < 2 ^ 64"
  shows "Verify sha unmarshal True s2 \<noteq> None
       \<and> (\<nexists>s'. NewFileSink sha unmarshal (Some (sk_file s2)) agent' = Inr s')"
proof -
  let ?r1 = "next_record sha s t1 e1" and ?r2 = "next_record sha s1 t2 e2"
  have at: "sink_at sha s written" and f: "sk_file s = log_file marshal written"
    using appends_sink_at [OF new_sink_at assms(1)] by (simp_all add: new_sink_def)
  have s1: "sk_file s1 = sk_file s @ marshal ?r1 @ [CHR 0x0A]" "sk_nextSeq s1 = sk_nextSeq s"
    using assms(2) ValidateEvent_kind [of uni order e1]
    by (auto simp: Append_def Let_def split: option.splits if_splits)
  have s2: "sk_file s2 = sk_file s1 @ marshal ?r2 @ [CHR 0x0A]"
    using assms(3) by (auto simp: Append_def Let_def split: option.splits if_splits)
  have f2: "sk_file s2 = log_file marshal (written @ [?r1, ?r2])"
    using f s1 s2 by (simp add: log_file_def)
  have dec: "decode unmarshal (SplitByte (sk_file s2) (CHR 0x0A)) = Some (written @ [?r1, ?r2])"
    unfolding f2 by (rule decode_honest) (use assms(4) in auto)
  have "\<not> chain sha 0 (genesisHash sha) (written @ [?r1, ?r2])"
  proof
    assume "chain sha 0 (genesisHash sha) (written @ [?r1, ?r2])"
    then have "chain sha 0 (genesisHash sha) ((written @ [?r1]) @ [?r2])" by simp
    then have "rec_Seq ?r2 = seq_after 0 (Suc (length written))" unfolding chain_append by simp
    moreover have "rec_Seq ?r2 = seq_after 0 (length written)" using s1(2) at by (simp add: sink_at_def)
    ultimately show False using assms(5) seq_after_0 [of "length written"] seq_after_0 [of "Suc (length written)"]
      by (simp del: seq_after_simps)
  qed
  then have "\<nexists>n h. replay sha unmarshal (Some (sk_file s2)) = Inr (n, h)"
    using dec by (simp add: replay_def replay_lines_iff)
  then show ?thesis
    by (cases "replay sha unmarshal (Some (sk_file s2))") (auto simp: Verify_def NewFileSink_def)
qed

section \<open>Witnesses\<close>

definition sample_event :: Event where
  "sample_event = \<lparr>ev_Actor = ''cli'', ev_Action = ''scenario.started'', ev_Resource = ''run'',
     ev_Detail = Map.empty\<rparr>"

lemma sample_event_ok: "ValidateEvent uni (\<lambda>_. []) sample_event = None"
  by (simp add: sample_event_def ValidateEvent_def knownActions_def action_defs containsSensitive_def
      ToLower_def ascii_def sensitiveSubstrings_def Contains_def HasPrefix_def lower_char_def
      TrimSpace_def TrimLeftSpace.simps TrimRightSpace.simps cut_left_def cut_right_def
      HasSuffix_def space_runes_def Let_def)

definition sample_record :: Record where
  "sample_record = next_record (\<lambda>s. s) (new_sink (\<lambda>s. s) ''agent'') 5 sample_event"

lemma sample_appends:
  "appends (\<lambda>s. s) (\<lambda>_. ''r'') uni (\<lambda>_. []) [(5, sample_event)] (new_sink (\<lambda>s. s) ''agent'') =
     ((new_sink (\<lambda>s. s) ''agent'')\<lparr>sk_file := ''r'' @ [CHR 0x0A],
        sk_tailHash := rec_Hash sample_record, sk_nextSeq := 1\<rparr>, [sample_record])"
  by (simp add: Append_def sample_event_ok Let_def sample_record_def u64_def)
     (simp add: new_sink_def)

lemma sample_sized: "record_sized sample_record"
  by (simp add: sample_record_def next_record_def record_sized_def new_sink_def sized_def Let_def
      sample_event_def in_i64_def int64_min_def int64_max_def genesisHash_def hex_def)

lemma sample_codec: "codec_ok (\<lambda>_. ''r'') (\<lambda>_. Some sample_record) sample_record"
  by (simp add: codec_ok_def json_ok_def max_token_def)

lemma sample_sink_at:
  "sink_at (\<lambda>s. s) (fst (appends (\<lambda>s. s) (\<lambda>_. ''r'') uni (\<lambda>_. []) [(5, sample_event)]
     (new_sink (\<lambda>s. s) ''agent''))) [sample_record]"
  using appends_sink_at [OF new_sink_at [of "\<lambda>s. s" "''agent''"] sample_appends [of uni]]
  by (simp only: sample_appends append_Nil fst_conv)

lemma sample_replay:
  "replay (\<lambda>s. s) (\<lambda>_. Some sample_record) (Some (''r'' @ [CHR 0x0A])) = Inr (1, rec_Hash sample_record)"
  using replay_honest [OF sample_sink_at [of id], where marshal = "\<lambda>_. ''r''"
      and u = "\<lambda>_. Some sample_record"] sample_codec
  by (simp only: sample_appends fst_conv) (simp add: log_file_def)

theorem verify_detects_tampering_witness:
  "decode (\<lambda>_. Some sample_record) (SplitByte (''r'' @ [CHR 0x0A]) (CHR 0x0A)) = Some [sample_record]
   \<and> list_all2 same_record [sample_record]
       (snd (appends (\<lambda>s. s) (\<lambda>_. ''r'') id (\<lambda>_. []) [(5, sample_event)] (new_sink (\<lambda>s. s) ''agent'')))"
proof -
  have d: "decode (\<lambda>_. Some sample_record) (SplitByte (''r'' @ [CHR 0x0A]) (CHR 0x0A)) = Some [sample_record]"
    by (simp add: max_token_def drop_cr_def)
  have "list_all2 same_record [sample_record] [sample_record]"
    by (rule verify_detects_tampering [OF sample_appends [of id] _ d])
      (use sample_replay sample_sized in \<open>simp_all add: Verify_def new_sink_def\<close>)
  then show ?thesis using d by (simp only: sample_appends snd_conv simp_thms)
qed

theorem honest_log_verifies_and_reopens_witness:
  "Verify (\<lambda>s. s) (\<lambda>_. Some sample_record) True
     (fst (appends (\<lambda>s. s) (\<lambda>_. ''r'') id (\<lambda>_. []) [(5, sample_event)] (new_sink (\<lambda>s. s) ''agent''))) = None"
proof -
  have j: "\<forall>r \<in> set [sample_record]. json_ok (\<lambda>_. ''r'') (\<lambda>_. Some sample_record) r"
    using sample_codec by (simp add: codec_ok_def)
  show ?thesis using honest_log_verifies_and_reopens [OF sample_appends [of id] j, THEN conjunct2]
    by (simp only: sample_appends fst_conv) simp
qed

text \<open>Two records of the poisoned log share a sequence number; their codec reads both back.\<close>

definition poisoned :: FileSink where
  "poisoned = fst (Append (\<lambda>s. s) (\<lambda>_. ''r'') id (\<lambda>_. []) SyncFails 6
     ((new_sink (\<lambda>s. s) ''agent'')) sample_event)"

lemma poisoned_eq: "poisoned = (new_sink (\<lambda>s. s) ''agent'')\<lparr>sk_file := ''r'' @ [CHR 0x0A]\<rparr>"
  by (simp add: poisoned_def Append_def sample_event_ok Let_def) (simp add: new_sink_def)

theorem failed_sync_breaks_the_chain_witness:
  "Verify (\<lambda>s. s) (\<lambda>_. Some (next_record (\<lambda>s. s) (new_sink (\<lambda>s. s) ''agent'') 6 sample_event)) True
     (fst (Append (\<lambda>s. s) (\<lambda>_. ''r'') id (\<lambda>_. []) IoOk 6 poisoned sample_event)) \<noteq> None"
proof -
  let ?s = "new_sink (\<lambda>s. s) ''agent''"
  let ?r = "next_record (\<lambda>s. s) ?s 6 sample_event"
  have a: "appends (\<lambda>s. s) (\<lambda>_. ''r'') id (\<lambda>_. []) [] ?s = (?s, [])" by simp
  have b: "Append (\<lambda>s. s) (\<lambda>_. ''r'') id (\<lambda>_. []) SyncFails 6 ?s sample_event = (poisoned, Some (ErrOther ''fsync''))"
    unfolding poisoned_eq by (simp add: Append_def sample_event_ok Let_def) (simp add: new_sink_def)
  have r: "next_record (\<lambda>s. s) poisoned 6 sample_event = ?r"
    unfolding poisoned_eq by (simp add: next_record_def new_sink_def)
  obtain s2 where c: "Append (\<lambda>s. s) (\<lambda>_. ''r'') id (\<lambda>_. []) IoOk 6 poisoned sample_event = (s2, None)"
    unfolding poisoned_eq by (simp add: Append_def sample_event_ok Let_def new_sink_def)
  from failed_sync_breaks_the_chain [OF a b c, of "\<lambda>_. Some ?r"] c show ?thesis
    by (simp add: r codec_ok_def json_ok_def max_token_def)
qed

section \<open>The sink interface\<close>

text \<open>What a component that only appends relies on: a refused event leaves the sink alone, and a
  sink that verifies goes on verifying. \<open>pre\<close> is what the environment owes for an append.\<close>

locale audit_sink =
  fixes append :: "'s \<Rightarrow> Event \<Rightarrow> 's \<times> auditErr option" and verify :: "'s \<Rightarrow> auditErr option"
    and inv :: "'s \<Rightarrow> bool" and pre :: "'s \<Rightarrow> Event \<Rightarrow> bool"
  assumes append_inv: "inv s \<Longrightarrow> pre s e \<Longrightarrow> inv (fst (append s e))"
    and append_refused: "inv s \<Longrightarrow> snd (append s e) \<noteq> None \<Longrightarrow> fst (append s e) = s"
    and verify_inv: "inv s \<Longrightarrow> verify s = None"
begin

lemma appends_inv:
  "inv s \<Longrightarrow> (\<And>s e. inv s \<Longrightarrow> e \<in> set es \<Longrightarrow> pre s e) \<Longrightarrow>
     inv (foldl (\<lambda>s e. fst (append s e)) s es)"
  by (induction es arbitrary: s) (auto intro: append_inv)

lemma appends_verify:
  "inv s \<Longrightarrow> (\<And>s e. inv s \<Longrightarrow> e \<in> set es \<Longrightarrow> pre s e) \<Longrightarrow>
     verify (foldl (\<lambda>s e. fst (append s e)) s es) = None"
  using appends_inv verify_inv by blast

end

interpretation nop: audit_sink nop_Append nop_Verify "\<lambda>_. True" "\<lambda>_ _. True"
  by unfold_locales (simp_all add: nop_Append_def nop_Verify_def)

definition honest :: "(string \<Rightarrow> string) \<Rightarrow> (Record \<Rightarrow> string) \<Rightarrow> (string \<Rightarrow> Record option) \<Rightarrow> FileSink \<Rightarrow> bool" where
  "honest sha marshal u s \<longleftrightarrow>
     (\<exists>rs. sink_at sha s rs \<and> sk_file s = log_file marshal rs \<and> (\<forall>r \<in> set rs. codec_ok marshal u r))"

interpretation sink: audit_sink "Append sha marshal uni order IoOk now" "Verify sha u True"
  "honest sha marshal u" "\<lambda>s e. codec_ok marshal u (next_record sha s now e)"
  for sha marshal uni order now u
proof unfold_locales
  fix s e
  assume "honest sha marshal u s" and pre: "codec_ok marshal u (next_record sha s now e)"
  then obtain rs where rs: "sink_at sha s rs" "sk_file s = log_file marshal rs"
    "\<forall>r \<in> set rs. codec_ok marshal u r" by (auto simp: honest_def)
  obtain s' r where a: "Append sha marshal uni order IoOk now s e = (s', r)" by fastforce
  show "honest sha marshal u (fst (Append sha marshal uni order IoOk now s e))"
  proof (cases r)
    case None
    from Append_sink_at [OF rs(1) a [unfolded None]] rs pre a show ?thesis
      by (auto simp: honest_def log_file_def intro!: exI [of _ "rs @ [next_record sha s now e]"])
  next
    case (Some err)
    then have "s' = s" using Append_err a by blast
    then show ?thesis using a rs unfolding honest_def by auto
  qed
next
  fix s e
  show "snd (Append sha marshal uni order IoOk now s e) \<noteq> None \<Longrightarrow>
      fst (Append sha marshal uni order IoOk now s e) = s"
    using Append_err [of sha marshal uni order now s e]
    by (cases "Append sha marshal uni order IoOk now s e") auto
next
  fix s assume "honest sha marshal u s"
  then show "Verify sha u True s = None"
    using replay_honest by (auto simp: honest_def Verify_def)
qed

end
