(* ===== verification/Lifecycle.thy ===== *)
theory Lifecycle
  imports Gate AuditLog
begin

text \<open>
  The lifecycle of a run: the state table (\<open>internal/engine/state.go\<close>) and the operations
  \<open>Pause\<close>, \<open>Resume\<close>, \<open>Stop\<close> and \<open>complete\<close> (\<open>run.go\<close>).

  \<open>transitionTo\<close> is one critical section. The operations are not: between their steps any
  other goroutine may run, so each is a thread of the system \<open>lc_sys\<close> with a program point per
  shared action, and an event names the thread that moves. \<open>wg.Wait\<close> passes when no tracked
  goroutine is left; the grace timer and the caller's context may end the wait of \<open>Stop\<close> at
  any time.
\<close>

section \<open>The state table\<close>

datatype State = StateIdle | StateRunning | StatePaused | StateStopping | StateStopped
  | StateCompleting | StateCompleted | StateOther "32 word"

fun State_String :: "State \<Rightarrow> string" where
  "State_String StateIdle = ''idle''"
| "State_String StateRunning = ''running''"
| "State_String StatePaused = ''paused''"
| "State_String StateStopping = ''stopping''"
| "State_String StateStopped = ''stopped''"
| "State_String StateCompleting = ''completing''"
| "State_String StateCompleted = ''completed''"
| "State_String (StateOther _) = ''unknown''"

fun legalTransitions :: "State \<Rightarrow> State list option" where
  "legalTransitions StateIdle = Some [StateRunning]"
| "legalTransitions StateRunning = Some [StatePaused, StateStopping, StateCompleting]"
| "legalTransitions StatePaused = Some [StateRunning, StateStopping]"
| "legalTransitions StateStopping = Some [StateStopped]"
| "legalTransitions StateCompleting = Some [StateCompleted]"
| "legalTransitions StateStopped = Some []"
| "legalTransitions StateCompleted = Some []"
| "legalTransitions (StateOther _) = None"

fun auditActionFor :: "State \<Rightarrow> string option" where
  "auditActionFor StateRunning = Some ActionScenarioStarted"
| "auditActionFor StateStopping = Some ActionScenarioStopped"
| "auditActionFor StateStopped = Some ActionScenarioStopped"
| "auditActionFor StateCompleted = Some ActionScenarioStopped"
| "auditActionFor _ = None"

text \<open>The fields of \<open>Run\<close> a transition touches. \<open>rn_appended\<close> are the events handed to the audit
  sink, whose verdict the code ignores.\<close>

record run_core =
  rn_id :: string
  rn_state :: State
  rn_audit :: bool
  rn_appended :: "Event list"

definition transition_event :: "string \<Rightarrow> State \<Rightarrow> State \<Rightarrow> string \<Rightarrow> Event" where
  "transition_event i from_st to_st action =
     \<lparr>ev_Actor = ''engine'', ev_Action = action, ev_Resource = i,
      ev_Detail = [''from'' \<mapsto> State_String from_st, ''to'' \<mapsto> State_String to_st]\<rparr>"

definition transitionTo :: "run_core \<Rightarrow> State \<Rightarrow> run_core \<times> goerr option" where
  "transitionTo r to_st =
     (let from_st = rn_state r
      in case legalTransitions from_st of
           None \<Rightarrow> (r, Some (OtherError (''engine: no transitions defined from state '' @ State_String from_st) []))
         | Some allowed \<Rightarrow>
             if to_st \<notin> set allowed
             then (r, Some (OtherError (''engine: illegal transition '' @ State_String from_st @ '' -> ''
                              @ State_String to_st) []))
             else let r1 = r\<lparr>rn_state := to_st\<rparr>
                  in (case auditActionFor to_st of
                        Some action \<Rightarrow>
                          if rn_audit r
                          then (r1\<lparr>rn_appended := rn_appended r @ [transition_event (rn_id r) from_st to_st action]\<rparr>, None)
                          else (r1, None)
                      | None \<Rightarrow> (r1, None)))"

definition legal :: "State \<Rightarrow> State \<Rightarrow> bool" where
  "legal s s' \<longleftrightarrow> (case legalTransitions s of None \<Rightarrow> False | Some allowed \<Rightarrow> s' \<in> set allowed)"

lemma transitionTo_ok_iff: "snd (transitionTo r s) = None \<longleftrightarrow> legal (rn_state r) s"
  by (auto simp: transitionTo_def legal_def Let_def split: option.splits)

lemma transitionTo_err: "snd (transitionTo r s) = Some e \<Longrightarrow> fst (transitionTo r s) = r"
  by (auto simp: transitionTo_def Let_def split: option.splits if_splits)

lemma transitionTo_state: "snd (transitionTo r s) = None \<Longrightarrow> rn_state (fst (transitionTo r s)) = s"
  by (auto simp: transitionTo_def Let_def split: option.splits if_splits)

lemma transitionTo_cases:
  obtains (moved) "legal (rn_state r) s" "snd (transitionTo r s) = None" "rn_state (fst (transitionTo r s)) = s"
  | (denied) e where "\<not> legal (rn_state r) s" "snd (transitionTo r s) = Some e" "fst (transitionTo r s) = r"
  using transitionTo_ok_iff transitionTo_err transitionTo_state by (metis not_Some_eq)

lemma legal_iff [simp]:
  "legal s StateRunning \<longleftrightarrow> s = StateIdle \<or> s = StatePaused"
  "legal s StatePaused \<longleftrightarrow> s = StateRunning"
  "legal s StateStopping \<longleftrightarrow> s = StateRunning \<or> s = StatePaused"
  "legal s StateStopped \<longleftrightarrow> s = StateStopping"
  "legal s StateCompleting \<longleftrightarrow> s = StateRunning"
  "legal s StateCompleted \<longleftrightarrow> s = StateCompleting"
  "\<not> legal s StateIdle" "\<not> legal s (StateOther w)"
  by (cases s; simp add: legal_def)+

lemma transitionTo_next:
  "rn_state (fst (transitionTo r s)) = (if legal (rn_state r) s then s else rn_state r)"
  by (rule transitionTo_cases [of r s]) simp_all

section \<open>The operations as threads\<close>

datatype lc_pc = PauseTrans | PauseGate | ResumeTrans | ResumeGate
  | StopTrans | StopLoad goerr | StopAwait | StopCancel | StopWait | StopFinal | StopSignal
  | CompTrans | CompCancel | CompWait | CompFinal | CompSignal
  | Returned "goerr option"

record lc_sys =
  lc_run :: run_core
  lc_gate :: gate
  lc_cancelled :: bool
  lc_done :: bool
  lc_err :: "goerr option"
  lc_workers :: nat
  lc_blocksLeft :: nat
  lc_pcs :: "lc_pc list"

definition graceErr :: goerr where
  "graceErr = pterr_New ClassPermanent ''engine.grace'' ''engine.Stop''
     ''grace deadline exceeded before all workers drained''"

definition callerErr :: "goerr \<Rightarrow> goerr" where
  "callerErr e = pterr_Wrap ClassPermanent ''engine.grace'' ''engine.Stop''
     ''stop ctx canceled before drain'' (Some e)"

definition setErr :: "goerr option \<Rightarrow> goerr \<Rightarrow> goerr option" where
  "setErr old e = (case old of None \<Rightarrow> Some e | Some x \<Rightarrow> Some x)"

definition goto :: "lc_sys \<Rightarrow> nat \<Rightarrow> lc_pc \<Rightarrow> lc_sys" where
  "goto y i p = y\<lparr>lc_pcs := (lc_pcs y)[i := p]\<rparr>"

text \<open>A transition as the next action of a thread: where it goes on success and on an error.\<close>

definition try_trans :: "lc_sys \<Rightarrow> nat \<Rightarrow> State \<Rightarrow> lc_pc \<Rightarrow> (goerr \<Rightarrow> lc_pc) \<Rightarrow> lc_sys" where
  "try_trans y i s p q =
     (case snd (transitionTo (lc_run y) s) of
        None \<Rightarrow> goto (y\<lparr>lc_run := fst (transitionTo (lc_run y) s)\<rparr>) i p
      | Some e \<Rightarrow> goto y i (q e))"

text \<open>One step of thread \<open>i\<close> at its program point, the clock reading \<open>t\<close>; None when it is blocked
  (or has returned, or panics on the gate's channel).\<close>

fun lc_move :: "instant \<Rightarrow> nat \<Rightarrow> lc_sys \<Rightarrow> lc_pc \<Rightarrow> lc_sys option" where
  "lc_move t i y PauseTrans = Some (try_trans y i StatePaused PauseGate (\<lambda>e. Returned (Some e)))"
| "lc_move t i y PauseGate =
     (case gate_pause (\<lambda>_. t) (lc_gate y) gateOperator of
        None \<Rightarrow> None | Some (g, _) \<Rightarrow> Some (goto (y\<lparr>lc_gate := g\<rparr>) i (Returned None)))"
| "lc_move t i y ResumeTrans = Some (try_trans y i StateRunning ResumeGate (\<lambda>e. Returned (Some e)))"
| "lc_move t i y ResumeGate =
     Some (goto (y\<lparr>lc_gate := fst (gate_resume (\<lambda>_. t) (lc_gate y) gateOperator)\<rparr>) i (Returned None))"
| "lc_move t i y StopTrans = Some (try_trans y i StateStopping StopCancel StopLoad)"
| "lc_move t i y (StopLoad e) =
     (if rn_state (lc_run y) \<in> {StateStopped, StateCompleted, StateCompleting}
      then Some (goto y i StopAwait) else Some (goto y i (Returned (Some e))))"
| "lc_move t i y StopAwait = (if lc_done y then Some (goto y i (Returned None)) else None)"
| "lc_move t i y StopCancel = Some (goto (y\<lparr>lc_cancelled := True\<rparr>) i StopWait)"
| "lc_move t i y StopWait = (if lc_workers y = 0 then Some (goto y i StopFinal) else None)"
| "lc_move t i y StopFinal =
     Some (goto (y\<lparr>lc_run := fst (transitionTo (lc_run y) StateStopped)\<rparr>) i StopSignal)"
| "lc_move t i y StopSignal = Some (goto (y\<lparr>lc_done := True\<rparr>) i (Returned None))"
| "lc_move t i y CompTrans = Some (try_trans y i StateCompleting CompCancel (\<lambda>_. Returned None))"
| "lc_move t i y CompCancel = Some (goto (y\<lparr>lc_cancelled := True\<rparr>) i CompWait)"
| "lc_move t i y CompWait = (if lc_workers y = 0 then Some (goto y i CompFinal) else None)"
| "lc_move t i y CompFinal =
     Some (goto (y\<lparr>lc_run := fst (transitionTo (lc_run y) StateCompleted)\<rparr>) i CompSignal)"
| "lc_move t i y CompSignal = Some (goto (y\<lparr>lc_done := True\<rparr>) i (Returned None))"
| "lc_move t i y (Returned _) = None"

datatype lc_api = Pause | Resume | Stop

fun api_entry :: "lc_api \<Rightarrow> lc_pc" where
  "api_entry Pause = PauseTrans" | "api_entry Resume = ResumeTrans" | "api_entry Stop = StopTrans"

datatype lc_event = Invoke lc_api | Move nat instant | GraceFires nat | CallerDone nat goerr
  | WorkerExits | BlockEnds

definition give_up :: "lc_sys \<Rightarrow> nat \<Rightarrow> goerr \<Rightarrow> lc_sys option" where
  "give_up y i e =
     (if i < length (lc_pcs y) \<and> lc_pcs y ! i = StopWait
      then Some (goto (y\<lparr>lc_err := setErr (lc_err y) e\<rparr>) i StopFinal) else None)"

fun lc_step :: "lc_sys \<Rightarrow> lc_event \<Rightarrow> lc_sys option" where
  "lc_step y (Invoke a) = Some (y\<lparr>lc_pcs := lc_pcs y @ [api_entry a]\<rparr>)"
| "lc_step y (Move i t) = (if i < length (lc_pcs y) then lc_move t i y (lc_pcs y ! i) else None)"
| "lc_step y (GraceFires i) = give_up y i graceErr"
| "lc_step y (CallerDone i e) = give_up y i (callerErr e)"
| "lc_step y WorkerExits =
     (if lc_workers y = 0 then None else Some (y\<lparr>lc_workers := lc_workers y - 1\<rparr>))"
| "lc_step y BlockEnds =
     (if lc_blocksLeft y = 0 then None
      else Some (y\<lparr>lc_blocksLeft := lc_blocksLeft y - 1,
                   lc_pcs := lc_pcs y @ (if lc_blocksLeft y - 1 = 0 then [CompTrans] else [])\<rparr>))"

fun lc_exec :: "lc_sys \<Rightarrow> lc_event list \<Rightarrow> lc_sys option" where
  "lc_exec y [] = Some y"
| "lc_exec y (e # es) = (case lc_step y e of None \<Rightarrow> None | Some y' \<Rightarrow> lc_exec y' es)"

text \<open>The state \<open>Start\<close> leaves: running, with \<open>n\<close> tracked goroutines and \<open>b\<close> blocks.\<close>

definition lc_start :: "string \<Rightarrow> nat \<Rightarrow> nat \<Rightarrow> lc_sys" where
  "lc_start i n b =
     \<lparr>lc_run = fst (transitionTo \<lparr>rn_id = i, rn_state = StateIdle, rn_audit = True, rn_appended = []\<rparr>
                      StateRunning),
      lc_gate = newGate, lc_cancelled = False, lc_done = False, lc_err = None,
      lc_workers = n, lc_blocksLeft = b, lc_pcs = []\<rparr>"

section \<open>The invariant\<close>

definition stop_phase :: "lc_pc \<Rightarrow> bool" where
  "stop_phase p \<longleftrightarrow> p \<in> {StopCancel, StopWait, StopFinal}"

definition comp_phase :: "lc_pc \<Rightarrow> bool" where
  "comp_phase p \<longleftrightarrow> p \<in> {CompCancel, CompWait, CompFinal}"

text \<open>Exactly one thread drives a run that is stopping or completing.\<close>

definition driver_ok :: "lc_sys \<Rightarrow> bool" where
  "driver_ok y \<longleftrightarrow>
     count_if stop_phase (lc_pcs y) = (if rn_state (lc_run y) = StateStopping then 1 else 0)
   \<and> count_if comp_phase (lc_pcs y) = (if rn_state (lc_run y) = StateCompleting then 1 else 0)"

definition drained_ok :: "lc_sys \<Rightarrow> bool" where
  "drained_ok y \<longleftrightarrow>
     (0 < count_if ((=) StopFinal) (lc_pcs y) \<or> rn_state (lc_run y) = StateStopped \<longrightarrow> lc_workers y = 0 \<or> lc_err y \<noteq> None)
   \<and> (0 < count_if ((=) CompFinal) (lc_pcs y) \<or> rn_state (lc_run y) = StateCompleted \<longrightarrow> lc_workers y = 0)"

definition done_ok :: "lc_sys \<Rightarrow> bool" where
  "done_ok y \<longleftrightarrow>
     (0 < count_if ((=) StopSignal) (lc_pcs y) \<longrightarrow> rn_state (lc_run y) = StateStopped)
   \<and> (0 < count_if ((=) CompSignal) (lc_pcs y) \<longrightarrow> rn_state (lc_run y) = StateCompleted)
   \<and> (lc_done y \<longrightarrow> rn_state (lc_run y) \<in> {StateStopped, StateCompleted})
   \<and> (lc_cancelled y \<longrightarrow> rn_state (lc_run y) \<notin> {StateRunning, StatePaused})
   \<and> rn_state (lc_run y) \<noteq> StateIdle"

lemma phase_simps [simp]:
  "stop_phase p \<longleftrightarrow> p = StopCancel \<or> p = StopWait \<or> p = StopFinal"
  "comp_phase p \<longleftrightarrow> p = CompCancel \<or> p = CompWait \<or> p = CompFinal"
  by (auto simp: stop_phase_def comp_phase_def)

lemma goto_simps [simp]:
  "lc_run (goto y i p) = lc_run y" "lc_gate (goto y i p) = lc_gate y"
  "lc_cancelled (goto y i p) = lc_cancelled y" "lc_done (goto y i p) = lc_done y"
  "lc_err (goto y i p) = lc_err y" "lc_workers (goto y i p) = lc_workers y"
  "lc_blocksLeft (goto y i p) = lc_blocksLeft y" "lc_pcs (goto y i p) = (lc_pcs y)[i := p]"
  by (simp_all add: goto_def)

lemma setErr_not_None [simp]: "setErr e x \<noteq> None"
  by (simp add: setErr_def split: option.splits)

lemma try_trans_cases:
  obtains (moved) "legal (rn_state (lc_run y)) s"
      "try_trans y i s p q = goto (y\<lparr>lc_run := fst (transitionTo (lc_run y) s)\<rparr>) i p"
      "rn_state (fst (transitionTo (lc_run y) s)) = s"
  | (denied) e where "\<not> legal (rn_state (lc_run y)) s" "try_trans y i s p q = goto y i (q e)"
  by (rule transitionTo_cases [of "lc_run y" s]) (simp_all add: try_trans_def)

lemma at_pc: "i < length xs \<Longrightarrow> xs ! i = p \<Longrightarrow> p \<in> set xs"
  by auto

lemma driver_at:
  assumes "driver_ok y" "i < length (lc_pcs y)"
  shows "stop_phase (lc_pcs y ! i) \<Longrightarrow> rn_state (lc_run y) = StateStopping"
    and "comp_phase (lc_pcs y ! i) \<Longrightarrow> rn_state (lc_run y) = StateCompleting"
  using count_if_pos [of i "lc_pcs y" stop_phase] count_if_pos [of i "lc_pcs y" comp_phase] assms
  by (auto simp: driver_ok_def simp del: phase_simps split: if_splits)

lemma driver_ok_move:
  assumes "driver_ok y" "i < length (lc_pcs y)" "lc_pcs y ! i = p" "lc_move t i y p = Some y'"
  shows "driver_ok y'"
proof -
  have s: "stop_phase p \<Longrightarrow> rn_state (lc_run y) = StateStopping"
    "comp_phase p \<Longrightarrow> rn_state (lc_run y) = StateCompleting"
    using driver_at [OF assms(1,2)] assms(3) by simp_all
  note d = driver_ok_def count_if_update transitionTo_next
  have tr: "driver_ok (try_trans y i st a b)"
    if "\<not> stop_phase p" "\<not> comp_phase p" "st \<noteq> StateStopped" "st \<noteq> StateCompleted"
      "stop_phase a = (st = StateStopping)" "comp_phase a = (st = StateCompleting)"
      "\<And>e. \<not> stop_phase (b e) \<and> \<not> comp_phase (b e)" "st \<in> {StateRunning, StatePaused, StateStopping, StateCompleting}"
    for st a b
  proof (rule try_trans_cases [of y st i a b])
    assume m: "legal (rn_state (lc_run y)) st"
      "try_trans y i st a b = goto (y\<lparr>lc_run := fst (transitionTo (lc_run y) st)\<rparr>) i a"
      "rn_state (fst (transitionTo (lc_run y) st)) = st"
    have "rn_state (lc_run y) \<noteq> StateStopping" "rn_state (lc_run y) \<noteq> StateCompleting"
      using m(1) that(8) by auto
    then show ?thesis unfolding m(2) using assms(1-3) m(3) that
      by (simp add: driver_ok_def count_if_update del: phase_simps)
  next
    fix e assume m: "try_trans y i st a b = goto y i (b e)"
    show ?thesis unfolding m using assms(1-3) that
      by (simp add: driver_ok_def count_if_update del: phase_simps)
  qed
  show ?thesis
  proof (cases p)
    case PauseTrans
    then show ?thesis using assms(4) tr [of StatePaused PauseGate "\<lambda>e. Returned (Some e)"] by auto
  next
    case ResumeTrans
    then show ?thesis using assms(4) tr [of StateRunning ResumeGate "\<lambda>e. Returned (Some e)"] by auto
  next
    case StopTrans
    then show ?thesis using assms(4) tr [of StateStopping StopCancel StopLoad] by auto
  next
    case CompTrans
    then show ?thesis using assms(4) tr [of StateCompleting CompCancel "\<lambda>_. Returned None"] by auto
  qed (use assms s in \<open>auto simp: d split: option.splits if_splits\<close>)
qed

definition lc_inv :: "lc_sys \<Rightarrow> bool" where
  "lc_inv y \<longleftrightarrow> driver_ok y \<and> drained_ok y \<and> done_ok y"

text \<open>The events that are no move of a thread leave the state alone; what they do to the threads,
  the workers and the error keeps each part.\<close>

lemma lc_inv_quiet:
  assumes "lc_inv y" "rn_state (lc_run y') = rn_state (lc_run y)" "lc_done y' = lc_done y"
    "lc_cancelled y' = lc_cancelled y" "lc_workers y' \<le> lc_workers y"
    "lc_err y \<noteq> None \<Longrightarrow> lc_err y' \<noteq> None"
    "count_if stop_phase (lc_pcs y') = count_if stop_phase (lc_pcs y)"
    "count_if comp_phase (lc_pcs y') = count_if comp_phase (lc_pcs y)"
    "\<And>p. p \<in> {CompFinal, StopSignal, CompSignal} \<Longrightarrow>
        count_if ((=) p) (lc_pcs y') = count_if ((=) p) (lc_pcs y)"
    "count_if ((=) StopFinal) (lc_pcs y') = count_if ((=) StopFinal) (lc_pcs y) \<or> lc_err y' \<noteq> None"
  shows "lc_inv y'"
proof -
  have "driver_ok y'" using assms(1-8) by (simp add: lc_inv_def driver_ok_def)
  moreover have "drained_ok y'"
    using assms(1,2,5,6,10) assms(9) [of CompFinal] unfolding lc_inv_def drained_ok_def
    by (elim disjE) auto
  moreover have "done_ok y'"
    using assms(1-4) assms(9) [of StopSignal] assms(9) [of CompSignal] unfolding lc_inv_def done_ok_def
    by simp
  ultimately show ?thesis by (simp add: lc_inv_def)
qed

lemma lc_inv_give_up: "lc_inv y \<Longrightarrow> give_up y i e = Some y' \<Longrightarrow> lc_inv y'"
proof -
  assume inv: "lc_inv y" and g: "give_up y i e = Some y'"
  have y': "i < length (lc_pcs y)" "lc_pcs y ! i = StopWait"
    "y' = goto (y\<lparr>lc_err := setErr (lc_err y) e\<rparr>) i StopFinal"
    using g by (auto simp: give_up_def split: if_splits)
  show ?thesis unfolding y'(3)
    by (rule lc_inv_quiet [OF inv]) (use y' in \<open>auto simp: count_if_update simp del: not_None_eq\<close>)
qed

lemma lc_inv_try_trans:
  assumes "lc_inv y" "i < length (lc_pcs y)" "\<not> stop_phase (lc_pcs y ! i)" "\<not> comp_phase (lc_pcs y ! i)"
    and "lc_pcs y ! i \<notin> {StopSignal, CompSignal}" and "stop_phase a = (st = StateStopping)" "comp_phase a = (st = StateCompleting)"
    and "a \<notin> {StopFinal, CompFinal, StopSignal, CompSignal}"
    and "\<And>e. \<not> stop_phase (b e) \<and> \<not> comp_phase (b e) \<and> b e \<noteq> StopSignal \<and> b e \<noteq> CompSignal"
    and "st \<in> {StateRunning, StatePaused, StateStopping, StateCompleting}"
  shows "lc_inv (try_trans y i st a b)"
proof (rule try_trans_cases [of y st i a b])
  assume m: "legal (rn_state (lc_run y)) st"
    "try_trans y i st a b = goto (y\<lparr>lc_run := fst (transitionTo (lc_run y) st)\<rparr>) i a"
    "rn_state (fst (transitionTo (lc_run y) st)) = st"
  have n: "rn_state (lc_run y) \<notin> {StateStopping, StateCompleting, StateStopped, StateCompleted}"
    using m(1) assms(10) by auto
  have inv: "driver_ok y" "drained_ok y" "done_ok y" using assms(1) by (simp_all add: lc_inv_def)
  have "driver_ok (try_trans y i st a b)"
    unfolding m(2) using inv(1) n assms(2-4,6,7) m(3)
    by (simp add: driver_ok_def count_if_update del: phase_simps)
  moreover have "drained_ok (try_trans y i st a b)"
    unfolding m(2) using inv(2) m(3) assms(2-4,8,10)
    by (auto simp: drained_ok_def count_if_update split: if_splits)
  moreover have "done_ok (try_trans y i st a b)"
    unfolding m(2) using inv(3) m(1,3) assms(2,5,8,10) n
    by (auto simp: done_ok_def count_if_update split: if_splits)
  ultimately show ?thesis by (simp add: lc_inv_def)
next
  fix e assume m: "try_trans y i st a b = goto y i (b e)"
  have "\<forall>x \<in> {StopFinal, CompFinal, StopSignal, CompSignal}. x \<noteq> b e \<and> x \<noteq> lc_pcs y ! i"
    using assms(3-5) assms(9) [of e] by auto
  then show ?thesis unfolding m
    by (intro lc_inv_quiet [OF assms(1)])
       (use assms(2-4) assms(9) [of e] in \<open>auto simp: count_if_update simp del: phase_simps\<close>)
qed

text \<open>The driver of a stopping or completing run.\<close>

lemma lc_inv_drive:
  assumes "lc_inv y" "i < length (lc_pcs y)" "lc_pcs y ! i = p" "lc_move t i y p = Some y'"
    and "p \<in> {StopCancel, StopWait, StopFinal, StopSignal, CompCancel, CompWait, CompFinal, CompSignal}"
  shows "lc_inv y'"
proof -
  have inv: "driver_ok y" "drained_ok y" "done_ok y" using assms(1) by (simp_all add: lc_inv_def)
  have s: "stop_phase p \<Longrightarrow> rn_state (lc_run y) = StateStopping"
    "comp_phase p \<Longrightarrow> rn_state (lc_run y) = StateCompleting"
    using driver_at [OF inv(1) assms(2)] assms(3) by simp_all
  have m: "0 < count_if ((=) p) (lc_pcs y)" using assms(2,3) by (simp add: count_if_pos)
  consider "p = StopCancel" | "p = StopWait" | "p = StopFinal" | "p = StopSignal"
    | "p = CompCancel" | "p = CompWait" | "p = CompFinal" | "p = CompSignal"
    using assms(5) by blast
  then have "drained_ok y' \<and> done_ok y'"
  proof cases
    case 1
    then have st: "rn_state (lc_run y) = StateStopping" using s(1) by simp
    have y': "y' = goto (y\<lparr>lc_cancelled := True\<rparr>) i StopWait" using 1 assms(4) by simp
    show ?thesis using inv(2,3) st assms(2,3) 1
      by (simp add: y' drained_ok_def done_ok_def count_if_update)
  next
    case 2
    then have st: "rn_state (lc_run y) = StateStopping" using s(1) by simp
    have y': "y' = goto y i StopFinal" "lc_workers y = 0" using 2 assms(4) by (simp_all split: if_splits)
    show ?thesis using inv(2,3) st assms(2,3) 2 y'(2)
      by (simp add: y'(1) drained_ok_def done_ok_def count_if_update)
  next
    case 3
    then have st: "rn_state (lc_run y) = StateStopping" using s(1) by simp
    have y': "y' = goto (y\<lparr>lc_run := fst (transitionTo (lc_run y) StateStopped)\<rparr>) i StopSignal"
      using 3 assms(4) by simp
    show ?thesis using inv(2,3) st assms(2,3) 3 m
      by (simp add: y' drained_ok_def done_ok_def count_if_update transitionTo_next)
  next
    case 4
    have st: "rn_state (lc_run y) = StateStopped" using inv(3) m 4 by (simp add: done_ok_def)
    have y': "y' = goto (y\<lparr>lc_done := True\<rparr>) i (Returned None)" using 4 assms(4) by simp
    show ?thesis using inv(2,3) st assms(2,3) 4
      by (simp add: y' drained_ok_def done_ok_def count_if_update)
  next
    case 5
    then have st: "rn_state (lc_run y) = StateCompleting" using s(2) by simp
    have y': "y' = goto (y\<lparr>lc_cancelled := True\<rparr>) i CompWait" using 5 assms(4) by simp
    show ?thesis using inv(2,3) st assms(2,3) 5
      by (simp add: y' drained_ok_def done_ok_def count_if_update)
  next
    case 6
    then have st: "rn_state (lc_run y) = StateCompleting" using s(2) by simp
    have y': "y' = goto y i CompFinal" "lc_workers y = 0" using 6 assms(4) by (simp_all split: if_splits)
    show ?thesis using inv(2,3) st assms(2,3) 6 y'(2)
      by (simp add: y'(1) drained_ok_def done_ok_def count_if_update)
  next
    case 7
    then have st: "rn_state (lc_run y) = StateCompleting" using s(2) by simp
    have y': "y' = goto (y\<lparr>lc_run := fst (transitionTo (lc_run y) StateCompleted)\<rparr>) i CompSignal"
      using 7 assms(4) by simp
    show ?thesis using inv(2,3) st assms(2,3) 7 m
      by (simp add: y' drained_ok_def done_ok_def count_if_update transitionTo_next)
  next
    case 8
    have st: "rn_state (lc_run y) = StateCompleted" using inv(3) m 8 by (simp add: done_ok_def)
    have y': "y' = goto (y\<lparr>lc_done := True\<rparr>) i (Returned None)" using 8 assms(4) by simp
    show ?thesis using inv(2,3) st assms(2,3) 8
      by (simp add: y' drained_ok_def done_ok_def count_if_update)
  qed
  moreover have "driver_ok y'" using driver_ok_move [OF inv(1) assms(2-4)] .
  ultimately show ?thesis by (simp add: lc_inv_def)
qed

lemma lc_inv_move:
  assumes "lc_inv y" "i < length (lc_pcs y)" "lc_move t i y (lc_pcs y ! i) = Some y'"
  shows "lc_inv y'"
proof (cases "lc_pcs y ! i")
  case PauseTrans
  then show ?thesis
    using assms(3) lc_inv_try_trans [OF assms(1,2), of PauseGate StatePaused "\<lambda>e. Returned (Some e)"] by auto
next
  case ResumeTrans
  then show ?thesis
    using assms(3) lc_inv_try_trans [OF assms(1,2), of ResumeGate StateRunning "\<lambda>e. Returned (Some e)"] by auto
next
  case StopTrans
  then show ?thesis
    using assms(3) lc_inv_try_trans [OF assms(1,2), of StopCancel StateStopping StopLoad] by auto
next
  case CompTrans
  then show ?thesis
    using assms(3) lc_inv_try_trans [OF assms(1,2), of CompCancel StateCompleting "\<lambda>_. Returned None"] by auto
next
  case PauseGate
  then show ?thesis using assms
    by (intro lc_inv_quiet [OF assms(1), of y'])
       (auto simp: count_if_update split: option.splits)
next
  case ResumeGate
  then show ?thesis using assms
    by (intro lc_inv_quiet [OF assms(1), of y']) (auto simp: count_if_update)
next
  case (StopLoad e)
  then show ?thesis using assms
    by (intro lc_inv_quiet [OF assms(1), of y'])
       (auto simp: count_if_update split: if_splits)
next
  case StopAwait
  then show ?thesis using assms
    by (intro lc_inv_quiet [OF assms(1), of y'])
       (auto simp: count_if_update split: if_splits)
qed (use assms lc_inv_drive [OF assms(1,2) refl assms(3)] in simp_all)

lemma lc_inv_step: "lc_inv y \<Longrightarrow> lc_step y e = Some y' \<Longrightarrow> lc_inv y'"
proof (cases e)
  case (Invoke a)
  assume "lc_inv y" "lc_step y e = Some y'"
  then show ?thesis using Invoke
    by (cases a; intro lc_inv_quiet [of y y']; auto)
next
  case (Move i t)
  assume "lc_inv y" "lc_step y e = Some y'"
  then show ?thesis using Move by (auto split: if_splits intro: lc_inv_move)
next
  case WorkerExits
  assume "lc_inv y" "lc_step y e = Some y'"
  then show ?thesis using WorkerExits by (intro lc_inv_quiet [of y y']) (auto split: if_splits)
next
  case BlockEnds
  assume "lc_inv y" "lc_step y e = Some y'"
  then show ?thesis using BlockEnds by (intro lc_inv_quiet [of y y']) (auto split: if_splits)
qed (auto intro: lc_inv_give_up)

lemma lc_inv_start: "lc_inv (lc_start i n b)"
  by (simp add: lc_inv_def driver_ok_def drained_ok_def done_ok_def lc_start_def transitionTo_next)

lemma lc_inv_exec: "lc_inv y \<Longrightarrow> lc_exec y es = Some y' \<Longrightarrow> lc_inv y'"
  by (induction es arbitrary: y) (auto split: option.splits intro: lc_inv_step)

section \<open>What a run guarantees\<close>

text \<open>C2. A run reports that it is done only in a terminal state; a completed run has no tracked
  goroutine left, and a stopped run has none left unless it carries the error of a stop that gave
  up waiting; the run's context is cancelled only once the run has left Running and Paused.\<close>

theorem done_means_drained:
  assumes "lc_exec (lc_start i n b) es = Some y"
  shows "(lc_done y \<longrightarrow> rn_state (lc_run y) = StateStopped \<or> rn_state (lc_run y) = StateCompleted)
    \<and> (rn_state (lc_run y) = StateCompleted \<longrightarrow> lc_workers y = 0)
    \<and> (rn_state (lc_run y) = StateStopped \<and> lc_err y = None \<longrightarrow> lc_workers y = 0)
    \<and> (lc_cancelled y \<longrightarrow> rn_state (lc_run y) \<noteq> StateRunning \<and> rn_state (lc_run y) \<noteq> StatePaused)"
  using lc_inv_exec [OF lc_inv_start assms]
  by (auto simp: lc_inv_def drained_ok_def done_ok_def)

lemmas run_lc = lc_start_def transitionTo_def transition_event_def try_trans_def goto_def give_up_def
  gate_pause_def gate_resume_def newGate_def openLocked_def Now_def Since_def Let_def
  setErr_def eval_nat_numeral

theorem done_means_drained_witness:
  "\<exists>y. lc_exec (lc_start ''r'' 1 1) [Invoke Stop, Move 0 0, Move 0 0, GraceFires 0, Move 0 0, Move 0 0] = Some y
     \<and> lc_done y \<and> rn_state (lc_run y) = StateStopped \<and> lc_workers y = 1 \<and> lc_err y = Some graceErr"
proof -
  let ?es = "[Invoke Stop, Move 0 0, Move 0 0, GraceFires 0, Move 0 0, Move 0 0]"
  define y where "y = the (lc_exec (lc_start ''r'' 1 1) ?es)"
  have r: "lc_exec (lc_start ''r'' 1 1) ?es = Some y" unfolding y_def by (simp add: run_lc)
  have "lc_workers y = 1" "lc_err y = Some graceErr" "lc_done y" unfolding y_def by (simp_all add: run_lc)
  moreover have "rn_state (lc_run y) \<noteq> StateCompleted"
    using done_means_drained [OF r] \<open>lc_workers y = 1\<close> by auto
  ultimately show ?thesis using r done_means_drained [OF r] by blast
qed

text \<open>The audit events of a path of states.\<close>

fun trail :: "string \<Rightarrow> State \<Rightarrow> State list \<Rightarrow> Event list" where
  "trail i s [] = []"
| "trail i s (s' # ps) =
     (case auditActionFor s' of None \<Rightarrow> [] | Some a \<Rightarrow> [transition_event i s s' a]) @ trail i s' ps"

fun legal_path :: "State \<Rightarrow> State list \<Rightarrow> bool" where
  "legal_path s [] = True"
| "legal_path s (s' # ps) = (legal s s' \<and> legal_path s' ps)"

lemma legal_path_append: "legal_path s (ps @ qs) \<longleftrightarrow> legal_path s ps \<and> legal_path (last (s # ps)) qs"
  by (induction s ps rule: legal_path.induct) auto

lemma trail_append: "trail i s (ps @ qs) = trail i s ps @ trail i (last (s # ps)) qs"
  by (induction i s ps rule: trail.induct) auto

lemma try_trans_run:
  "lc_run (try_trans y i s p q) = lc_run y
   \<or> legal (rn_state (lc_run y)) s \<and> lc_run (try_trans y i s p q) = fst (transitionTo (lc_run y) s)"
  by (rule try_trans_cases [of y s i p q]) simp_all

lemma trans_run:
  "fst (transitionTo r s) = r \<or> legal (rn_state r) s"
  by (rule transitionTo_cases [of r s]) simp_all

lemma lc_move_run:
  assumes "lc_move t i y p = Some y'"
  shows "lc_run y' = lc_run y
     \<or> (\<exists>s. legal (rn_state (lc_run y)) s \<and> lc_run y' = fst (transitionTo (lc_run y) s))"
proof -
  have tr: "try_trans y i s a b = y' \<Longrightarrow> ?thesis" for s a b using try_trans_run [of y i s a b] by auto
  show ?thesis
  proof (cases p)
    case PauseTrans
    then show ?thesis using assms by (intro tr) (simp only: lc_move.simps option.inject)
  next
    case ResumeTrans
    then show ?thesis using assms by (intro tr) (simp only: lc_move.simps option.inject)
  next
    case StopTrans
    then show ?thesis using assms by (intro tr) (simp only: lc_move.simps option.inject)
  next
    case CompTrans
    then show ?thesis using assms by (intro tr) (simp only: lc_move.simps option.inject)
  next
    case StopFinal
    then have "lc_run y' = fst (transitionTo (lc_run y) StateStopped)" using assms by auto
    then show ?thesis using trans_run [of "lc_run y" StateStopped] by metis
  next
    case CompFinal
    then have "lc_run y' = fst (transitionTo (lc_run y) StateCompleted)" using assms by auto
    then show ?thesis using trans_run [of "lc_run y" StateCompleted] by metis
  qed (use assms in \<open>auto split: option.splits if_splits\<close>)
qed

lemma lc_step_run:
  assumes "lc_step y e = Some y'"
  shows "lc_run y' = lc_run y
     \<or> (\<exists>s. legal (rn_state (lc_run y)) s \<and> lc_run y' = fst (transitionTo (lc_run y) s))"
  using assms by (cases e) (auto simp: give_up_def split: if_splits dest: lc_move_run)

definition on_path :: "string \<Rightarrow> run_core \<Rightarrow> State list \<Rightarrow> bool" where
  "on_path i r ps \<longleftrightarrow> rn_id r = i \<and> rn_audit r \<and> legal_path StateIdle ps
     \<and> rn_state r = last (StateIdle # ps) \<and> rn_appended r = trail i StateIdle ps"

lemma transitionTo_legal:
  "legal (rn_state r) s \<Longrightarrow> rn_audit r \<Longrightarrow>
   fst (transitionTo r s) = r\<lparr>rn_state := s, rn_appended := rn_appended r @ trail (rn_id r) (rn_state r) [s]\<rparr>"
  by (auto simp: transitionTo_def legal_def Let_def split: option.splits)

lemma last_snoc_path: "last (s # ps @ [s']) = s'"
  by simp

lemma on_path_trans:
  "on_path i r ps \<Longrightarrow> legal (rn_state r) s \<Longrightarrow> on_path i (fst (transitionTo r s)) (ps @ [s])"
  by (simp add: on_path_def transitionTo_legal legal_path_append trail_append last_snoc_path
      del: trail.simps last.simps)

lemma on_path_exec:
  "lc_exec y es = Some y' \<Longrightarrow> on_path i (lc_run y) ps \<Longrightarrow> \<exists>qs. on_path i (lc_run y') (ps @ qs)"
proof (induction es arbitrary: y ps)
  case Nil
  then show ?case by (auto intro: exI [of _ "[]"])
next
  case (Cons e es)
  then obtain y1 where y1: "lc_step y e = Some y1" "lc_exec y1 es = Some y'"
    by (auto split: option.splits)
  from lc_step_run [OF y1(1)] show ?case
  proof
    assume "lc_run y1 = lc_run y"
    then show ?thesis using Cons.IH [OF y1(2)] Cons.prems(2) by simp
  next
    assume "\<exists>s. legal (rn_state (lc_run y)) s \<and> lc_run y1 = fst (transitionTo (lc_run y) s)"
    then obtain s where "on_path i (lc_run y1) (ps @ [s])" using on_path_trans Cons.prems(2) by metis
    then show ?thesis using Cons.IH [OF y1(2)] by fastforce
  qed
qed

text \<open>Whatever the operations do concurrently, the run walks a path of the transition table from
  Idle, and the audit trail is exactly that path: one event, naming both states, per entry into
  Running, Stopping, Stopped or Completed and none else.\<close>

theorem audit_trail_is_the_path:
  assumes "lc_exec (lc_start i n b) es = Some y"
  shows "\<exists>ps. legal_path StateIdle ps \<and> hd ps = StateRunning \<and> rn_state (lc_run y) = last ps
           \<and> rn_appended (lc_run y) = trail i StateIdle ps"
proof -
  have "on_path i (lc_run (lc_start i n b)) [StateRunning]"
    by (simp add: on_path_def lc_start_def transitionTo_def)
  then obtain qs where "on_path i (lc_run y) ([StateRunning] @ qs)"
    using on_path_exec [OF assms] by blast
  then show ?thesis by (intro exI [of _ "StateRunning # qs"]) (simp add: on_path_def)
qed

theorem audit_trail_is_the_path_witness:
  "\<exists>y ps. lc_exec (lc_start ''r'' 0 1) [BlockEnds, Move 0 0, Move 0 0, Move 0 0, Move 0 0, Move 0 0] = Some y
     \<and> rn_state (lc_run y) = StateCompleted \<and> legal_path StateIdle ps \<and> last ps = StateCompleted
     \<and> rn_appended (lc_run y) = trail ''r'' StateIdle ps"
proof -
  let ?es = "[BlockEnds, Move 0 0, Move 0 0, Move 0 0, Move 0 0, Move 0 0]"
  define y where "y = the (lc_exec (lc_start ''r'' 0 1) ?es)"
  have r: "lc_exec (lc_start ''r'' 0 1) ?es = Some y" unfolding y_def by (simp add: run_lc)
  have "rn_state (lc_run y) = StateCompleted" unfolding y_def by (simp add: run_lc)
  then show ?thesis using r audit_trail_is_the_path [OF r] by auto
qed

section \<open>Races\<close>

definition all_returned :: "lc_sys \<Rightarrow> bool" where
  "all_returned y \<longleftrightarrow> list_all (\<lambda>p. p = Returned None) (lc_pcs y)"

text \<open>The transition and the gate are two steps, so a Pause and a Resume that overlap can both
  return without error and leave a running run with its gate closed, its workers blocked; and
  two more calls can leave a paused run with its gate open, its workers running.\<close>

theorem pause_resume_race:
  "(\<exists>y. lc_exec (lc_start ''r'' 1 1) [Invoke Pause, Move 0 5, Invoke Resume, Move 1 5, Move 1 5, Move 0 5] = Some y
      \<and> all_returned y \<and> rn_state (lc_run y) = StateRunning \<and> \<not> isOpen (lc_gate y))
   \<and> (\<exists>y. lc_exec (lc_start ''r'' 1 1) [Invoke Pause, Move 0 5, Move 0 5, Invoke Resume, Move 1 5,
             Invoke Pause, Move 2 6, Move 2 6, Move 1 6] = Some y
      \<and> all_returned y \<and> rn_state (lc_run y) = StatePaused \<and> isOpen (lc_gate y))"
  by (simp add: run_lc all_returned_def isOpen_def zero_time_def)

text \<open>A block that ends between the two steps of a Pause spawns a completion that the table
  refuses, and nothing ever completes the run again: after the Resume the run is Running with no
  block left, not done, every call returned, and no further block can end.\<close>

theorem completion_lost_to_a_pause:
  "\<exists>y. lc_exec (lc_start ''r'' 1 1) [Invoke Pause, Move 0 5, BlockEnds, Move 1 5, Move 0 5,
         Invoke Resume, Move 2 6, Move 2 6] = Some y
     \<and> all_returned y \<and> rn_state (lc_run y) = StateRunning \<and> isOpen (lc_gate y)
     \<and> lc_blocksLeft y = 0 \<and> \<not> lc_done y
     \<and> lc_step y BlockEnds = None \<and> list_all (\<lambda>k. lc_step y (Move k 7) = None) [0, 1, 2]"
  by (simp add: run_lc all_returned_def isOpen_def zero_time_def)

text \<open>Stop is idempotent only after the first call has got past Stopping: a second Stop that
  arrives while the first one drains returns the table's error at once.\<close>

theorem concurrent_stop_is_refused:
  "\<exists>y e. lc_exec (lc_start ''r'' 1 1) [Invoke Stop, Move 0 5, Invoke Stop, Move 1 5, Move 1 5] = Some y
     \<and> lc_pcs y = [StopCancel, Returned (Some e)] \<and> \<not> lc_done y"
  by (simp add: run_lc)

section \<open>Calls that do not overlap\<close>

text \<open>\<open>Pause\<close> and \<open>Resume\<close> run to their end before the next call: what they return and leave.\<close>

definition Pause_call :: "instant \<Rightarrow> run_core \<times> gate \<Rightarrow> (run_core \<times> gate) \<times> goerr option" where
  "Pause_call t x =
     (case transitionTo (fst x) StatePaused of
        (r, Some e) \<Rightarrow> ((r, snd x), Some e)
      | (r, None) \<Rightarrow> ((r, the (map_option fst (gate_pause (\<lambda>_. t) (snd x) gateOperator))), None))"

definition Resume_call :: "instant \<Rightarrow> run_core \<times> gate \<Rightarrow> (run_core \<times> gate) \<times> goerr option" where
  "Resume_call t x =
     (case transitionTo (fst x) StateRunning of
        (r, Some e) \<Rightarrow> ((r, snd x), Some e)
      | (r, None) \<Rightarrow> ((r, fst (gate_resume (\<lambda>_. t) (snd x) gateOperator)), None))"

fun serial_calls :: "(bool \<times> instant) list \<Rightarrow> run_core \<times> gate \<Rightarrow> run_core \<times> gate" where
  "serial_calls [] x = x"
| "serial_calls ((pause, t) # cs) x =
     serial_calls cs (fst (if pause then Pause_call t x else Resume_call t x))"

definition agree :: "run_core \<times> gate \<Rightarrow> bool" where
  "agree x \<longleftrightarrow> gate_inv (snd x) \<and> rn_state (fst x) \<in> {StateRunning, StatePaused}
     \<and> g_paused (snd x) gateOperator = (rn_state (fst x) = StatePaused)"

lemma agree_Pause: "agree x \<Longrightarrow> agree (fst (Pause_call t x))"
proof -
  assume x: "agree x"
  obtain g where g: "gate_apply (snd x) (GPause gateOperator, t) = Some g" "gate_inv g"
    "g_paused g = (g_paused (snd x))(gateOperator := True)"
    using gate_apply_ok [of "snd x" "(GPause gateOperator, t)"] x by (auto simp: agree_def)
  show ?thesis
    by (rule transitionTo_cases [of "fst x" StatePaused])
       (use x g in \<open>auto simp: Pause_call_def agree_def split: prod.splits\<close>)
qed

lemma agree_Resume: "agree x \<Longrightarrow> agree (fst (Resume_call t x))"
proof -
  assume x: "agree x"
  obtain g where g: "gate_apply (snd x) (GResume gateOperator, t) = Some g" "gate_inv g"
    "g_paused g = (g_paused (snd x))(gateOperator := False)"
    using gate_apply_ok [of "snd x" "(GResume gateOperator, t)"] x by (auto simp: agree_def)
  show ?thesis
    by (rule transitionTo_cases [of "fst x" StateRunning])
       (use x g in \<open>auto simp: Resume_call_def agree_def split: prod.splits\<close>)
qed

text \<open>As long as Pause and Resume calls do not overlap, the state and the gate agree: after any
  sequence of them the run is paused exactly when the operator's source of the gate is.\<close>

theorem serial_pause_resume_agree:
  "let x = serial_calls cs (lc_run (lc_start i n b), newGate)
   in g_paused (snd x) gateOperator = (rn_state (fst x) = StatePaused)
      \<and> (rn_state (fst x) = StateRunning \<or> rn_state (fst x) = StatePaused)"
proof -
  have "agree x \<Longrightarrow> agree (serial_calls cs x)" for x
    by (induction cs x rule: serial_calls.induct) (simp_all add: agree_Pause agree_Resume)
  moreover have "agree (lc_run (lc_start i n b), newGate)"
    using gate_inv_new by (simp add: agree_def lc_start_def transitionTo_next newGate_def)
  ultimately show ?thesis by (auto simp: agree_def Let_def)
qed

end
