(* ===== verification/Patch.thy ===== *)
theory Patch
  imports ScenarioTypes Selector Stats Semaphore Breaker AuditLog
begin

text \<open>
  Live modification of a run: \<open>internal/engine/patch.go\<close>.

  \<open>patch_run\<close> holds the fields of \<open>Run\<close> a patch reads or writes. \<open>patchMu\<close> makes a patch one
  critical section, so \<open>ApplyPatch\<close> is a function on that state; it returns the state it leaves
  behind also when it fails. The audit sink is the parameter \<open>sink\<close> (the error it answers, given
  what it has accepted so far), \<open>net/url.Parse\<close> the parameter \<open>parse\<close> (scheme, host with port and
  host name of an address, None for an error). Go's random map order is the order of the entry
  list a weight map is given by.
\<close>

section \<open>State\<close>

type_synonym weights = "(string \<times> nat) list"

record ('p, 'loc) patch_run =
  pr_id :: string
  pr_agentID :: string
  pr_sc :: "('p, 'loc) Scenario"
  pr_caps :: CapSpec
  pr_capOverride :: bool
  pr_weights :: weights
  pr_sem :: semaphore
  pr_selector :: rotatingSelector
  pr_coll :: collector
  pr_breakers :: "string \<rightharpoonup> Breaker"
  pr_events :: "Event list"
  pr_clk :: clock

record TargetSpec =
  tp_BlockID :: string
  tp_Addr :: string

record ScenarioPatch =
  sp_Caps :: "CapPatch option"
  sp_Concurrency :: "int option"
  sp_Weights :: "weights option"
  sp_RotationIntSec :: "int option"
  sp_TargetsAdd :: "TargetSpec list"
  sp_TargetsDisable :: "string list"

type_synonym detail = "string \<rightharpoonup> string"

type_synonym url_parse = "string \<Rightarrow> (string \<times> string \<times> string) option"

definition applyPatchOp :: string where "applyPatchOp = ''Run.ApplyPatch''"
definition targetsAddOp :: string where "targetsAddOp = ''engine.patch.targets_add''"

definition patch_error :: "string \<Rightarrow> string \<Rightarrow> goerr" where
  "patch_error code msg = pterr_New ClassConfig code applyPatchOp msg"

definition breakerThreshold :: int where "breakerThreshold = 5"
definition breakerCooldown :: duration where "breakerCooldown = 30 * second"

text \<open>\<open>detail[k] + v\<close>, an absent key reading as the empty string.\<close>

definition detail_append :: "detail \<Rightarrow> string \<Rightarrow> string \<Rightarrow> detail" where
  "detail_append dt k v = dt(k \<mapsto> (case dt k of None \<Rightarrow> '''' | Some x \<Rightarrow> x) @ v @ '' '')"

definition audit_append ::
  "(Event list \<Rightarrow> Event \<Rightarrow> goerr option) \<Rightarrow> ('p, 'loc) patch_run \<Rightarrow> Event \<Rightarrow> ('p, 'loc) patch_run \<times> goerr option" where
  "audit_append sink r e =
     (case sink (pr_events r) e of
        Some err \<Rightarrow> (r, Some err)
      | None \<Rightarrow> (r\<lparr>pr_events := pr_events r @ [e]\<rparr>, None))"

section \<open>Caps, concurrency and rotation\<close>

definition capsRaised :: "CapSpec \<Rightarrow> CapSpec \<Rightarrow> bool" where
  "capsRaised cur nxt \<longleftrightarrow> f_lt (cs_PerTargetRPS cur) (cs_PerTargetRPS nxt)
     \<or> f_lt (cs_GlobalRPS cur) (cs_GlobalRPS nxt)
     \<or> cs_TotalRequestBudget nxt > cs_TotalRequestBudget cur"

definition override_event :: "('p, 'loc) patch_run \<Rightarrow> Event" where
  "override_event r = \<lparr>ev_Actor = pr_agentID r, ev_Action = ActionCapOverrideEnabled, ev_Resource = pr_id r,
     ev_Detail = [''run_id'' \<mapsto> pr_id r]\<rparr>"

definition patchCaps ::
  "(Event list \<Rightarrow> Event \<Rightarrow> goerr option) \<Rightarrow> CapPatch \<Rightarrow> ('p, 'loc) patch_run \<Rightarrow> detail
     \<Rightarrow> ('p, 'loc) patch_run \<times> detail \<times> goerr option" where
  "patchCaps sink cp r dt =
     (let nxt = WithPatch (pr_caps r) cp
      in if capsRaised (pr_caps r) nxt then
           if \<not> pr_capOverride r
           then (r, dt, Some (patch_error ''engine.patch.caps_up'' ''raising a safety cap requires the cap-override flag''))
           else (case audit_append sink r (override_event r) of
                   (r1, Some err) \<Rightarrow> (r1, dt, Some err)
                 | (r1, None) \<Rightarrow> (r1\<lparr>pr_caps := nxt\<rparr>, dt(''caps'' \<mapsto> ''patched''), None))
         else (r\<lparr>pr_caps := nxt\<rparr>, dt(''caps'' \<mapsto> ''patched''), None))"

definition patchConcurrency ::
  "int \<Rightarrow> ('p, 'loc) patch_run \<Rightarrow> detail \<Rightarrow> ('p, 'loc) patch_run \<times> detail \<times> goerr option" where
  "patchConcurrency n r dt =
     (if n \<le> 0 then (r, dt, Some (patch_error ''engine.patch.concurrency'' ''concurrency must be >= 1''))
      else (r\<lparr>pr_sem := sem_setLimit (pr_sem r) n\<rparr>, dt(''concurrency'' \<mapsto> Itoa n), None))"

definition patchRotation ::
  "int \<Rightarrow> ('p, 'loc) patch_run \<Rightarrow> detail \<Rightarrow> ('p, 'loc) patch_run \<times> detail \<times> goerr option" where
  "patchRotation sec r dt =
     (if sec < 0
      then (r, dt, Some (patch_error ''engine.patch.rotation'' ''rotation interval seconds must be >= 0''))
      else (r\<lparr>pr_selector := setInterval (pr_selector r) (i64 (sec * second))\<rparr>,
            dt(''rotation_interval_sec'' \<mapsto> Itoa sec), None))"

section \<open>Weights\<close>

fun go_gcd :: "nat \<Rightarrow> nat \<Rightarrow> nat" where
  "go_gcd a b = (if b = 0 then a else go_gcd b (a mod b))"

declare go_gcd.simps [simp del]

fun check_weights :: "string list \<Rightarrow> weights \<Rightarrow> goerr option" where
  "check_weights known [] = None"
| "check_weights known ((i, v) # ws) =
     (if i \<notin> set known then Some (patch_error ''engine.patch.weights'' (''weight references unknown block: '' @ i))
      else if v = 0 then Some (patch_error ''engine.patch.weights'' (''weight must be >= 1 for block: '' @ i))
      else check_weights known ws)"

definition normalizeWeights :: "weights \<Rightarrow> weights \<Rightarrow> goerr + weights" where
  "normalizeWeights cur w =
     (case check_weights (map fst cur) w of
        Some e \<Rightarrow> Inl e
      | None \<Rightarrow>
          (let out = w @ filter (\<lambda>(i, v). i \<notin> set (map fst w)) cur;
               g = foldl go_gcd 0 (map snd out)
           in Inr (if g > 1 then map (\<lambda>(i, v). (i, v div g)) out else out)))"

definition patchWeights ::
  "weights \<Rightarrow> ('p, 'loc) patch_run \<Rightarrow> detail \<Rightarrow> ('p, 'loc) patch_run \<times> detail \<times> goerr option" where
  "patchWeights w r dt =
     (case normalizeWeights (pr_weights r) w of
        Inl e \<Rightarrow> (r, dt, Some e)
      | Inr ws \<Rightarrow> (r\<lparr>pr_weights := ws\<rparr>, dt(''weights'' \<mapsto> ''patched''), None))"

section \<open>Targets\<close>

definition blockByID :: "('p, 'loc) patch_run \<Rightarrow> string \<Rightarrow> 'p Block option" where
  "blockByID r i = List.find (\<lambda>b. bl_ID b = i) (sc_Blocks (pr_sc r))"

definition shard_of_block :: "string \<Rightarrow> string \<Rightarrow> bool" where
  "shard_of_block blockID i \<longleftrightarrow> length i > length blockID + 1 \<and> take (length blockID) i = blockID
     \<and> i ! length blockID = CHR ''/''"

definition addedTargets :: "('p, 'loc) patch_run \<Rightarrow> string \<Rightarrow> int" where
  "addedTargets r blockID =
     (let n = int (length (filter (shard_of_block blockID) (co_targetIDs (pr_coll r))));
          added = n - (case blockByID r blockID of None \<Rightarrow> 0 | Some b \<Rightarrow> int (length (bl_Targets b)))
      in if added < 0 then 0 else added)"

definition hostOf :: "url_parse \<Rightarrow> string \<Rightarrow> string option" where
  "hostOf parse addr =
     (case parse addr of None \<Rightarrow> None
      | Some (scheme, host, hostname) \<Rightarrow> Some (if host \<noteq> '''' then hostname else addr))"

definition schemeFor :: "ProtocolID \<Rightarrow> string" where
  "schemeFor p =
     (if p = ProtoHTTP then ''https''
      else if p = ProtoSSH then ''ssh''
      else if p = ProtoDNS then ''dns''
      else if p = ProtoStream then ''stream''
      else p)"

definition structuralCheck :: "url_parse \<Rightarrow> ProtocolID \<Rightarrow> string \<Rightarrow> goerr option" where
  "structuralCheck parse proto addr =
     (case parse addr of
        None \<Rightarrow> Some (patch_error ''engine.patch.structural'' (''TargetsAdd invalid address: '' @ addr))
      | Some (scheme, host, hostname) \<Rightarrow>
          if scheme = '''' then None
          else if scheme \<noteq> schemeFor proto
          then Some (patch_error ''engine.patch.structural''
                 (''TargetsAdd protocol scheme '' @ scheme @ '' does not match block protocol '' @ proto))
          else None)"

text \<open>One entry of \<open>TargetsAdd\<close>.\<close>

definition add_one ::
  "url_parse \<Rightarrow> (string \<Rightarrow> string) \<Rightarrow> TargetSpec \<Rightarrow> ('p, 'loc) patch_run \<Rightarrow> detail
     \<Rightarrow> ('p, 'loc) patch_run \<times> detail \<times> goerr option" where
  "add_one parse uni spec r dt =
     (case blockByID r (tp_BlockID spec) of
        None \<Rightarrow> (r, dt, Some (patch_error targetsAddOp
                   (''TargetsAdd references unknown block: '' @ tp_BlockID spec)))
      | Some blk \<Rightarrow>
      case structuralCheck parse (bl_Protocol blk) (tp_Addr spec) of
        Some e \<Rightarrow> (r, dt, Some e)
      | None \<Rightarrow>
      case hostOf parse (tp_Addr spec) of
        None \<Rightarrow> (r, dt, Some (patch_error targetsAddOp (''TargetsAdd invalid address: '' @ tp_Addr spec)))
      | Some host \<Rightarrow>
          if \<not> Permits uni (sc_Targets (pr_sc r)) host
          then (r, dt, Some (patch_error targetsAddOp
                 (''TargetsAdd address not in allowed_domains: '' @ tp_Addr spec)))
          else
            (let tid = bl_ID blk @ ''/'' @ Itoa (int (length (bl_Targets blk)) + addedTargets r (bl_ID blk));
                 (s, clk) = addTarget (pr_clk r) (pr_selector r) (bl_Protocol blk)
                   \<lparr>t_ID = tid, t_Proto = bl_Protocol blk, t_Addr = tp_Addr spec, t_Cred = zero_CredentialRef, t_Proxy = []\<rparr>
             in (r\<lparr>pr_selector := s, pr_clk := clk, pr_coll := addShard (pr_coll r) tid,
                   pr_breakers := (pr_breakers r)(tid \<mapsto> NewBreaker breakerThreshold breakerCooldown)\<rparr>,
                 detail_append dt ''targets_add'' tid, None)))"

fun patchTargetsAdd ::
  "url_parse \<Rightarrow> (string \<Rightarrow> string) \<Rightarrow> TargetSpec list \<Rightarrow> ('p, 'loc) patch_run \<Rightarrow> detail
     \<Rightarrow> ('p, 'loc) patch_run \<times> detail \<times> goerr option" where
  "patchTargetsAdd parse uni [] r dt = (r, dt, None)"
| "patchTargetsAdd parse uni (spec # specs) r dt =
     (case add_one parse uni spec r dt of
        (r1, dt1, Some e) \<Rightarrow> (r1, dt1, Some e)
      | (r1, dt1, None) \<Rightarrow> patchTargetsAdd parse uni specs r1 dt1)"

fun patchTargetsDisable ::
  "string list \<Rightarrow> ('p, 'loc) patch_run \<Rightarrow> detail \<Rightarrow> ('p, 'loc) patch_run \<times> detail \<times> goerr option" where
  "patchTargetsDisable [] r dt = (r, dt, None)"
| "patchTargetsDisable (tid # tids) r dt =
     (case pr_breakers r tid of
        None \<Rightarrow> (r, dt, Some (patch_error ''engine.patch.targets_disable''
                   (''TargetsDisable references unknown target: '' @ tid)))
      | Some b \<Rightarrow>
          (case ForceOpen (pr_clk r) b of (b', clk) \<Rightarrow>
             patchTargetsDisable tids
               (r\<lparr>pr_breakers := (pr_breakers r)(tid \<mapsto> b'), pr_clk := clk\<rparr>)
               (detail_append dt ''targets_disable'' tid)))"

section \<open>The whole patch\<close>

definition patched_event :: "('p, 'loc) patch_run \<Rightarrow> detail \<Rightarrow> Event" where
  "patched_event r dt = \<lparr>ev_Actor = pr_agentID r, ev_Action = ActionScenarioPatched, ev_Resource = pr_id r,
     ev_Detail = dt(''run_id'' \<mapsto> pr_id r)\<rparr>"

definition finishPatch ::
  "(Event list \<Rightarrow> Event \<Rightarrow> goerr option) \<Rightarrow> ('p, 'loc) patch_run \<Rightarrow> detail \<Rightarrow> ('p, 'loc) patch_run \<times> goerr option" where
  "finishPatch sink r dt = audit_append sink r (patched_event r dt)"

text \<open>An optional branch, and the order of the branches: each sees the state the one before left.\<close>

definition when_given ::
  "'a option \<Rightarrow> ('a \<Rightarrow> 'r \<Rightarrow> detail \<Rightarrow> 'r \<times> detail \<times> goerr option) \<Rightarrow> 'r \<times> detail \<times> goerr option
     \<Rightarrow> 'r \<times> detail \<times> goerr option" where
  "when_given x f s =
     (case s of (r, dt, err) \<Rightarrow>
        if err \<noteq> None then s else (case x of None \<Rightarrow> s | Some v \<Rightarrow> f v r dt))"

definition ApplyPatch ::
  "(Event list \<Rightarrow> Event \<Rightarrow> goerr option) \<Rightarrow> url_parse \<Rightarrow> (string \<Rightarrow> string) \<Rightarrow> ('p, 'loc) patch_run
     \<Rightarrow> ScenarioPatch \<Rightarrow> ('p, 'loc) patch_run \<times> goerr option" where
  "ApplyPatch sink parse uni r p =
     (let s0 = (r, Map.empty, None);
          s1 = when_given (sp_Caps p) (patchCaps sink) s0;
          s2 = when_given (sp_Concurrency p) patchConcurrency s1;
          s3 = when_given (sp_Weights p) patchWeights s2;
          s4 = when_given (sp_RotationIntSec p) patchRotation s3;
          s5 = when_given (Some (sp_TargetsAdd p)) (patchTargetsAdd parse uni) s4;
          s6 = when_given (Some (sp_TargetsDisable p)) patchTargetsDisable s5
      in case s6 of (r6, dt, Some e) \<Rightarrow> (r6, Some e)
         | (r6, dt, None) \<Rightarrow> finishPatch sink r6 dt)"


section \<open>Frames\<close>

text \<open>What no branch but the caps one may change, and what the selector may gain.\<close>

definition fitting_scheme :: "ProtocolID \<Rightarrow> string \<Rightarrow> bool" where
  "fitting_scheme proto scheme \<longleftrightarrow> scheme = ''''
     \<or> (proto, scheme) \<in> {(''http'', ''https''), (''ssh'', ''ssh''), (''dns'', ''dns''), (''stream'', ''stream'')}
     \<or> proto \<notin> {''http'', ''ssh'', ''dns'', ''stream''} \<and> scheme = proto"

definition allowed_target :: "url_parse \<Rightarrow> (string \<Rightarrow> string) \<Rightarrow> ('p, 'loc) patch_run \<Rightarrow> Target \<Rightarrow> bool" where
  "allowed_target parse uni r t \<longleftrightarrow>
     (case parse (t_Addr t) of
        None \<Rightarrow> False
      | Some (scheme, host, hostname) \<Rightarrow> fitting_scheme (t_Proto t) scheme
          \<and> Permits uni (sc_Targets (pr_sc r)) (if host = '''' then t_Addr t else hostname))"

lemma structuralCheck_None:
  "structuralCheck parse proto addr = None \<longleftrightarrow>
     (case parse addr of None \<Rightarrow> False | Some (scheme, host, hostname) \<Rightarrow> fitting_scheme proto scheme)"
  by (auto simp: structuralCheck_def fitting_scheme_def schemeFor_def proto_defs split: option.split if_splits)

lemma allowed_targetI:
  "structuralCheck parse (t_Proto t) (t_Addr t) = None \<Longrightarrow> hostOf parse (t_Addr t) = Some h \<Longrightarrow>
     Permits uni (sc_Targets (pr_sc r)) h \<Longrightarrow> allowed_target parse uni r t"
  by (auto simp: allowed_target_def structuralCheck_None hostOf_def split: option.splits if_splits)

definition same_run :: "('p, 'loc) patch_run \<Rightarrow> ('p, 'loc) patch_run \<Rightarrow> bool" where
  "same_run r r' \<longleftrightarrow> pr_id r' = pr_id r \<and> pr_agentID r' = pr_agentID r \<and> pr_sc r' = pr_sc r
     \<and> pr_capOverride r' = pr_capOverride r"

definition pools_grow ::
  "url_parse \<Rightarrow> (string \<Rightarrow> string) \<Rightarrow> ('p, 'loc) patch_run \<Rightarrow> ('p, 'loc) patch_run \<Rightarrow> bool" where
  "pools_grow parse uni r r' \<longleftrightarrow>
     (\<forall>q. \<exists>ts. sel_pool (pr_selector r') q = sel_pool (pr_selector r) q @ ts
        \<and> list_all (\<lambda>t. t_Proto t = q \<and> allowed_target parse uni r t) ts)"

definition branch_ok ::
  "url_parse \<Rightarrow> (string \<Rightarrow> string) \<Rightarrow> ('p, 'loc) patch_run \<Rightarrow> ('p, 'loc) patch_run \<Rightarrow> bool" where
  "branch_ok parse uni r r' \<longleftrightarrow> same_run r r' \<and> pr_caps r' = pr_caps r \<and> pr_events r' = pr_events r
     \<and> pools_grow parse uni r r'"

lemma same_run_refl [simp]: "same_run r r" by (simp add: same_run_def)

lemma same_run_trans: "same_run a b \<Longrightarrow> same_run b c \<Longrightarrow> same_run a c" by (simp add: same_run_def)

lemma allowed_target_same: "same_run r r' \<Longrightarrow> allowed_target parse uni r' = allowed_target parse uni r"
  by (intro ext) (simp only: allowed_target_def same_run_def)

lemma pools_grow_refl [simp]: "pools_grow parse uni r r" by (simp add: pools_grow_def)

lemma pools_grow_selector: "pr_selector r' = pr_selector r \<Longrightarrow> pools_grow parse uni r r'"
  by (simp add: pools_grow_def)

lemma pools_grow_trans:
  assumes "same_run a b" "pools_grow parse uni a b" "pools_grow parse uni b c"
  shows "pools_grow parse uni a c"
  unfolding pools_grow_def
proof
  fix q
  obtain ts where ts: "sel_pool (pr_selector b) q = sel_pool (pr_selector a) q @ ts"
    "list_all (\<lambda>t. t_Proto t = q \<and> allowed_target parse uni a t) ts"
    using assms(2) by (auto simp: pools_grow_def)
  obtain us where us: "sel_pool (pr_selector c) q = sel_pool (pr_selector b) q @ us"
    "list_all (\<lambda>t. t_Proto t = q \<and> allowed_target parse uni b t) us"
    using assms(3) by (auto simp: pools_grow_def)
  show "\<exists>ts. sel_pool (pr_selector c) q = sel_pool (pr_selector a) q @ ts
      \<and> list_all (\<lambda>t. t_Proto t = q \<and> allowed_target parse uni a t) ts"
    using ts us by (intro exI [of _ "ts @ us"]) (simp add: allowed_target_same [OF assms(1)])
qed

lemma branch_ok_refl [simp]: "branch_ok parse uni r r" by (simp add: branch_ok_def)

lemma branch_ok_trans: "branch_ok parse uni a b \<Longrightarrow> branch_ok parse uni b c \<Longrightarrow> branch_ok parse uni a c"
  unfolding branch_ok_def using same_run_trans pools_grow_trans by metis

lemma addTarget_pool:
  "addTarget clk s p t = (s', clk') \<Longrightarrow>
     sel_pool s' q = (if q = p then sel_pool s p @ [t] else sel_pool s q)"
  by (auto simp: addTarget_def sel_pool_def split: option.splits prod.splits)

text \<open>The ways an entry of \<open>TargetsAdd\<close> can end.\<close>

lemma add_one_cases:
  assumes "add_one parse uni spec r dt = (r', dt', err)"
  obtains (refused) e where "r' = r" "dt' = dt" "err = Some e"
    | (added) blk tid s clk where "err = None" "blockByID r (tp_BlockID spec) = Some blk"
        "tid = bl_ID blk @ ''/'' @ Itoa (int (length (bl_Targets blk)) + addedTargets r (bl_ID blk))"
        "addTarget (pr_clk r) (pr_selector r) (bl_Protocol blk)
           \<lparr>t_ID = tid, t_Proto = bl_Protocol blk, t_Addr = tp_Addr spec, t_Cred = zero_CredentialRef, t_Proxy = []\<rparr> = (s, clk)"
        "r' = r\<lparr>pr_selector := s, pr_clk := clk, pr_coll := addShard (pr_coll r) tid,
               pr_breakers := (pr_breakers r)(tid \<mapsto> NewBreaker breakerThreshold breakerCooldown)\<rparr>"
        "dt' = detail_append dt ''targets_add'' tid"
        "allowed_target parse uni r
           \<lparr>t_ID = tid, t_Proto = bl_Protocol blk, t_Addr = tp_Addr spec, t_Cred = zero_CredentialRef, t_Proxy = []\<rparr>"
proof (cases err)
  case (Some e)
  show ?thesis using assms Some
    by (intro refused) (auto simp: add_one_def Let_def split: option.splits if_splits prod.splits)
next
  case None
  obtain blk host where b: "blockByID r (tp_BlockID spec) = Some blk"
    "structuralCheck parse (bl_Protocol blk) (tp_Addr spec) = None"
    "hostOf parse (tp_Addr spec) = Some host" "Permits uni (sc_Targets (pr_sc r)) host"
    using assms None by (auto simp: add_one_def Let_def split: option.splits if_splits)
  let ?tid = "bl_ID blk @ ''/'' @ Itoa (int (length (bl_Targets blk)) + addedTargets r (bl_ID blk))"
  let ?t = "\<lparr>t_ID = ?tid, t_Proto = bl_Protocol blk, t_Addr = tp_Addr spec, t_Cred = zero_CredentialRef, t_Proxy = []\<rparr>"
  obtain s clk where s: "addTarget (pr_clk r) (pr_selector r) (bl_Protocol blk) ?t = (s, clk)"
    by (cases "addTarget (pr_clk r) (pr_selector r) (bl_Protocol blk) ?t")
  show ?thesis
    by (rule added [OF None b(1) refl s]) (use assms b s in \<open>simp_all add: add_one_def Let_def allowed_targetI\<close>)
qed

lemma add_one_ok: "add_one parse uni spec r dt = (r', dt', err) \<Longrightarrow> branch_ok parse uni r r'"
proof (erule add_one_cases)
  fix e assume "r' = r" then show ?thesis by simp
next
  fix blk tid s clk
  let ?t = "\<lparr>t_ID = tid, t_Proto = bl_Protocol blk, t_Addr = tp_Addr spec, t_Cred = zero_CredentialRef, t_Proxy = []\<rparr>"
  assume s: "addTarget (pr_clk r) (pr_selector r) (bl_Protocol blk) ?t = (s, clk)"
    and r': "r' = r\<lparr>pr_selector := s, pr_clk := clk, pr_coll := addShard (pr_coll r) tid,
               pr_breakers := (pr_breakers r)(tid \<mapsto> NewBreaker breakerThreshold breakerCooldown)\<rparr>"
    and a: "allowed_target parse uni r ?t"
  have "pools_grow parse uni r r'"
    unfolding pools_grow_def
  proof
    fix q
    show "\<exists>ts. sel_pool (pr_selector r') q = sel_pool (pr_selector r) q @ ts
        \<and> list_all (\<lambda>t. t_Proto t = q \<and> allowed_target parse uni r t) ts"
      using a addTarget_pool [OF s, of q] r'
      by (intro exI [of _ "if q = bl_Protocol blk then [?t] else []"]) auto
  qed
  then show ?thesis using r' by (simp add: branch_ok_def same_run_def)
qed

lemma patchTargetsAdd_ok:
  "patchTargetsAdd parse uni specs r dt = (r', dt', err) \<Longrightarrow> branch_ok parse uni r r'"
proof (induction specs arbitrary: r dt)
  case Nil
  then show ?case by simp
next
  case (Cons spec specs)
  obtain r1 dt1 e1 where a: "add_one parse uni spec r dt = (r1, dt1, e1)" by (cases "add_one parse uni spec r dt")
  show ?case using Cons.prems Cons.IH [of r1 dt1] a add_one_ok [OF a] branch_ok_trans
    by (cases e1) auto
qed

lemma patchTargetsDisable_ok:
  "patchTargetsDisable tids r dt = (r', dt', err) \<Longrightarrow> branch_ok parse uni r r'"
proof (induction tids arbitrary: r dt)
  case Nil
  then show ?case by simp
next
  case (Cons tid tids)
  show ?case
  proof (cases "pr_breakers r tid")
    case None
    then show ?thesis using Cons.prems by simp
  next
    case (Some b)
    obtain b' clk where f: "ForceOpen (pr_clk r) b = (b', clk)" by (cases "ForceOpen (pr_clk r) b")
    have "branch_ok parse uni r (r\<lparr>pr_breakers := (pr_breakers r)(tid \<mapsto> b'), pr_clk := clk\<rparr>)"
      by (simp add: branch_ok_def same_run_def pools_grow_selector)
    then show ?thesis using Cons.prems Some f Cons.IH branch_ok_trans by fastforce
  qed
qed

lemma setInterval_pool [simp]: "sel_pool (setInterval s d) = sel_pool s"
  by (intro ext) (simp add: setInterval_def sel_pool_def)

lemma small_branches_ok:
  "patchConcurrency n r dt = (r', dt', err) \<Longrightarrow> branch_ok parse uni r r'"
  "patchWeights w r dt = (r', dt', err) \<Longrightarrow> branch_ok parse uni r r'"
  "patchRotation sec r dt = (r', dt', err) \<Longrightarrow> branch_ok parse uni r r'"
  by (auto simp: patchConcurrency_def patchWeights_def patchRotation_def branch_ok_def same_run_def
      pools_grow_def split: if_splits sum.splits)


section \<open>Caps only go up under the override, and every applied patch is audited\<close>

text \<open>The state after the branches that follow the caps.\<close>

definition after_caps ::
  "url_parse \<Rightarrow> (string \<Rightarrow> string) \<Rightarrow> ScenarioPatch \<Rightarrow> ('p, 'loc) patch_run \<times> detail \<times> goerr option
     \<Rightarrow> ('p, 'loc) patch_run \<times> detail \<times> goerr option" where
  "after_caps parse uni p s1 =
     when_given (Some (sp_TargetsDisable p)) patchTargetsDisable
      (when_given (Some (sp_TargetsAdd p)) (patchTargetsAdd parse uni)
        (when_given (sp_RotationIntSec p) patchRotation
          (when_given (sp_Weights p) patchWeights
            (when_given (sp_Concurrency p) patchConcurrency s1))))"

lemma ApplyPatch_unfold:
  "ApplyPatch sink parse uni r p =
     (case after_caps parse uni p (when_given (sp_Caps p) (patchCaps sink) (r, Map.empty, None)) of
        (r6, dt, Some e) \<Rightarrow> (r6, Some e)
      | (r6, dt, None) \<Rightarrow> finishPatch sink r6 dt)"
  by (simp add: ApplyPatch_def after_caps_def Let_def)

lemma when_given_ok:
  assumes "when_given x f (r, dt, err) = (r', dt', err')"
    and "\<And>v r dt r' dt' err. f v r dt = (r', dt', err) \<Longrightarrow> branch_ok parse uni r r'"
  shows "branch_ok parse uni r r'" and "err \<noteq> None \<Longrightarrow> err' = err"
  using assms by (auto simp: when_given_def split: if_splits option.splits)

lemma after_caps_ok:
  assumes "after_caps parse uni p (r, dt, err) = (r', dt', err')"
  shows "branch_ok parse uni r r'" and "err \<noteq> None \<Longrightarrow> err' = err"
proof -
  obtain r2 d2 e2 where s2: "when_given (sp_Concurrency p) patchConcurrency (r, dt, err) = (r2, d2, e2)"
    by (cases "when_given (sp_Concurrency p) patchConcurrency (r, dt, err)")
  obtain r3 d3 e3 where s3: "when_given (sp_Weights p) patchWeights (r2, d2, e2) = (r3, d3, e3)"
    by (cases "when_given (sp_Weights p) patchWeights (r2, d2, e2)")
  obtain r4 d4 e4 where s4: "when_given (sp_RotationIntSec p) patchRotation (r3, d3, e3) = (r4, d4, e4)"
    by (cases "when_given (sp_RotationIntSec p) patchRotation (r3, d3, e3)")
  obtain r5 d5 e5 where s5: "when_given (Some (sp_TargetsAdd p)) (patchTargetsAdd parse uni) (r4, d4, e4) = (r5, d5, e5)"
    by (cases "when_given (Some (sp_TargetsAdd p)) (patchTargetsAdd parse uni) (r4, d4, e4)")
  have s6: "when_given (Some (sp_TargetsDisable p)) patchTargetsDisable (r5, d5, e5) = (r', dt', err')"
    using assms by (simp add: after_caps_def s2 s3 s4 s5)
  note o2 = when_given_ok [OF s2 small_branches_ok(1)] and o3 = when_given_ok [OF s3 small_branches_ok(2)]
    and o4 = when_given_ok [OF s4 small_branches_ok(3)] and o5 = when_given_ok [OF s5 patchTargetsAdd_ok]
    and o6 = when_given_ok [OF s6 patchTargetsDisable_ok]
  show "branch_ok parse uni r r'"
    by (rule branch_ok_trans [OF branch_ok_trans [OF branch_ok_trans [OF branch_ok_trans [OF o2(1) o3(1)] o4(1)]
            o5(1)] o6(1)])
  show "err' = err" if "err \<noteq> None" using o2(2) o3(2) o4(2) o5(2) o6(2) that by simp
qed

text \<open>What a patch of the caps means, stated for all eight fields: a field the patch names has the
  value it gives, every other one its old value; and the caps are loosened when any field is higher
  than before.\<close>

definition given_or :: "'a option \<Rightarrow> 'a \<Rightarrow> 'a" where
  "given_or x old = (case x of None \<Rightarrow> old | Some v \<Rightarrow> v)"

definition overlaid :: "CapPatch option \<Rightarrow> CapSpec \<Rightarrow> CapSpec \<Rightarrow> bool" where
  "overlaid cp c c' \<longleftrightarrow>
     cs_PerTargetRPS c' = given_or (Option.bind cp cp_PerTargetRPS) (cs_PerTargetRPS c)
   \<and> cs_GlobalRPS c' = given_or (Option.bind cp cp_GlobalRPS) (cs_GlobalRPS c)
   \<and> cs_TotalRequestBudget c' = given_or (Option.bind cp cp_TotalRequestBudget) (cs_TotalRequestBudget c)
   \<and> cs_MaxConcurrentSessions c' = cs_MaxConcurrentSessions c
   \<and> cs_StreamingByteRateKbps c' = cs_StreamingByteRateKbps c
   \<and> cs_ConcurrentStreams c' = cs_ConcurrentStreams c
   \<and> cs_PerSessionMaxDurationSeconds c' = cs_PerSessionMaxDurationSeconds c
   \<and> cs_PerSessionMaxActions c' = cs_PerSessionMaxActions c"

definition loosened :: "CapSpec \<Rightarrow> CapSpec \<Rightarrow> bool" where
  "loosened c c' \<longleftrightarrow>
     f_lt (cs_PerTargetRPS c) (cs_PerTargetRPS c') \<or> f_lt (cs_GlobalRPS c) (cs_GlobalRPS c')
   \<or> cs_TotalRequestBudget c < cs_TotalRequestBudget c'
   \<or> cs_MaxConcurrentSessions c < cs_MaxConcurrentSessions c'
   \<or> cs_StreamingByteRateKbps c < cs_StreamingByteRateKbps c'
   \<or> cs_ConcurrentStreams c < cs_ConcurrentStreams c'
   \<or> cs_PerSessionMaxDurationSeconds c < cs_PerSessionMaxDurationSeconds c'
   \<or> cs_PerSessionMaxActions c < cs_PerSessionMaxActions c'"

lemma loosened_refl [simp]: "\<not> loosened c c"
  by (simp add: loosened_def)

lemma WithPatch_overlaid: "overlaid (Some cp) c (WithPatch c cp)" "overlaid None c c"
  by (simp_all add: overlaid_def given_or_def WithPatch_def Let_def split: option.split)

lemma capsRaised_loosened: "overlaid cp c c' \<Longrightarrow> capsRaised c c' = loosened c c'"
  by (auto simp: overlaid_def capsRaised_def loosened_def)

text \<open>The caps branch: what it leaves, with or without an error.\<close>

lemma caps_branch:
  assumes "when_given (sp_Caps p) (patchCaps sink) (r, Map.empty, None) = (r1, dt1, e1)"
  shows "same_run r r1 \<and> pr_selector r1 = pr_selector r
    \<and> (if e1 = None
       then overlaid (sp_Caps p) (pr_caps r) (pr_caps r1)
            \<and> pr_events r1 = pr_events r @ (if loosened (pr_caps r) (pr_caps r1) then [override_event r] else [])
            \<and> (loosened (pr_caps r) (pr_caps r1) \<longrightarrow> pr_capOverride r)
       else r1 = r)"
proof (cases "sp_Caps p")
  case None
  then show ?thesis using assms WithPatch_overlaid(2) by (auto simp: when_given_def)
next
  case (Some cp)
  let ?c = "WithPatch (pr_caps r) cp"
  note d = when_given_def patchCaps_def audit_append_def Let_def same_run_def Some
    capsRaised_loosened [OF WithPatch_overlaid(1)]
  consider (down) "\<not> loosened (pr_caps r) ?c" | (denied) "loosened (pr_caps r) ?c" "\<not> pr_capOverride r"
    | (unaudited) err where "loosened (pr_caps r) ?c" "pr_capOverride r" "sink (pr_events r) (override_event r) = Some err"
    | (up) "loosened (pr_caps r) ?c" "pr_capOverride r" "sink (pr_events r) (override_event r) = None"
    by (cases "sink (pr_events r) (override_event r)") auto
  then show ?thesis
  proof cases
    case down then show ?thesis using assms WithPatch_overlaid(1) [of cp] by (auto simp: d)
  next
    case denied then show ?thesis using assms by (auto simp: d)
  next
    case (unaudited err)
    then have "r1 = r" "e1 = Some err" using assms by (simp_all add: d)
    then show ?thesis by simp
  next
    case up then show ?thesis using assms WithPatch_overlaid(1) [of cp] by (auto simp: d)
  qed
qed

text \<open>C8. A patch that is applied gives every cap it names its new value and leaves every other cap
  as it was, and it ends with the audit event of the patch, right after the override event when some
  cap is higher than before; a patch that is refused has not written that event. Applied or refused,
  no cap is higher than before unless the run has the override flag and the override event is in
  the audit log; no target leaves a pool, and every target a pool gains is of the pool's protocol,
  with a scheme that fits it and a host that the scenario's allowlist permits.\<close>

theorem patch_is_guarded_and_audited:
  assumes "ApplyPatch sink parse uni r p = (r', err)"
  shows "(if err = None
          then overlaid (sp_Caps p) (pr_caps r) (pr_caps r')
             \<and> (\<exists>dt. pr_events r' = pr_events r
                  @ (if loosened (pr_caps r) (pr_caps r') then [override_event r] else []) @ [patched_event r dt])
          else pr_events r' = pr_events r \<or> pr_events r' = pr_events r @ [override_event r])
    \<and> (loosened (pr_caps r) (pr_caps r') \<longrightarrow> pr_capOverride r \<and> override_event r \<in> set (pr_events r'))
    \<and> pools_grow parse uni r r'"
proof -
  obtain r1 dt1 e1 where c: "when_given (sp_Caps p) (patchCaps sink) (r, Map.empty, None) = (r1, dt1, e1)"
    by (cases "when_given (sp_Caps p) (patchCaps sink) (r, Map.empty, None)")
  obtain r6 dt6 e6 where a: "after_caps parse uni p (r1, dt1, e1) = (r6, dt6, e6)"
    by (cases "after_caps parse uni p (r1, dt1, e1)")
  note cb = caps_branch [OF c] and ab = after_caps_ok [OF a]
  have same: "same_run r r6" using cb ab(1) same_run_trans by (auto simp: branch_ok_def)
  have "pools_grow parse uni r r1" using cb pools_grow_selector by blast
  then have grow: "pools_grow parse uni r r6"
    using cb ab(1) pools_grow_trans [of r r1 parse uni r6] by (simp add: branch_ok_def)
  have ev: "pr_caps r6 = pr_caps r1" "pr_events r6 = pr_events r1" using ab(1) by (simp_all add: branch_ok_def)
  have guard: "loosened (pr_caps r) (pr_caps r6) \<longrightarrow> pr_capOverride r \<and> override_event r \<in> set (pr_events r6)"
    using cb ev by (cases e1) auto
  have x: "ApplyPatch sink parse uni r p =
      (case e6 of Some e \<Rightarrow> (r6, Some e) | None \<Rightarrow> finishPatch sink r6 dt6)"
    by (simp add: ApplyPatch_unfold c a)
  have pe: "patched_event r6 dt6 = patched_event r dt6" using same by (simp add: patched_event_def same_run_def)
  show ?thesis
  proof (cases e6)
    case (Some e)
    have "pr_events r1 = pr_events r \<or> pr_events r1 = pr_events r @ [override_event r]"
      using cb by (cases e1) auto
    moreover have "r' = r6" "err = Some e" using assms x Some by simp_all
    ultimately show ?thesis using grow ev guard by simp
  next
    case None
    then have e1: "e1 = None" using ab(2) by (cases e1) auto
    show ?thesis
    proof (cases "sink (pr_events r6) (patched_event r6 dt6)")
      case (Some e)
      then have "r' = r6" "err = Some e" using assms x None by (simp_all add: finishPatch_def audit_append_def)
      then show ?thesis using grow ev cb e1 guard by simp
    next
      case None
      then have r': "r' = r6\<lparr>pr_events := pr_events r6 @ [patched_event r dt6]\<rparr>" "err = None"
        using assms x \<open>e6 = None\<close> pe by (simp_all add: finishPatch_def audit_append_def)
      have "pools_grow parse uni r r'" using grow r'(1) by (simp add: pools_grow_def)
      then show ?thesis using r' ev cb e1 guard by auto
    qed
  qed
qed

text \<open>The guard compares rates, and a NaN is not above any rate: a patch to NaN needs no override.\<close>

lemma nan_patch_is_not_guarded:
  assumes "\<And>es e. sink es e = None"
  shows "\<exists>r' dt. ApplyPatch sink parse uni r \<lparr>sp_Caps = Some \<lparr>cp_PerTargetRPS = None, cp_GlobalRPS = Some NaN,
        cp_TotalRequestBudget = None\<rparr>, sp_Concurrency = None, sp_Weights = None,
        sp_RotationIntSec = None, sp_TargetsAdd = [], sp_TargetsDisable = []\<rparr> = (r', None)
    \<and> cs_GlobalRPS (pr_caps r') = NaN \<and> pr_events r' = pr_events r @ [patched_event r dt]"
  by (simp add: ApplyPatch_unfold after_caps_def when_given_def patchCaps_def WithPatch_def Let_def
      capsRaised_def finishPatch_def audit_append_def assms) (auto simp: patched_event_def)

section \<open>Weights\<close>

lemma go_gcd_gcd: "go_gcd a b = gcd a b"
proof (induction a b rule: go_gcd.induct)
  case (1 a b)
  then show ?case by (simp add: go_gcd.simps [of a b] gcd_red_nat [of a b])
qed

lemma foldl_gcd: "foldl go_gcd g xs = gcd g (Gcd (set xs))"
  by (induction xs arbitrary: g) (simp_all add: go_gcd_gcd gcd.assoc)

lemma check_weights_None:
  "check_weights known w = None \<longleftrightarrow> list_all (\<lambda>(i, v). i \<in> set known \<and> v \<noteq> 0) w"
  by (induction known w rule: check_weights.induct) auto

lemma Gcd_div:
  fixes xs :: "nat list"
  assumes "g = Gcd (set xs)" "0 < g"
  shows "Gcd (set (map (\<lambda>v. v div g) xs)) = 1"
proof -
  have "set xs = (\<lambda>v. g * v) ` set (map (\<lambda>v. v div g) xs)"
    using assms(1) by (force simp: image_image)
  then have "Gcd (set xs) = Gcd ((\<lambda>v. g * v) ` set (map (\<lambda>v. v div g) xs))" by (rule arg_cong)
  also have "\<dots> = g * Gcd (set (map (\<lambda>v. v div g) xs))" by (simp only: Gcd_mult normalize_nat_def id_apply)
  finally have "g = g * Gcd (set (map (\<lambda>v. v div g) xs))" unfolding assms(1) [symmetric] .
  then show ?thesis using assms(2) mult_eq_self_implies_10 by blast
qed


lemma map_of_other_keys:
  "map_of w i = None \<Longrightarrow> map_of (filter (\<lambda>(i, v). i \<notin> set (map fst w)) cur) i = map_of cur i"
  by (induction cur) (auto simp: map_of_eq_None_iff rev_image_eqI)

lemma map_of_merged:
  "map_of (w @ filter (\<lambda>(i, v). i \<notin> set (map fst w)) cur) i
     = (case map_of w i of Some v \<Rightarrow> Some v | None \<Rightarrow> map_of cur i)"
  using map_of_other_keys [of w i cur] by (cases "map_of w i") (simp_all add: map_add_def)

text \<open>C30. New weights are refused exactly when one names an unknown block or is zero. Otherwise every
  block keeps one weight, the given one or its old one, all divided by one common factor so that
  the weights have no common divisor left.\<close>

theorem weights_are_normalised:
  assumes "cur \<noteq> []" "list_all (\<lambda>(i, v). 0 < v) cur"
  shows "case normalizeWeights cur w of
      Inl e \<Rightarrow> \<not> list_all (\<lambda>(i, v). i \<in> set (map fst cur) \<and> v \<noteq> 0) w
    | Inr out \<Rightarrow> list_all (\<lambda>(i, v). i \<in> set (map fst cur) \<and> v \<noteq> 0) w
        \<and> set (map fst out) = set (map fst cur) \<and> Gcd (set (map snd out)) = 1
        \<and> (\<exists>g > 0. \<forall>i. map_option (\<lambda>v. v * g) (map_of out i)
              = (case map_of w i of Some v \<Rightarrow> Some v | None \<Rightarrow> map_of cur i))"
proof (cases "check_weights (map fst cur) w")
  case (Some e)
  then have "\<not> list_all (\<lambda>(i, v). i \<in> set (map fst cur) \<and> v \<noteq> 0) w"
    using check_weights_None [of "map fst cur" w] by auto
  then show ?thesis using Some by (simp add: normalizeWeights_def)
next
  case None
  then have ok: "list_all (\<lambda>(i, v). i \<in> set (map fst cur) \<and> v \<noteq> 0) w" by (simp add: check_weights_None)
  define out where "out = w @ filter (\<lambda>(i, v). i \<notin> set (map fst w)) cur"
  define g where "g = Gcd (set (map snd out))"
  have keys: "set (map fst out) = set (map fst cur)"
    using ok by (auto simp: out_def list_all_iff image_iff split: prod.splits)
  have pos: "\<forall>v \<in> set (map snd out). 0 < v" using ok assms(2) by (auto simp: out_def list_all_iff)
  have "out \<noteq> []" using keys assms(1) by auto
  then have g0: "0 < g" using pos by (auto simp: g_def Gcd_0_iff neq_Nil_conv)
  have n: "normalizeWeights cur w = Inr (if g > 1 then map (\<lambda>(i, v). (i, v div g)) out else out)"
  proof -
    have "foldl go_gcd 0 (map snd out) = g" by (simp add: foldl_gcd g_def)
    then show ?thesis by (simp only: normalizeWeights_def None option.case Let_def out_def [symmetric])
  qed
  let ?res = "map (\<lambda>(i, v). (i, v div g)) out"
  have same: "(if g > 1 then ?res else out) = ?res"
    using g0 by (cases "g = 1") auto
  have "map snd ?res = map (\<lambda>v. v div g) (map snd out)" by (simp add: comp_def split_def)
  then have "Gcd (set (map snd ?res)) = 1" using Gcd_div [OF g_def g0] by simp
  moreover have "set (map fst ?res) = set (map fst cur)" using keys by (simp add: comp_def split_def image_image)
  moreover have "map_option (\<lambda>v. v * g) (map_of ?res i)
      = (case map_of w i of Some v \<Rightarrow> Some v | None \<Rightarrow> map_of cur i)" for i
  proof -
    have "map_option (\<lambda>v. v * g) (map_of ?res i) = map_option (\<lambda>v. v div g * g) (map_of out i)"
      by (simp add: map_of_map option.map_comp comp_def)
    also have "\<dots> = map_of out i"
    proof (cases "map_of out i")
      case (Some v)
      then have "v \<in> set (map snd out)" by (force dest: map_of_SomeD)
      then have "g dvd v" unfolding g_def by (rule Gcd_dvd)
      then show ?thesis using Some by simp
    qed simp
    finally show ?thesis using map_of_merged by (simp add: out_def)
  qed
  ultimately show ?thesis unfolding n same using ok g0 by auto
qed

theorem weights_are_normalised_witness:
  "normalizeWeights [(''a'', 2), (''b'', 3)] [(''b'', 4)] = Inr [(''b'', 2), (''a'', 1)]
   \<and> (\<exists>g > 0. \<forall>i. map_option (\<lambda>v. v * g) (map_of [(''b'', 2), (''a'', 1)] i)
        = (case map_of [(''b'', 4 :: nat)] i of Some v \<Rightarrow> Some v | None \<Rightarrow> map_of [(''a'', 2), (''b'', 3)] i))"
proof -
  have n: "normalizeWeights [(''a'', 2), (''b'', 3)] [(''b'', 4)] = Inr [(''b'', 2), (''a'', 1)]"
    by (simp add: normalizeWeights_def go_gcd_gcd Let_def)
  have "[(''a'', 2), (''b'', 3 :: nat)] \<noteq> []" "list_all (\<lambda>(i, v). 0 < v) [(''a'', 2), (''b'', 3 :: nat)]"
    by simp_all
  from weights_are_normalised [OF this, of "[(''b'', 4)]", unfolded n sum.case] n show ?thesis by blast
qed

section \<open>Where a patch does not do what it says\<close>

text \<open>A rejected patch is not undone, although the comment on \<open>ApplyPatch\<close> says that nothing is
  mutated on any rejection: a patch that sets the concurrency and then names an unknown target is
  refused without an audit event, and the new limit stays in force.\<close>

theorem rejected_patch_is_not_undone:
  assumes "pr_breakers r x = None" "0 < n"
  shows "\<exists>r' e. ApplyPatch sink parse uni r \<lparr>sp_Caps = None, sp_Concurrency = Some n, sp_Weights = None,
        sp_RotationIntSec = None, sp_TargetsAdd = [], sp_TargetsDisable = [x]\<rparr> = (r', Some e)
    \<and> currentLimit (pr_sem r') = n \<and> pr_events r' = pr_events r"
  using assms
  by (simp add: ApplyPatch_unfold after_caps_def when_given_def patchConcurrency_def currentLimit_def
      sem_setLimit_def)

lemma blockByID_same: "pr_sc r' = pr_sc r \<Longrightarrow> blockByID r' i = blockByID r i"
  by (simp add: blockByID_def)

lemma blockByID_ID: "blockByID r i = Some b \<Longrightarrow> bl_ID b = i"
  by (auto simp: blockByID_def find_Some_iff)

lemma addedTargets_none:
  "blockByID r i = Some b \<Longrightarrow>
     length (filter (shard_of_block i) (co_targetIDs (pr_coll r))) \<le> length (bl_Targets b) \<Longrightarrow> addedTargets r i = 0"
  by (simp add: addedTargets_def Let_def)

lemma addShard_count:
  "length (filter P (co_targetIDs (addShard c t))) \<le> Suc (length (filter P (co_targetIDs c)))"
  by (simp add: addShard_def)

lemma add_one_fresh_breaker:
  assumes "add_one parse uni spec r dt = (r', dt', None)" "blockByID r (tp_BlockID spec) = Some blk"
    and "addedTargets r (bl_ID blk) = 0"
  shows "\<exists>s clk. r' = r\<lparr>pr_selector := s, pr_clk := clk,
      pr_coll := addShard (pr_coll r) (bl_ID blk @ ''/'' @ Itoa (int (length (bl_Targets blk)))),
      pr_breakers := (pr_breakers r)(bl_ID blk @ ''/'' @ Itoa (int (length (bl_Targets blk)))
         \<mapsto> NewBreaker breakerThreshold breakerCooldown)\<rparr>"
  using assms(1)
proof (cases rule: add_one_cases)
  case (refused e)
  then show ?thesis by simp
next
  case (added blk' tid s clk)
  then have "blk' = blk" "tid = bl_ID blk @ ''/'' @ Itoa (int (length (bl_Targets blk)))"
    using assms(2,3) by simp_all
  then show ?thesis using added(5) by blast
qed

text \<open>Identifiers of added targets are not fresh, and a disabled target comes back. While a block
  has fewer than as many \<open>block/n\<close> shards as it has declared targets (at the start it has none),
  a first addition makes a target whose breaker a later patch forces open, and the next addition
  to the block reuses the same identifier and replaces that breaker by a new, closed one.\<close>

theorem added_target_reuses_an_identifier:
  assumes "blockByID r b = Some blk"
    and "length (filter (shard_of_block b) (co_targetIDs (pr_coll r))) < length (bl_Targets blk)"
    and "add_one parse uni spec1 r dt = (r1, dt1, None)" "tp_BlockID spec1 = b"
    and "tid = b @ ''/'' @ Itoa (int (length (bl_Targets blk)))"
    and "patchTargetsDisable [tid] r1 dt1 = (r2, dt2, err)"
    and "add_one parse uni spec2 r2 dt2 = (r3, dt3, None)" "tp_BlockID spec2 = b"
  shows "err = None \<and> map_option State (pr_breakers r2 tid) = Some BreakerOpen
    \<and> map_option State (pr_breakers r3 tid) = Some BreakerClosed"
proof -
  have i: "bl_ID blk = b" using blockByID_ID [OF assms(1)] .
  have z: "addedTargets r b = 0" using addedTargets_none [OF assms(1)] assms(2) by simp
  obtain s clk where r1: "r1 = r\<lparr>pr_selector := s, pr_clk := clk, pr_coll := addShard (pr_coll r) tid,
               pr_breakers := (pr_breakers r)(tid \<mapsto> NewBreaker breakerThreshold breakerCooldown)\<rparr>"
    using add_one_fresh_breaker [OF assms(3), of blk] assms(1,4,5) z i by auto
  obtain b' clk' where f: "ForceOpen (pr_clk r1) (NewBreaker breakerThreshold breakerCooldown) = (b', clk')"
    by (cases "ForceOpen (pr_clk r1) (NewBreaker breakerThreshold breakerCooldown)")
  have r2: "err = None" "r2 = r1\<lparr>pr_breakers := (pr_breakers r1)(tid \<mapsto> b'), pr_clk := clk'\<rparr>"
    using assms(6) r1 f by simp_all
  have b': "br_state b' = BreakerOpen"
    using f by (auto simp: ForceOpen_def open_breaker_def split: prod.splits)
  have blk2: "blockByID r2 b = Some blk" using assms(1) r1 r2 blockByID_same [of r2 r] by simp
  have "length (filter (shard_of_block b) (co_targetIDs (pr_coll r2))) \<le> length (bl_Targets blk)"
    using addShard_count [of "shard_of_block b" "pr_coll r" tid] assms(2) r1 r2 by simp
  then have z2: "addedTargets r2 b = 0" using addedTargets_none [OF blk2] by simp
  have "\<exists>s clk. r3 = r2\<lparr>pr_selector := s, pr_clk := clk, pr_coll := addShard (pr_coll r2) tid,
               pr_breakers := (pr_breakers r2)(tid \<mapsto> NewBreaker breakerThreshold breakerCooldown)\<rparr>"
    using add_one_fresh_breaker [OF assms(7), of blk] blk2 assms(5,8) z2 i by simp
  then have "pr_breakers r3 tid = Some (NewBreaker breakerThreshold breakerCooldown)" by auto
  moreover have "pr_breakers r2 tid = Some b'" using r2(2) by simp
  ultimately show ?thesis using r2(1) b' by (simp add: State_def NewBreaker_def)
qed


section \<open>Concrete patches\<close>

definition demo_block :: "unit Block" where
  "demo_block = \<lparr>bl_ID = ''b'', bl_Protocol = ProtoHTTP, bl_Targets = [demo_target ''h''],
     bl_Rotation = RotationSequential, bl_RotationInterval = 0, bl_AllowInsecure = False,
     bl_AllowInsecureReason = '''', bl_Persona = None, bl_Concurrency = 1, bl_Duration = second,
     bl_Weight = 1, bl_Ramp = \<lparr>rp_Up = 0, rp_StartConcurrency = 0\<rparr>\<rparr>"

definition demo_caps :: CapSpec where
  "demo_caps = \<lparr>cs_PerTargetRPS = Fin 1, cs_GlobalRPS = Fin 1, cs_MaxConcurrentSessions = 1,
     cs_TotalRequestBudget = 1, cs_StreamingByteRateKbps = 0, cs_ConcurrentStreams = 0,
     cs_PerSessionMaxDurationSeconds = 0, cs_PerSessionMaxActions = 0\<rparr>"

definition demo_scenario :: "(unit, unit) Scenario" where
  "demo_scenario = \<lparr>sc_Name = ''s'', sc_Description = '''', sc_AllowedDomains = [''h''], sc_AgentCount = 1,
     sc_Caps = demo_caps, sc_Ceiling = DefaultCeiling, sc_CapOverride = False,
     sc_Execution = \<lparr>ex_Mode = ExecParallel, ex_StopOnError = False\<rparr>, sc_Blocks = [demo_block],
     sc_Targets = \<lparr>ts_byProto = \<lambda>_. [], ts_allowed = Some {''h''}\<rparr>,
     sc_WeightBasis = WeightByVuserPopulation, sc_Schedule = \<lparr>sd_Loc = None, sd_Windows = []\<rparr>\<rparr>"

definition demo_run :: "bool \<Rightarrow> (unit, unit) patch_run" where
  "demo_run override = \<lparr>pr_id = ''r'', pr_agentID = ''a'', pr_sc = demo_scenario, pr_caps = demo_caps,
     pr_capOverride = override, pr_weights = [(''b'', 1)], pr_sem = newSemaphore 1,
     pr_selector = demo_selector 0 0, pr_coll = newCollector [''h''], pr_breakers = [''h'' \<mapsto> NewBreaker 5 30],
     pr_events = [], pr_clk = \<lambda>_. 0\<rparr>"

definition plain_parse :: url_parse where
  "plain_parse a = Some ('''', '''', a)"

definition no_patch :: ScenarioPatch where
  "no_patch = \<lparr>sp_Caps = None, sp_Concurrency = None, sp_Weights = None, sp_RotationIntSec = None,
     sp_TargetsAdd = [], sp_TargetsDisable = []\<rparr>"

definition budget_up :: CapPatch where
  "budget_up = \<lparr>cp_PerTargetRPS = None, cp_GlobalRPS = None, cp_TotalRequestBudget = Some 2\<rparr>"

theorem patch_is_guarded_and_audited_witness:
  "\<exists>r' dt. ApplyPatch (\<lambda>_ _. None) plain_parse (\<lambda>x. x) (demo_run True) (no_patch\<lparr>sp_Caps := Some budget_up\<rparr>)
        = (r', None)
     \<and> cs_TotalRequestBudget (pr_caps r') = 2 \<and> cs_GlobalRPS (pr_caps r') = Fin 1
     \<and> pr_events r' = [override_event (demo_run True), patched_event (demo_run True) dt]"
proof -
  have up: "capsRaised demo_caps (WithPatch demo_caps budget_up)" "pr_caps (demo_run True) = demo_caps"
    "pr_capOverride (demo_run True)" "pr_events (demo_run True) = []"
    by (simp_all add: capsRaised_def WithPatch_def budget_up_def demo_caps_def demo_run_def Let_def)
  let ?p = "no_patch\<lparr>sp_Caps := Some budget_up\<rparr>"
  obtain r' where a: "ApplyPatch (\<lambda>_ _. None) plain_parse (\<lambda>x. x) (demo_run True) ?p = (r', None)"
    by (simp add: ApplyPatch_unfold after_caps_def when_given_def patchCaps_def audit_append_def no_patch_def
        finishPatch_def Let_def up)
  note g = patch_is_guarded_and_audited [OF a]
  have o: "overlaid (sp_Caps ?p) demo_caps (pr_caps r')" using g up by simp
  then have v: "cs_TotalRequestBudget (pr_caps r') = 2" "cs_GlobalRPS (pr_caps r') = Fin 1"
    by (simp_all add: overlaid_def given_or_def no_patch_def budget_up_def demo_caps_def)
  then have "loosened demo_caps (pr_caps r')" by (simp add: loosened_def demo_caps_def)
  then show ?thesis using g a up v by auto
qed

theorem rejected_patch_is_not_undone_witness:
  "\<exists>r' e. ApplyPatch (\<lambda>_ _. None) plain_parse (\<lambda>x. x) (demo_run False)
       \<lparr>sp_Caps = None, sp_Concurrency = Some 7, sp_Weights = None, sp_RotationIntSec = None,
        sp_TargetsAdd = [], sp_TargetsDisable = [''nobody'']\<rparr> = (r', Some e)
     \<and> currentLimit (pr_sem r') = 7 \<and> currentLimit (pr_sem (demo_run False)) = 1"
proof -
  have "pr_breakers (demo_run False) ''nobody'' = None" by (simp add: demo_run_def)
  from rejected_patch_is_not_undone [OF this, of 7 "\<lambda>_ _. None" plain_parse "\<lambda>x. x"] show ?thesis
    by (auto simp: demo_run_def currentLimit_def newSemaphore_def)
qed

lemma host_h: "normalizeHost (\<lambda>x. x) ''h'' = ''h''"
  by code_simp

lemma demo_add:
  "pr_sc r = demo_scenario \<Longrightarrow>
     \<exists>r' dt'. add_one plain_parse (\<lambda>x. x) \<lparr>tp_BlockID = ''b'', tp_Addr = ''h''\<rparr> r dt = (r', dt', None)"
  by (simp add: add_one_def blockByID_def demo_scenario_def demo_block_def structuralCheck_def plain_parse_def
      hostOf_def Permits_def hostAllow_permits_def host_h Let_def split: prod.splits)

lemma demo_no_shards:
  "blockByID (demo_run o') ''b'' = Some demo_block"
  "filter (shard_of_block ''b'') (co_targetIDs (pr_coll (demo_run o'))) = []"
  "pr_sc (demo_run o') = demo_scenario" "bl_Targets demo_block = [demo_target ''h'']"
  by (simp_all add: demo_run_def demo_scenario_def demo_block_def blockByID_def newCollector_def shard_of_block_def)

theorem added_target_reuses_an_identifier_witness:
  "\<exists>r1 dt1 r2 dt2 r3 dt3.
      add_one plain_parse (\<lambda>x. x) \<lparr>tp_BlockID = ''b'', tp_Addr = ''h''\<rparr> (demo_run False) Map.empty = (r1, dt1, None)
    \<and> patchTargetsDisable [''b/1''] r1 dt1 = (r2, dt2, None)
    \<and> add_one plain_parse (\<lambda>x. x) \<lparr>tp_BlockID = ''b'', tp_Addr = ''h''\<rparr> r2 dt2 = (r3, dt3, None)
    \<and> map_option State (pr_breakers r2 ''b/1'') = Some BreakerOpen
    \<and> map_option State (pr_breakers r3 ''b/1'') = Some BreakerClosed"
proof -
  let ?spec = "\<lparr>tp_BlockID = ''b'', tp_Addr = ''h''\<rparr>"
  obtain r1 dt1 where 1: "add_one plain_parse (\<lambda>x. x) ?spec (demo_run False) Map.empty = (r1, dt1, None)"
    using demo_add [OF demo_no_shards(3)] by blast
  obtain r2 dt2 e where 2: "patchTargetsDisable [''b/1''] r1 dt1 = (r2, dt2, e)"
    by (cases "patchTargetsDisable [''b/1''] r1 dt1")
  have "pr_sc r2 = demo_scenario"
    using add_one_ok [OF 1] patchTargetsDisable_ok [OF 2, of plain_parse "\<lambda>x. x"] demo_no_shards(3)
    by (simp add: branch_ok_def same_run_def)
  then obtain r3 dt3 where 3: "add_one plain_parse (\<lambda>x. x) ?spec r2 dt2 = (r3, dt3, None)"
    using demo_add by blast
  have tid: "''b/1'' = ''b'' @ ''/'' @ Itoa (int (length (bl_Targets demo_block)))"
    unfolding demo_no_shards(4) by code_simp
  from added_target_reuses_an_identifier [OF demo_no_shards(1) _ 1 _ tid 2 3] 1 2 3 show ?thesis
    by (auto simp: demo_no_shards)
qed

end
