(* ===== verification/GoParse.thy ===== *)
theory GoParse
  imports GoStrings Float64
begin

text \<open>
  The parsers of the Go standard library that validation relies on, over byte strings:
  \<open>time.ParseDuration\<close>, \<open>net.ParseIP\<close> (whether it accepts) and \<open>net.SplitHostPort\<close>. They follow
  the library's own loops; unsigned 64-bit sums wrap.
\<close>

section \<open>Durations\<close>

text \<open>An error of \<open>ParseDuration\<close> is kept by its form; the quoted text is added by whoever renders it.\<close>

datatype dur_error = InvalidDuration | MissingUnit | UnknownUnit string

fun leadingInt :: "int \<Rightarrow> string \<Rightarrow> (int \<times> string) option" where
  "leadingInt x [] = Some (x, [])"
| "leadingInt x (c # cs) =
     (if \<not> is_digit c then Some (x, c # cs)
      else if x > 2 ^ 63 div 10 then None
      else let y = x * 10 + int (digit_val c)
           in if y > 2 ^ 63 then None else leadingInt y cs)"

fun leadingFraction :: "int \<Rightarrow> f64 \<Rightarrow> bool \<Rightarrow> string \<Rightarrow> int \<times> f64 \<times> string" where
  "leadingFraction x scale ovf [] = (x, scale, [])"
| "leadingFraction x scale ovf (c # cs) =
     (if \<not> is_digit c then (x, scale, c # cs)
      else if ovf then leadingFraction x scale True cs
      else if x > (2 ^ 63 - 1) div 10 then leadingFraction x scale True cs
      else let y = x * 10 + int (digit_val c)
           in if y > 2 ^ 63 then leadingFraction x scale True cs
              else leadingFraction y (f_mul scale (Fin 10)) False cs)"

definition micro_sign :: string where "micro_sign = [CHR 0xC2, CHR 0xB5]"
definition greek_mu :: string where "greek_mu = [CHR 0xCE, CHR 0xBC]"

definition unitMap :: "string \<Rightarrow> int option" where
  "unitMap = map_of
     [(''ns'', nanosecond), (''us'', microsecond), (micro_sign @ ''s'', microsecond),
      (greek_mu @ ''s'', microsecond), (''ms'', millisecond), (''s'', second), (''m'', minute),
      (''h'', hour)]"

definition unit_byte :: "char \<Rightarrow> bool" where
  "unit_byte c \<longleftrightarrow> c \<noteq> CHR ''.'' \<and> \<not> is_digit c"

text \<open>The unit that follows the number \<open>v\<close> with fraction \<open>f / scale\<close>, and the scaled value.\<close>

definition with_unit :: "(f64 \<Rightarrow> int) \<Rightarrow> int \<Rightarrow> int \<Rightarrow> f64 \<Rightarrow> string \<Rightarrow> dur_error + int \<times> string" where
  "with_unit oor v f scale s =
     (let u = takeWhile unit_byte s; rest = drop (length u) s
      in if u = [] then Inl MissingUnit
         else case unitMap u of
           None \<Rightarrow> Inl (UnknownUnit u)
         | Some unit \<Rightarrow>
             if v > 2 ^ 63 div unit then Inl InvalidDuration
             else let v1 = v * unit;
                      v2 = (if f > 0 then u64 (v1 + f_to_u64 oor (f_mul (f64_of_int f)
                              (f_div (f64_of_int unit) scale))) else v1)
                  in if f > 0 \<and> v2 > 2 ^ 63 then Inl InvalidDuration else Inr (v2, rest))"

text \<open>One number with its unit.\<close>

definition component :: "(f64 \<Rightarrow> int) \<Rightarrow> string \<Rightarrow> dur_error + int \<times> string" where
  "component oor s =
     (if s = [] \<or> \<not> (hd s = CHR ''.'' \<or> is_digit (hd s)) then Inl InvalidDuration
      else case leadingInt 0 s of
        None \<Rightarrow> Inl InvalidDuration
      | Some (v, s1) \<Rightarrow>
          (let pre = (length s \<noteq> length s1) in
           if s1 \<noteq> [] \<and> hd s1 = CHR ''.''
           then (case leadingFraction 0 (Fin 1) False (tl s1) of
                   (f, scale, s2) \<Rightarrow>
                     if \<not> pre \<and> length (tl s1) = length s2 then Inl InvalidDuration
                     else with_unit oor v f scale s2)
           else if \<not> pre then Inl InvalidDuration
           else with_unit oor v 0 (Fin 1) s1))"

lemma leadingInt_rest: "leadingInt x s = Some (v, t) \<Longrightarrow> length t \<le> length s"
  by (induction x s rule: leadingInt.induct) (fastforce split: if_splits simp: Let_def)+

lemma leadingFraction_rest: "leadingFraction x sc ovf s = (f, sc', t) \<Longrightarrow> length t \<le> length s"
  by (induction x sc ovf s rule: leadingFraction.induct) (fastforce split: if_splits simp: Let_def)+

lemma with_unit_rest: "with_unit oor v f sc s = Inr (d, t) \<Longrightarrow> length t < length s"
  by (cases s) (auto simp: with_unit_def Let_def split: if_splits option.splits)

lemma component_shorter: "component oor s = Inr (v, t) \<Longrightarrow> length t < length s"
  by (fastforce simp: component_def Let_def split: if_splits option.splits prod.splits
      dest: leadingInt_rest leadingFraction_rest with_unit_rest)

function components :: "(f64 \<Rightarrow> int) \<Rightarrow> int \<Rightarrow> string \<Rightarrow> dur_error + int" where
  "components oor d s =
     (if s = [] then Inr d
      else case component oor s of
        Inl e \<Rightarrow> Inl e
      | Inr (v, t) \<Rightarrow>
          (let d' = u64 (d + v) in if d' > 2 ^ 63 then Inl InvalidDuration else components oor d' t))"
  by pat_completeness auto
termination
  by (relation "measure (\<lambda>(oor, d, s). length s)") (auto dest: component_shorter)

declare components.simps [simp del]

definition ParseDuration :: "(f64 \<Rightarrow> int) \<Rightarrow> string \<Rightarrow> dur_error + duration" where
  "ParseDuration oor orig =
     (let neg = HasPrefix orig ''-'';
          s = (if neg \<or> HasPrefix orig ''+'' then tl orig else orig)
      in if s = ''0'' then Inr 0
         else if s = [] then Inl InvalidDuration
         else case components oor 0 s of
           Inl e \<Rightarrow> Inl e
         | Inr d \<Rightarrow> if neg then Inr (i64 (- d))
                    else if d > 2 ^ 63 - 1 then Inl InvalidDuration else Inr d)"

section \<open>IP literals\<close>

definition ipv4_field :: "string \<Rightarrow> bool" where
  "ipv4_field d \<longleftrightarrow> d \<noteq> [] \<and> list_all is_digit d \<and> (length d = 1 \<or> hd d \<noteq> CHR ''0'') \<and> digits_val d \<le> 255"

definition ipv4_ok :: "string \<Rightarrow> bool" where
  "ipv4_ok s \<longleftrightarrow> length (SplitByte s (CHR ''.'')) = 4 \<and> list_all ipv4_field (SplitByte s (CHR ''.''))"

definition is_hex :: "char \<Rightarrow> bool" where
  "is_hex c \<longleftrightarrow> (let n = of_char c :: nat in is_digit c \<or> 97 \<le> n \<and> n \<le> 102 \<or> 65 \<le> n \<and> n \<le> 70)"

text \<open>The end of the loop: groups are left over exactly when there was an ellipsis.\<close>

definition ipv6_end :: "nat \<Rightarrow> bool \<Rightarrow> bool" where
  "ipv6_end left ell \<longleftrightarrow> (if left > 0 then ell else \<not> ell)"

text \<open>The loop over the 16-bit groups, \<open>n\<close> of them left, \<open>ell\<close> once \<open>::\<close> was seen.\<close>

fun ipv6_groups :: "nat \<Rightarrow> bool \<Rightarrow> string \<Rightarrow> bool" where
  "ipv6_groups 0 ell s = (s = [] \<and> ipv6_end 0 ell)"
| "ipv6_groups (Suc n) ell s =
     (let off = length (takeWhile is_hex s); t = drop off s
      in if off > 4 \<or> off = 0 then False
         else if t \<noteq> [] \<and> hd t = CHR ''.''
         then (ell \<or> Suc n = 2) \<and> Suc n \<ge> 2 \<and> ipv4_ok s \<and> ipv6_end (Suc n - 2) ell
         else if t = [] then ipv6_end n ell
         else if hd t \<noteq> CHR '':'' \<or> length t = 1 then False
         else if hd (tl t) = CHR '':''
         then \<not> ell \<and> (if tl (tl t) = [] then ipv6_end n True else ipv6_groups n True (tl (tl t)))
         else ipv6_groups n ell (tl t))"

definition ipv6_ok :: "string \<Rightarrow> bool" where
  "ipv6_ok s =
     (if HasPrefix s ''::'' then drop 2 s = [] \<or> ipv6_groups 8 True (drop 2 s)
      else ipv6_groups 8 False s)"

text \<open>Whether \<open>net.ParseIP\<close> answers an address; one with a zone is not an answer.\<close>

definition ParseIP_ok :: "string \<Rightarrow> bool" where
  "ParseIP_ok s =
     (case List.find (\<lambda>c. c = CHR ''.'' \<or> c = CHR '':'' \<or> c = CHR ''%'') s of
        None \<Rightarrow> False
      | Some c \<Rightarrow> if c = CHR ''.'' then ipv4_ok s
                  else if c = CHR '':'' then CHR ''%'' \<notin> set s \<and> ipv6_ok s else False)"

section \<open>Host and port\<close>

text \<open>\<open>net.SplitHostPort\<close>; None is its error.\<close>

definition SplitHostPort :: "string \<Rightarrow> (string \<times> string) option" where
  "SplitHostPort hp =
     (case LastIndexByte hp (CHR '':'') of
        None \<Rightarrow> None
      | Some i \<Rightarrow>
          let port = drop (i + 1) hp
          in if HasPrefix hp ''[''
             then (case IndexByte hp (CHR '']'') of
                     None \<Rightarrow> None
                   | Some e \<Rightarrow>
                       if e + 1 \<noteq> i then None
                       else if CHR ''['' \<in> set (drop 1 hp) \<or> CHR '']'' \<in> set (drop (e + 1) hp) then None
                       else Some (drop 1 (take e hp), port))
             else if CHR '':'' \<in> set (take i hp) \<or> CHR ''['' \<in> set hp \<or> CHR '']'' \<in> set hp then None
             else Some (take i hp, port))"

section \<open>Facts\<close>

lemma foldl_digits_mono: "a \<le> b \<Longrightarrow>
    foldl (\<lambda>acc c. 10 * acc + digit_val c) a s \<le> foldl (\<lambda>acc c. 10 * acc + digit_val c) b s"
  by (induction s arbitrary: a b) simp_all

lemma foldl_digits_ge: "(a::nat) \<le> foldl (\<lambda>acc c. 10 * acc + digit_val c) a s"
proof (induction s arbitrary: a)
  case (Cons c s)
  show ?case using Cons [of "10 * a + digit_val c"] by simp
qed simp

lemma leadingInt_digits:
  assumes "list_all is_digit ds" "rest = [] \<or> \<not> is_digit (hd rest)"
  shows "leadingInt (int x) (ds @ rest) =
    (let v = foldl (\<lambda>acc c. 10 * acc + digit_val c) x ds
     in if ds \<noteq> [] \<and> v > 2 ^ 63 then None else Some (int v, rest))"
  using assms(1)
proof (induction ds arbitrary: x)
  case Nil
  then show ?case using assms(2) by (cases rest) simp_all
next
  case (Cons c ds)
  let ?y = "10 * x + digit_val c"
  let ?v = "foldl (\<lambda>acc c. 10 * acc + digit_val c) ?y ds"
  have ge: "?y \<le> ?v" by (rule foldl_digits_ge)
  have y: "int x * 10 + int (digit_val c) = int ?y" by simp
  show ?case
  proof (cases "?y > 2 ^ 63")
    case True
    then have "?v > 2 ^ 63" using ge by linarith
    then show ?thesis using Cons.prems True by (simp add: Let_def del: foldl_Cons) simp
  next
    case False
    then have "\<not> int x > 2 ^ 63 div 10" by simp
    then show ?thesis using Cons.prems False Cons.IH [of ?y] unfolding append_Cons leadingInt.simps y
      by (auto simp: Let_def)
  qed
qed

lemma leadingInt_digits10:
  "rest = [] \<or> \<not> is_digit (hd rest) \<Longrightarrow>
   leadingInt 0 (digits10 n @ rest) = (if n > 2 ^ 63 then None else Some (int n, rest))"
  using leadingInt_digits [OF digits10_digits, of rest 0 n]
  by (simp add: digits_val_digits10 [unfolded digits_val_def] digits10_nonempty)

end
