(* ===== verification/Persona.thy ===== *)
theory Persona
  imports GoParse Session
begin

text \<open>
  Personas (\<open>internal/persona\<close>): the on-disk shape (\<open>raw.go\<close>), the decoders of its parts
  (\<open>decode.go\<close>), the aggregating compiler (\<open>validate.go\<close>), the built-in library
  (\<open>load.go\<close>) and the frozen persona with its session specification (\<open>persona.go\<close>).

  A failed decoder answers the text of its error. What the decoders take from outside is one
  record of parameters: the quoting of text in messages, the zone database, the rendering of
  the errors of \<open>internal/behavior\<close>, and the decoded embedded fingerprint table.
\<close>

section \<open>Data\<close>

record RawDist =
  rd_Kind :: string
  rd_D :: string
  rd_Min :: string
  rd_Max :: string
  rd_Mean :: string
  rd_StdDev :: string
  rd_Mu :: f64
  rd_Sigma :: f64
  rd_Scale :: string

record RawJitter =
  rj_Kind :: string
  rj_Fraction :: f64

record RawBurst =
  rbu_Active :: RawDist
  rbu_Idle :: RawDist

record RawCurve =
  rcv_Location :: string
  rcv_Weekday :: "f64 list"
  rcv_Weekend :: "f64 list"

record RawShape =
  rs_Length :: RawDist
  rs_InterTask :: RawDist
  rs_Abandon :: f64

record RawTemplate =
  rm_Protocol :: string
  rm_Verb :: string
  rm_Cause :: string
  rm_Pacing :: string
  rm_Weight :: f64

record RawPersona =
  rp_Name :: string
  rp_ThinkTime :: RawDist
  rp_Jitter :: RawJitter
  rp_Burst :: RawBurst
  rp_TimeOfDay :: RawCurve
  rp_Session :: RawShape
  rp_Mix :: "RawTemplate list"
  rp_Fingerprints :: string

text \<open>An interface field is None while it is nil.\<close>

record 'loc Persona =
  pn_Name :: string
  pn_Mix :: TemplateMix
  pn_ThinkTime :: "Distribution option"
  pn_Jitter :: "JitterModel option"
  pn_Burst :: "BurstModel option"
  pn_TimeOfDay :: "'loc TimeOfDayShaper option"
  pn_Prints :: "staticPool option"
  pn_Shape :: SessionShape
  pn_Bounds :: BranchBounds

text \<open>\<open>ToSpec\<close>; None is the panic of cloning a nil burst model.\<close>

definition ToSpec :: "'loc Persona \<Rightarrow> 'loc SessionSpec option" where
  "ToSpec p =
     (case pn_Burst p of
        None \<Rightarrow> None
      | Some b \<Rightarrow> Some \<lparr>sp_Mix = pn_Mix p, sp_ThinkTime = pn_ThinkTime p, sp_Jitter = pn_Jitter p,
          sp_Burst = Some (Burst_Clone b), sp_TimeOfDay = pn_TimeOfDay p, sp_Prints = pn_Prints p,
          sp_Shape = pn_Shape p, sp_Bounds = pn_Bounds p\<rparr>)"

record 'loc PLib =
  pl_oor :: "f64 \<Rightarrow> int"
  pl_Quote :: "string \<Rightarrow> string"
  pl_timeQuote :: "string \<Rightarrow> string"
  pl_LoadLocation :: "string \<Rightarrow> string + 'loc"
  pl_mixText :: "mix_error \<Rightarrow> string"
  pl_fpText :: "fp_error \<Rightarrow> string"
  pl_embedded :: "Fingerprint list option"

section \<open>Decoders\<close>

fun dur_text :: "(string \<Rightarrow> string) \<Rightarrow> string \<Rightarrow> dur_error \<Rightarrow> string" where
  "dur_text tq orig InvalidDuration = ''time: invalid duration '' @ tq orig"
| "dur_text tq orig MissingUnit = ''time: missing unit in duration '' @ tq orig"
| "dur_text tq orig (UnknownUnit u) = ''time: unknown unit '' @ tq u @ '' in duration '' @ tq orig"

text \<open>\<open>fmt.Errorf("name: %w", err)\<close> around a failed part.\<close>

definition named :: "string \<Rightarrow> string + 'a \<Rightarrow> string + 'a" where
  "named name r = (case r of Inl e \<Rightarrow> Inl (name @ '': '' @ e) | Inr x \<Rightarrow> Inr x)"

definition parseDur :: "'loc PLib \<Rightarrow> string \<Rightarrow> string + duration" where
  "parseDur L s =
     (if s = '''' then Inl ''missing duration''
      else case ParseDuration (pl_oor L) s of
             Inl e \<Rightarrow> Inl (dur_text (pl_timeQuote L) s e) | Inr d \<Rightarrow> Inr d)"

definition parseConstant :: "'loc PLib \<Rightarrow> RawDist \<Rightarrow> string + Distribution" where
  "parseConstant L rd =
     (case named ''d'' (parseDur L (rd_D rd)) of Inl e \<Rightarrow> Inl e | Inr d \<Rightarrow>
      if d < 0 then Inl ''d must be >= 0'' else Inr (Constant d))"

definition parseUniform :: "'loc PLib \<Rightarrow> RawDist \<Rightarrow> string + Distribution" where
  "parseUniform L rd =
     (case named ''min'' (parseDur L (rd_Min rd)) of Inl e \<Rightarrow> Inl e | Inr mn \<Rightarrow>
      case named ''max'' (parseDur L (rd_Max rd)) of Inl e \<Rightarrow> Inl e | Inr mx \<Rightarrow>
      if mn < 0 then Inl ''min must be >= 0''
      else if mx < mn then Inl ''max must be >= min''
      else Inr (Uniform mn mx))"

definition parseNormal :: "'loc PLib \<Rightarrow> RawDist \<Rightarrow> string + Distribution" where
  "parseNormal L rd =
     (case named ''mean'' (parseDur L (rd_Mean rd)) of Inl e \<Rightarrow> Inl e | Inr mean \<Rightarrow>
      case named ''stddev'' (parseDur L (rd_StdDev rd)) of Inl e \<Rightarrow> Inl e | Inr std \<Rightarrow>
      case named ''min'' (parseDur L (rd_Min rd)) of Inl e \<Rightarrow> Inl e | Inr mn \<Rightarrow>
      case named ''max'' (parseDur L (rd_Max rd)) of Inl e \<Rightarrow> Inl e | Inr mx \<Rightarrow>
      if mean < 0 then Inl ''mean must be >= 0''
      else if std < 0 then Inl ''stddev must be >= 0''
      else if mn < 0 then Inl ''min must be >= 0''
      else if mx < mn then Inl ''max must be >= min''
      else Inr (Normal mean std mn mx))"

definition parseLogNormal :: "'loc PLib \<Rightarrow> RawDist \<Rightarrow> string + Distribution" where
  "parseLogNormal L rd =
     (case named ''scale'' (parseDur L (rd_Scale rd)) of Inl e \<Rightarrow> Inl e | Inr scale \<Rightarrow>
      if f_lt (rd_Sigma rd) (Fin 0) then Inl ''sigma must be >= 0''
      else if scale < 0 then Inl ''scale must be >= 0''
      else Inr (LogNormal (rd_Mu rd) (rd_Sigma rd) scale))"

definition parseExponential :: "'loc PLib \<Rightarrow> RawDist \<Rightarrow> string + Distribution" where
  "parseExponential L rd =
     (case named ''mean'' (parseDur L (rd_Mean rd)) of Inl e \<Rightarrow> Inl e | Inr mean \<Rightarrow>
      if mean \<le> 0 then Inl ''mean must be > 0'' else Inr (Exponential mean))"

definition parseDist :: "'loc PLib \<Rightarrow> RawDist \<Rightarrow> string + Distribution" where
  "parseDist L rd =
     (if rd_Kind rd = ''constant'' then parseConstant L rd
      else if rd_Kind rd = ''uniform'' then parseUniform L rd
      else if rd_Kind rd = ''normal'' then parseNormal L rd
      else if rd_Kind rd = ''lognormal'' then parseLogNormal L rd
      else if rd_Kind rd = ''exponential'' then parseExponential L rd
      else if rd_Kind rd = '''' then Inl ''kind is required''
      else Inl (''unknown kind '' @ pl_Quote L (rd_Kind rd)))"

definition parseJitter :: "'loc PLib \<Rightarrow> RawJitter \<Rightarrow> string + JitterModel" where
  "parseJitter L rj =
     (if rj_Kind rj = '''' \<or> rj_Kind rj = ''none'' then Inr NoJitter
      else if rj_Kind rj = ''proportional''
      then (if f_lt (rj_Fraction rj) (Fin 0) \<or> f_lt (Fin 1) (rj_Fraction rj)
            then Inl ''fraction must be in [0,1]''
            else Inr (ProportionalJitter (rj_Fraction rj)))
      else Inl (''unknown jitter kind '' @ pl_Quote L (rj_Kind rj)))"

definition parseBurst :: "'loc PLib \<Rightarrow> RawBurst \<Rightarrow> string + BurstModel" where
  "parseBurst L rb =
     (if rd_Kind (rbu_Active rb) = '''' \<and> rd_Kind (rbu_Idle rb) = '''' then Inr AlwaysActive
      else case named ''active'' (parseDist L (rbu_Active rb)) of Inl e \<Rightarrow> Inl e | Inr active \<Rightarrow>
           case named ''idle'' (parseDist L (rbu_Idle rb)) of Inl e \<Rightarrow> Inl e | Inr idl \<Rightarrow>
           Inr (Renewal (NewRenewalBurst active idl)))"

text \<open>The index of the first entry outside \<open>[0,1]\<close>.\<close>

fun out_of_unit :: "nat \<Rightarrow> f64 list \<Rightarrow> nat option" where
  "out_of_unit i [] = None"
| "out_of_unit i (v # vs) = (if f_lt v (Fin 0) \<or> f_lt (Fin 1) v then Some i else out_of_unit (Suc i) vs)"

definition parseCurve :: "'loc PLib \<Rightarrow> RawCurve \<Rightarrow> string + 'loc TimeOfDayShaper" where
  "parseCurve L rc =
     (if rcv_Location rc = '''' \<and> length (rcv_Weekday rc) = 0 \<and> length (rcv_Weekend rc) = 0
      then Inr FlatTimeOfDay
      else if rcv_Location rc = '''' then Inl ''location is required when weekday or weekend curves are provided''
      else case named ''location'' (pl_LoadLocation L (rcv_Location rc)) of Inl e \<Rightarrow> Inl e | Inr loc \<Rightarrow>
      if length (rcv_Weekday rc) \<noteq> 24
      then Inl (''weekday must have 24 entries, got '' @ Itoa (int (length (rcv_Weekday rc))))
      else if length (rcv_Weekend rc) \<noteq> 24
      then Inl (''weekend must have 24 entries, got '' @ Itoa (int (length (rcv_Weekend rc))))
      else case out_of_unit 0 (rcv_Weekday rc) of
             Some i \<Rightarrow> Inl (''weekday['' @ Itoa (int i) @ ''] must be in [0,1]'')
           | None \<Rightarrow>
             (case out_of_unit 0 (rcv_Weekend rc) of
                Some i \<Rightarrow> Inl (''weekend['' @ Itoa (int i) @ ''] must be in [0,1]'')
              | None \<Rightarrow> Inr (PiecewiseCurve (Some loc) (rcv_Weekday rc) (rcv_Weekend rc))))"

definition persona_parseProtocol :: "string \<Rightarrow> ProtocolID \<times> bool" where
  "persona_parseProtocol s = (s, IsKnownProtocol s)"

text \<open>On an unknown text the parsers answer the numeric zero, which is the first constant.\<close>

definition parseCause :: "string \<Rightarrow> Cause \<times> bool" where
  "parseCause s =
     (if s = '''' \<or> s = ''navigation'' then (CauseNavigation, True)
      else if s = ''sub-resource'' then (CauseSubResource, True)
      else if s = ''background'' then (CauseBackground, True)
      else if s = ''control'' then (CauseControl, True)
      else (CauseNavigation, False))"

definition parsePacing :: "string \<Rightarrow> PacingMode \<times> bool" where
  "parsePacing s =
     (if s = '''' \<or> s = ''shaper-managed'' then (PacingShaperManaged, True)
      else if s = ''self-paced'' then (PacingSelfPaced, True)
      else (PacingShaperManaged, False))"

definition verb_char :: "char \<Rightarrow> bool" where
  "verb_char c \<longleftrightarrow> (let n = of_char c :: nat in 97 \<le> n \<and> n \<le> 122 \<or> is_digit c \<or> c = CHR ''-'')"

definition validVerb :: "string \<Rightarrow> bool" where
  "validVerb s \<longleftrightarrow> s \<noteq> '''' \<and> list_all verb_char s"

section \<open>The compiler\<close>

type_synonym accumulator = "FieldError list"

definition acc_add :: "accumulator \<Rightarrow> string \<Rightarrow> string \<Rightarrow> accumulator" where
  "acc_add acc field msg = acc @ [\<lparr>fe_Field = field, fe_Msg = msg\<rparr>]"

text \<open>\<open>if x, err := ...; err != nil { acc.add(...) } else { p.F = x }\<close>.\<close>

definition take_part :: "accumulator \<Rightarrow> string \<Rightarrow> string + 'a \<Rightarrow> accumulator \<times> 'a option" where
  "take_part acc field r =
     (case r of Inl e \<Rightarrow> (acc_add acc field e, None) | Inr x \<Rightarrow> (acc, Some x))"

definition compileShape :: "'loc PLib \<Rightarrow> accumulator \<Rightarrow> RawShape \<Rightarrow> accumulator \<times> SessionShape" where
  "compileShape L acc rs =
     (case (if rd_Kind (rs_Length rs) \<noteq> ''''
            then take_part acc ''session.length'' (parseDist L (rs_Length rs)) else (acc, None)) of (acc1, len) \<Rightarrow>
      case (if rd_Kind (rs_InterTask rs) \<noteq> ''''
            then take_part acc1 ''session.inter_task'' (parseDist L (rs_InterTask rs)) else (acc1, None)) of (acc2, intr) \<Rightarrow>
      (if f_lt (rs_Abandon rs) (Fin 0) \<or> f_lt (Fin 1) (rs_Abandon rs)
       then acc_add acc2 ''session.abandon'' ''must be in [0,1]'' else acc2,
       \<lparr>sh_Length = len, sh_InterTask = intr, sh_Abandon = rs_Abandon rs\<rparr>))"

definition check_part :: "accumulator \<times> bool \<Rightarrow> bool \<Rightarrow> string \<Rightarrow> string \<Rightarrow> accumulator \<times> bool" where
  "check_part a good field msg = (if good then a else (acc_add (fst a) field msg, False))"

text \<open>One turn of the loop of \<open>compileMix\<close>.\<close>

definition compile_entry ::
  "'loc PLib \<Rightarrow> nat \<Rightarrow> RawTemplate \<Rightarrow> accumulator \<times> bool \<Rightarrow> (accumulator \<times> bool) \<times> Template" where
  "compile_entry L i rm a =
     (let fp = ''mix['' @ Itoa (int i) @ '']'';
          (proto, pok) = persona_parseProtocol (rm_Protocol rm);
          a1 = check_part a pok (fp @ ''.protocol'')
                 (''unknown protocol '' @ pl_Quote L (rm_Protocol rm) @ '' (allowed: dns, http, ssh, stream)'');
          (cause, cok) = parseCause (rm_Cause rm);
          a2 = check_part a1 cok (fp @ ''.cause'') (''unknown cause '' @ pl_Quote L (rm_Cause rm));
          (pacing, pacok) = parsePacing (rm_Pacing rm);
          a3 = check_part a2 pacok (fp @ ''.pacing'') (''unknown pacing '' @ pl_Quote L (rm_Pacing rm));
          a4 = check_part a3 (validVerb (rm_Verb rm)) (fp @ ''.verb'') ''must be non-empty and match [a-z0-9-]'';
          a5 = check_part a4 (\<not> bad_weight (rm_Weight rm)) (fp @ ''.weight'') ''must be a finite positive number''
      in (a5, \<lparr>tm_Protocol = proto, tm_Verb = rm_Verb rm, tm_Cause = cause, tm_Pacing = pacing,
               tm_Weight = rm_Weight rm\<rparr>))"

fun compile_entries ::
  "'loc PLib \<Rightarrow> nat \<Rightarrow> RawTemplate list \<Rightarrow> accumulator \<times> bool \<Rightarrow> (accumulator \<times> bool) \<times> Template list" where
  "compile_entries L i [] a = (a, [])"
| "compile_entries L i (rm # rms) a =
     (case compile_entry L i rm a of (a1, t) \<Rightarrow>
      case compile_entries L (Suc i) rms a1 of (a2, ts) \<Rightarrow> (a2, t # ts))"

definition compileMix :: "'loc PLib \<Rightarrow> accumulator \<Rightarrow> RawTemplate list \<Rightarrow> accumulator \<times> TemplateMix" where
  "compileMix L acc rms =
     (if length rms = 0 then (acc_add acc ''mix'' ''at least one template is required'', zero_TemplateMix)
      else case compile_entries L 0 rms (acc, True) of ((acc1, good), tmpls) \<Rightarrow>
        if \<not> good then (acc1, zero_TemplateMix)
        else case NewTemplateMix tmpls of
               Inl e \<Rightarrow> (acc_add acc1 ''mix'' (pl_mixText L e), zero_TemplateMix)
             | Inr mix \<Rightarrow> (acc1, mix))"

definition resolveFingerprints :: "'loc PLib \<Rightarrow> string \<Rightarrow> string + staticPool" where
  "resolveFingerprints L name =
     (if name = '''' \<or> name = ''default''
      then (case DefaultFingerprintPool (pl_embedded L) of Inl e \<Rightarrow> Inl (pl_fpText L e) | Inr p \<Rightarrow> Inr p)
      else Inl (''unknown fingerprint pool '' @ pl_Quote L name @ '' (only '' @ pl_Quote L ''default'' @ '')''))"

definition Compile :: "'loc PLib \<Rightarrow> RawPersona \<Rightarrow> FieldError list + 'loc Persona" where
  "Compile L raw =
     (let acc0 = (if TrimSpace (rp_Name raw) = '''' then acc_add [] ''name'' ''must be non-empty'' else []);
          (acc1, tt) = take_part acc0 ''think_time'' (parseDist L (rp_ThinkTime raw));
          (acc2, j) = take_part acc1 ''jitter'' (parseJitter L (rp_Jitter raw));
          (acc3, b) = take_part acc2 ''burst'' (parseBurst L (rp_Burst raw));
          (acc4, tod) = take_part acc3 ''time_of_day'' (parseCurve L (rp_TimeOfDay raw));
          (acc5, shape) = compileShape L acc4 (rp_Session raw);
          (acc6, mix) = compileMix L acc5 (rp_Mix raw);
          (acc7, fp) = take_part acc6 ''fingerprints'' (resolveFingerprints L (rp_Fingerprints raw))
      in if length acc7 \<noteq> 0 then Inl acc7
         else Inr \<lparr>pn_Name = rp_Name raw, pn_Mix = mix, pn_ThinkTime = tt, pn_Jitter = j, pn_Burst = b,
                   pn_TimeOfDay = tod, pn_Prints = fp, pn_Shape = shape, pn_Bounds = DefaultBranchBounds\<rparr>)"

section \<open>Every section is judged by itself\<close>

lemma acc_add_frame: "acc_add acc f m = acc @ acc_add [] f m"
  by (simp add: acc_add_def)

lemma acc_add_nonempty [simp]: "acc_add acc f m \<noteq> []"
  by (simp add: acc_add_def)

lemma take_part_frame: "take_part acc f r = (acc @ fst (take_part [] f r), snd (take_part [] f r))"
  by (simp add: take_part_def acc_add_frame [of acc] split: sum.splits)

lemma compileShape_frame:
  "compileShape L acc rs = (acc @ fst (compileShape L [] rs), snd (compileShape L [] rs))"
  by (simp add: compileShape_def take_part_def acc_add_def split: sum.splits prod.splits)

lemma check_part_frame:
  "check_part (acc @ es, b) good f m =
     (acc @ fst (check_part (es, b) good f m), snd (check_part (es, b) good f m))"
  by (simp add: check_part_def acc_add_def)

lemma compile_entry_frame:
  "compile_entry L i rm (acc @ es, b) =
     ((acc @ fst (fst (compile_entry L i rm (es, b))), snd (fst (compile_entry L i rm (es, b)))),
      snd (compile_entry L i rm (es, b)))"
  by (simp add: compile_entry_def check_part_frame Let_def case_prod_beta)

lemma compile_entries_frame:
  "compile_entries L i rms (acc @ es, b) =
     ((acc @ fst (fst (compile_entries L i rms (es, b))), snd (fst (compile_entries L i rms (es, b)))),
      snd (compile_entries L i rms (es, b)))"
proof (induction rms arbitrary: i es b)
  case (Cons rm rms)
  obtain es1 b1 t where e: "compile_entry L i rm (es, b) = ((es1, b1), t)" by (metis surj_pair)
  then show ?case using Cons [of "Suc i" es1 b1] by (simp add: compile_entry_frame [of L i rm acc] case_prod_beta)
qed simp

lemma compileMix_frame:
  "compileMix L acc rms = (acc @ fst (compileMix L [] rms), snd (compileMix L [] rms))"
  using compile_entries_frame [of L 0 rms acc "[]" True]
  by (auto simp: compileMix_def acc_add_def case_prod_beta split: sum.splits)

text \<open>The complaints and the outcome of each section, judged alone.\<close>

definition part_errors :: "string \<Rightarrow> string + 'a \<Rightarrow> FieldError list" where
  "part_errors field r = fst (take_part [] field r)"

definition part_value :: "string + 'a \<Rightarrow> 'a option" where
  "part_value r = (case r of Inl e \<Rightarrow> None | Inr x \<Rightarrow> Some x)"

definition shape_errors :: "'loc PLib \<Rightarrow> RawShape \<Rightarrow> FieldError list" where
  "shape_errors L rs = fst (compileShape L [] rs)"

definition shape_value :: "'loc PLib \<Rightarrow> RawShape \<Rightarrow> SessionShape" where
  "shape_value L rs = snd (compileShape L [] rs)"

definition mix_errors :: "'loc PLib \<Rightarrow> RawTemplate list \<Rightarrow> FieldError list" where
  "mix_errors L rms = fst (compileMix L [] rms)"

definition mix_value :: "'loc PLib \<Rightarrow> RawTemplate list \<Rightarrow> TemplateMix" where
  "mix_value L rms = snd (compileMix L [] rms)"

definition name_errors :: "string \<Rightarrow> FieldError list" where
  "name_errors n = (if TrimSpace n = '''' then acc_add [] ''name'' ''must be non-empty'' else [])"

lemma take_part_eq: "take_part acc f r = (acc @ part_errors f r, part_value r)"
  using take_part_frame [of acc f r]
  by (simp add: part_errors_def part_value_def take_part_def split: sum.splits)

lemma compileShape_eq: "compileShape L acc rs = (acc @ shape_errors L rs, shape_value L rs)"
  using compileShape_frame [of L acc rs] by (simp add: shape_errors_def shape_value_def)

lemma compileMix_eq: "compileMix L acc rms = (acc @ mix_errors L rms, mix_value L rms)"
  using compileMix_frame [of L acc rms] by (simp add: mix_errors_def mix_value_def)

definition section_errors :: "'loc PLib \<Rightarrow> RawPersona \<Rightarrow> FieldError list list" where
  "section_errors L raw =
     [name_errors (rp_Name raw),
      part_errors ''think_time'' (parseDist L (rp_ThinkTime raw)),
      part_errors ''jitter'' (parseJitter L (rp_Jitter raw)),
      part_errors ''burst'' (parseBurst L (rp_Burst raw)),
      part_errors ''time_of_day'' (parseCurve L (rp_TimeOfDay raw)),
      shape_errors L (rp_Session raw),
      mix_errors L (rp_Mix raw),
      part_errors ''fingerprints'' (resolveFingerprints L (rp_Fingerprints raw))]"

lemma Compile_sections:
  "Compile L raw =
     (if concat (section_errors L raw) \<noteq> [] then Inl (concat (section_errors L raw))
      else Inr \<lparr>pn_Name = rp_Name raw, pn_Mix = mix_value L (rp_Mix raw),
        pn_ThinkTime = part_value (parseDist L (rp_ThinkTime raw)),
        pn_Jitter = part_value (parseJitter L (rp_Jitter raw)),
        pn_Burst = part_value (parseBurst L (rp_Burst raw)),
        pn_TimeOfDay = part_value (parseCurve L (rp_TimeOfDay raw)),
        pn_Prints = part_value (resolveFingerprints L (rp_Fingerprints raw)),
        pn_Shape = shape_value L (rp_Session raw), pn_Bounds = DefaultBranchBounds\<rparr>)"
  by (simp add: Compile_def section_errors_def take_part_eq compileShape_eq compileMix_eq name_errors_def
      del: concat.simps) (simp add: append_assoc)

lemma part_errors_nil: "part_errors f r = [] \<longleftrightarrow> (\<exists>x. r = Inr x \<and> part_value r = Some x)"
  by (cases r) (simp_all add: part_errors_def part_value_def take_part_def)

lemma Compile_Inr:
  assumes "Compile L raw = Inr p"
  obtains D J B T F where "TrimSpace (rp_Name raw) \<noteq> ''''"
    "parseDist L (rp_ThinkTime raw) = Inr D" "parseJitter L (rp_Jitter raw) = Inr J"
    "parseBurst L (rp_Burst raw) = Inr B" "parseCurve L (rp_TimeOfDay raw) = Inr T"
    "shape_errors L (rp_Session raw) = []" "mix_errors L (rp_Mix raw) = []"
    "resolveFingerprints L (rp_Fingerprints raw) = Inr F"
    "p = \<lparr>pn_Name = rp_Name raw, pn_Mix = mix_value L (rp_Mix raw), pn_ThinkTime = Some D,
      pn_Jitter = Some J, pn_Burst = Some B, pn_TimeOfDay = Some T, pn_Prints = Some F,
      pn_Shape = shape_value L (rp_Session raw), pn_Bounds = DefaultBranchBounds\<rparr>"
proof -
  from assms have n: "concat (section_errors L raw) = []" by (auto simp: Compile_sections split: if_splits)
  then have "TrimSpace (rp_Name raw) \<noteq> ''''" by (auto simp: section_errors_def name_errors_def split: if_splits)
  moreover from n obtain D J B T F where "parseDist L (rp_ThinkTime raw) = Inr D"
    "parseJitter L (rp_Jitter raw) = Inr J" "parseBurst L (rp_Burst raw) = Inr B"
    "parseCurve L (rp_TimeOfDay raw) = Inr T" "resolveFingerprints L (rp_Fingerprints raw) = Inr F"
    "shape_errors L (rp_Session raw) = []" "mix_errors L (rp_Mix raw) = []"
    by (auto simp: section_errors_def part_errors_nil)
  ultimately show ?thesis using that assms n by (auto simp: Compile_sections part_value_def)
qed

section \<open>What compilation guarantees\<close>

lemma with_unit_pos: "0 \<le> v \<Longrightarrow> with_unit oor v f sc s = Inr (d, t) \<Longrightarrow> 0 \<le> d"
  by (auto simp: with_unit_def Let_def u64_def unitMap_def time_units split: if_splits option.splits)

lemma leadingInt_pos: "0 \<le> x \<Longrightarrow> leadingInt x s = Some (v, t) \<Longrightarrow> 0 \<le> v"
  by (induction x s rule: leadingInt.induct) (auto simp: Let_def split: if_splits)

lemma components_pos: "0 \<le> d \<Longrightarrow> components oor d s = Inr d' \<Longrightarrow> 0 \<le> d'"
proof (induction oor d s rule: components.induct)
  case (1 oor d s)
  then show ?case
    by (subst (asm) (2) components.simps) (auto simp: Let_def u64_def split: if_splits sum.splits prod.splits)
qed

lemma ParseDuration_range: "ParseDuration oor s = Inr d \<Longrightarrow> in_i64 d"
  by (auto simp: ParseDuration_def Let_def i64_range [unfolded in_i64_numeral] in_i64_numeral
      dest!: components_pos [rotated] split: if_splits sum.splits)

lemma named_Inr [simp]: "named n r = Inr x \<longleftrightarrow> r = Inr x"
  by (simp add: named_def split: sum.splits)

lemma parseDur_range: "parseDur L s = Inr d \<Longrightarrow> in_i64 d"
  by (auto simp: parseDur_def dest: ParseDuration_range split: if_splits sum.splits)

text \<open>The parameters of a distribution that decoding accepts; a NaN escapes the comparisons.\<close>

fun dist_valid :: "Distribution \<Rightarrow> bool" where
  "dist_valid (Constant d) = (0 \<le> d \<and> in_i64 d)"
| "dist_valid (Uniform mn mx) = (0 \<le> mn \<and> mn \<le> mx \<and> in_i64 mx)"
| "dist_valid (Normal mean std mn mx) = (0 \<le> mean \<and> 0 \<le> std \<and> 0 \<le> mn \<and> mn \<le> mx \<and> in_i64 mean \<and> in_i64 std \<and> in_i64 mx)"
| "dist_valid (LogNormal mu sigma scale) = (\<not> f_lt sigma (Fin 0) \<and> 0 \<le> scale \<and> in_i64 scale)"
| "dist_valid (Exponential mean) = (0 < mean \<and> in_i64 mean)"

lemmas dist_parsers = parseConstant_def parseUniform_def parseNormal_def parseLogNormal_def parseExponential_def

lemma parseDist_valid: "parseDist L rd = Inr D \<Longrightarrow> dist_valid D"
  by (auto simp: parseDist_def dist_parsers dest: parseDur_range split: if_splits sum.splits)

definition in_unit :: "f64 \<Rightarrow> bool" where
  "in_unit v \<longleftrightarrow> \<not> f_lt v (Fin 0) \<and> \<not> f_lt (Fin 1) v"

fun jitter_valid :: "JitterModel \<Rightarrow> bool" where
  "jitter_valid NoJitter = True"
| "jitter_valid (ProportionalJitter f) = in_unit f"

fun burst_valid :: "BurstModel \<Rightarrow> bool" where
  "burst_valid AlwaysActive = True"
| "burst_valid (Renewal b) = (dist_valid (bu_Active b) \<and> dist_valid (bu_Idle b) \<and> \<not> bu_started b)"

fun curve_valid :: "'loc TimeOfDayShaper \<Rightarrow> bool" where
  "curve_valid FlatTimeOfDay = True"
| "curve_valid (PiecewiseCurve loc wd we) =
     (loc \<noteq> None \<and> length wd = 24 \<and> length we = 24 \<and> list_all in_unit wd \<and> list_all in_unit we)"

definition shape_valid :: "SessionShape \<Rightarrow> bool" where
  "shape_valid sh \<longleftrightarrow> (case sh_Length sh of None \<Rightarrow> True | Some d \<Rightarrow> dist_valid d)
     \<and> (case sh_InterTask sh of None \<Rightarrow> True | Some d \<Rightarrow> dist_valid d) \<and> in_unit (sh_Abandon sh)"

definition template_valid :: "Template \<Rightarrow> bool" where
  "template_valid t \<longleftrightarrow> IsKnownProtocol (tm_Protocol t) \<and> validVerb (tm_Verb t) \<and> \<not> bad_weight (tm_Weight t)"

definition persona_valid :: "'loc Persona \<Rightarrow> bool" where
  "persona_valid p \<longleftrightarrow> TrimSpace (pn_Name p) \<noteq> ''''
     \<and> (case pn_ThinkTime p of None \<Rightarrow> False | Some D \<Rightarrow> dist_valid D)
     \<and> (case pn_Jitter p of None \<Rightarrow> False | Some J \<Rightarrow> jitter_valid J)
     \<and> (case pn_Burst p of None \<Rightarrow> False | Some B \<Rightarrow> burst_valid B)
     \<and> (case pn_TimeOfDay p of None \<Rightarrow> False | Some T \<Rightarrow> curve_valid T)
     \<and> (case pn_Prints p of None \<Rightarrow> False
        | Some P \<Rightarrow> sp_prints P \<noteq> [] \<and> list_all acceptable (sp_prints P))
     \<and> shape_valid (pn_Shape p) \<and> mix_ok (pn_Mix p) \<and> list_all template_valid (mx_templates (pn_Mix p))
     \<and> pn_Bounds p = DefaultBranchBounds"

lemma parseJitter_valid: "parseJitter L rj = Inr J \<Longrightarrow> jitter_valid J"
  by (auto simp: parseJitter_def in_unit_def split: if_splits)

lemma parseBurst_valid: "parseBurst L rb = Inr B \<Longrightarrow> burst_valid B"
  by (auto simp: parseBurst_def NewRenewalBurst_def dest: parseDist_valid split: if_splits sum.splits)

lemma out_of_unit_None: "out_of_unit i vs = None \<longleftrightarrow> list_all in_unit vs"
  by (induction vs arbitrary: i) (auto simp: in_unit_def)

lemma parseCurve_valid: "parseCurve L rc = Inr T \<Longrightarrow> curve_valid T"
  by (auto simp: parseCurve_def out_of_unit_None split: if_splits sum.splits option.splits)

lemma resolveFingerprints_valid:
  "resolveFingerprints L n = Inr P \<Longrightarrow> sp_prints P \<noteq> [] \<and> list_all acceptable (sp_prints P)"
  by (auto simp: resolveFingerprints_def DefaultFingerprintPool_def NewFingerprintPool_def first_invalid_None
      split: if_splits sum.splits option.splits)

lemma compileShape_valid: "shape_errors L rs = [] \<Longrightarrow> shape_valid (shape_value L rs)"
  by (auto simp: shape_errors_def shape_value_def compileShape_def take_part_def shape_valid_def in_unit_def
      dest: parseDist_valid split: if_splits sum.splits prod.splits)

lemma check_part_True: "check_part a good f m = (es, True) \<longleftrightarrow> good \<and> a = (es, True)"
  by (auto simp: check_part_def)

lemma compile_entry_True:
  "fst (compile_entry L i rm a) = (es, True) \<Longrightarrow>
     a = (es, True) \<and> template_valid (snd (compile_entry L i rm a))"
  by (auto simp: compile_entry_def Let_def case_prod_beta check_part_True template_valid_def
      persona_parseProtocol_def)

lemma compile_entries_True:
  "compile_entries L i rms a = ((es, True), ts) \<Longrightarrow> a = (es, True) \<and> list_all template_valid ts \<and> length ts = length rms"
proof (induction rms arbitrary: i a ts)
  case (Cons rm rms)
  obtain a1 t where e: "compile_entry L i rm a = (a1, t)" by (metis surj_pair)
  with Cons.prems obtain ts' where c: "compile_entries L (Suc i) rms a1 = ((es, True), ts')" "ts = t # ts'"
    by (auto split: prod.splits)
  with Cons.IH [OF c(1)] e show ?case using compile_entry_True [of L i rm a es] by auto
qed simp

lemma cum_weights_ok: "list_all template_valid ts \<Longrightarrow> \<exists>y. cum_weights i acc ts = Inr y"
proof (induction ts arbitrary: i acc)
  case (Cons t ts)
  then obtain y where "cum_weights (Suc i) (f_add acc (tm_Weight t)) ts = Inr y" by fastforce
  then show ?case using Cons.prems by (auto simp: template_valid_def Let_def split: prod.splits)
qed simp

lemma NewTemplateMix_valid:
  assumes "list_all template_valid ts" "ts \<noteq> []"
  obtains m where "NewTemplateMix ts = Inr m" "mix_ok m" "mx_templates m = ts"
proof -
  obtain c where "cum_weights 0 (Fin 0) ts = Inr c" using cum_weights_ok [OF assms(1)] by blast
  then obtain m where "NewTemplateMix ts = Inr m" using assms(2)
    by (cases c) (auto simp: NewTemplateMix_def)
  with NewTemplateMix_ok [OF this] that show ?thesis by blast
qed

lemma compile_entries_False:
  "compile_entries L i rms a = ((es, False), ts) \<Longrightarrow> snd a \<Longrightarrow> es \<noteq> []"
proof (induction rms arbitrary: i a ts)
  case (Cons rm rms)
  obtain a1 t where e: "compile_entry L i rm a = (a1, t)" by (metis surj_pair)
  with Cons.prems obtain ts' where c: "compile_entries L (Suc i) rms a1 = ((es, False), ts')"
    by (auto split: prod.splits)
  show ?case
  proof (cases "snd a1")
    case True
    with Cons.IH [OF c] show ?thesis .
  next
    case False
    with e Cons.prems(2) have n: "fst a1 \<noteq> []"
      by (auto simp: compile_entry_def check_part_def Let_def case_prod_beta split: if_splits)
    have "fst a1 = fst a1 @ []" by simp
    then have "es = fst a1 @ fst (fst (compile_entries L (Suc i) rms ([], snd a1)))"
      using compile_entries_frame [of L "Suc i" rms "fst a1" "[]" "snd a1"] c by simp
    with n show ?thesis by simp
  qed
qed simp

lemma compileMix_valid:
  assumes "mix_errors L rms = []"
  shows "mix_ok (mix_value L rms) \<and> list_all template_valid (mx_templates (mix_value L rms))"
proof -
  obtain es good ts where c: "compile_entries L 0 rms ([], True) = ((es, good), ts)" by (metis surj_pair)
  have ne: "rms \<noteq> []" using assms by (auto simp: mix_errors_def compileMix_def)
  have g: good
    using assms c ne compile_entries_False [of L 0 rms "([], True)" es ts]
    by (cases good) (auto simp: mix_errors_def compileMix_def)
  then have ts: "list_all template_valid ts" "ts \<noteq> []"
    using compile_entries_True [of L 0 rms "([], True)" es ts] c ne by auto
  obtain m where "NewTemplateMix ts = Inr m" "mix_ok m" "mx_templates m = ts"
    using NewTemplateMix_valid [OF ts] by blast
  then show ?thesis using c g ne ts by (simp add: mix_value_def compileMix_def)
qed

lemma Compile_valid: "Compile L raw = Inr p \<Longrightarrow> persona_valid p"
  by (erule Compile_Inr)
     (use compileMix_valid [of L "rp_Mix raw"] compileShape_valid [of L "rp_Session raw"] in
      \<open>simp add: persona_valid_def parseDist_valid parseJitter_valid parseBurst_valid parseCurve_valid
        resolveFingerprints_valid\<close>)

section \<open>No virtual user panics\<close>

text \<open>The contract of the production generator: every draw answers, integer draws in range.\<close>

definition total_rand :: "'r Rand \<Rightarrow> bool" where
  "total_rand R \<longleftrightarrow> (\<forall>r. rand_Float64 R r \<noteq> None \<and> rand_NormFloat64 R r \<noteq> None \<and> rand_ExpFloat64 R r \<noteq> None
     \<and> rand_Split R r \<noteq> None
     \<and> (\<forall>n > 0. \<exists>i r'. rand_IntN R r n = Some (i, r') \<and> 0 \<le> i \<and> i < n))"

lemma total_draws:
  assumes "total_rand R"
  obtains u r1 z r2 x r3 c r4 where "rand_Float64 R r = Some (u, r1)" "rand_NormFloat64 R r = Some (z, r2)"
    "rand_ExpFloat64 R r = Some (x, r3)" "rand_Split R r = Some (c, r4)"
  using assms unfolding total_rand_def by (metis not_None_eq surj_pair)

lemma Sample_answers: "total_rand R \<Longrightarrow> \<exists>d r'. Sample expf oor R D r = Some (d, r')"
  by (cases D; rule total_draws [of R r]) (auto simp: Let_def)

lemma Phase_answers: "total_rand R \<Longrightarrow> \<exists>ph B' r'. Phase expf oor R now B r = Some (ph, B', r')"
proof (cases B)
  case (Renewal b)
  assume t: "total_rand R"
  obtain a x i y where "Sample expf oor R (bu_Active b) r = Some (a, x)" "Sample expf oor R (bu_Idle b) r = Some (i, y)"
    using Sample_answers [OF t, of expf oor "bu_Active b" r] Sample_answers [OF t, of expf oor "bu_Idle b" r] by blast
  then show ?thesis by (simp add: Renewal renewal_Phase_def)
qed simp

lemma Jitter_answers: "total_rand R \<Longrightarrow> \<exists>d' r'. Jitter oor R J d r = Some (d', r')"
  by (cases J; rule total_draws [of R r]) (auto simp: Let_def)

lemma Shape_answers:
  assumes "total_rand R"
  shows "\<exists>dec c' r'. Shape expf oor R In utc c now (Sample expf oor R D) cause prior r = Some (dec, c', r')"
proof -
  obtain u r1 where "rand_Float64 R r = Some (u, r1)" by (rule total_draws [OF assms])
  moreover obtain ph B' r2 where "Phase expf oor R now (cs_burst c) r = Some (ph, B', r2)"
    using Phase_answers [OF assms] by blast
  moreover obtain t r3 where "Sample expf oor R D r2 = Some (t, r3)" using Sample_answers [OF assms] by blast
  moreover obtain w r4 where "Jitter oor R (cs_jitter c) t r3 = Some (w, r4)"
    using Jitter_answers [OF assms] by blast
  ultimately show ?thesis by (simp add: Shape_def Let_def)
qed

lemma mix_Pick_answers: "total_rand R \<Longrightarrow> mix_ok m \<Longrightarrow> \<exists>t r'. mix_Pick R m r = Some (t, r')"
  by (rule total_draws [of R r]) (auto simp: mix_Pick_at)

lemma pool_Pick_answers:
  "total_rand R \<Longrightarrow> sp_prints P \<noteq> [] \<Longrightarrow> \<exists>f r'. pool_Pick R P r = Some (f, r')"
proof -
  assume a: "total_rand R" "sp_prints P \<noteq> []"
  then have "(0::int) < int (length (sp_prints P))" by simp
  with a(1) obtain i r' where "rand_IntN R r (int (length (sp_prints P))) = Some (i, r')"
    "0 \<le> i" "i < int (length (sp_prints P))"
    unfolding total_rand_def by blast
  then show ?thesis by (simp add: pool_Pick_def)
qed

lemma NewSession_answers:
  assumes "total_rand R" "mix_ok (sp_Mix spec)"
    and "case sp_Prints spec of None \<Rightarrow> True | Some P \<Rightarrow> sp_prints P \<noteq> []"
  shows "\<exists>s r' clk'. NewSession expf oor R spec True True r clk = Some (Inr (s, r', clk')) \<and> ss_mix s = sp_Mix spec"
proof -
  have ml: "mix_Len (sp_Mix spec) \<noteq> 0" using assms(2) by (simp add: mix_Len_def mix_ok_def)
  obtain c r1 where c: "rand_Split R r = Some (c, r1)" by (rule total_draws [OF assms(1)])
  have "\<exists>l r2. (case sh_Length (sp_Shape spec) of None \<Rightarrow> Some (0, c) | Some d \<Rightarrow> Sample expf oor R d c) = Some (l, r2)"
    using Sample_answers [OF assms(1)] by (cases "sh_Length (sp_Shape spec)") auto
  then obtain l r2 where l: "(case sh_Length (sp_Shape spec) of None \<Rightarrow> Some (0, c) | Some d \<Rightarrow> Sample expf oor R d c) = Some (l, r2)"
    by blast
  have "\<exists>f r3. (case sp_Prints spec of None \<Rightarrow> Some (zero_Fingerprint, r2) | Some p \<Rightarrow> pool_Pick R p r2) = Some (f, r3)"
    using assms(3) pool_Pick_answers [OF assms(1)] by (cases "sp_Prints spec") auto
  then obtain f r3 where "(case sp_Prints spec of None \<Rightarrow> Some (zero_Fingerprint, r2) | Some p \<Rightarrow> pool_Pick R p r2) = Some (f, r3)"
    by blast
  then show ?thesis using ml c l by (simp add: NewSession_def Now_def)
qed

text \<open>A selector that answers in every state of the set \<open>ok\<close>, and stays there.\<close>

definition answers :: "('sel \<Rightarrow> ProtocolID \<Rightarrow> (Target option \<times> 'sel) option) \<Rightarrow> ('sel \<Rightarrow> bool) \<Rightarrow> bool" where
  "answers nxt ok \<longleftrightarrow> (\<forall>x p. ok x \<longrightarrow> (\<exists>t x'. nxt x p = Some (t, x') \<and> ok x'))"

lemma sess_Next_answers:
  assumes "total_rand R" "mix_ok (ss_mix s)" "answers nxt ok" "ok sel"
  shows "\<exists>st s' sel' clk'. sess_Next expf oor R In utc nxt None clk s sel = Some (Inr st, s', sel', clk')
    \<and> ss_mix s' = ss_mix s \<and> ok sel'"
proof -
  have "\<exists>q r1. abandons R (sh_Abandon (ss_shape s)) (ss_rand s) = Some (q, r1)"
    by (rule total_draws [OF assms(1), of "ss_rand s"]) (auto simp: abandons_def)
  then obtain q r1 where q: "abandons R (sh_Abandon (ss_shape s)) (ss_rand s) = Some (q, r1)" by blast
  obtain t r2 where t: "mix_Pick R (ss_mix s) r1 = Some (t, r2)" using mix_Pick_answers [OF assms(1,2)] by blast
  obtain ot sel' where n: "nxt sel (tm_Protocol t) = Some (ot, sel')" "ok sel'"
    using assms(3,4) unfolding answers_def by blast
  obtain now clk' where c: "Now clk = (now, clk')" by (metis surj_pair)
  obtain dec c' r3 where "Shape expf oor R In utc (ss_shaper s) now (Sample expf oor R (ss_think s))
      (tm_Cause t) (ss_last s) r2 = Some (dec, c', r3)"
    using Shape_answers [OF assms(1), of expf oor In utc "ss_shaper s" now "ss_think s" "tm_Cause t" "ss_last s" r2]
    by blast
  with q t n c assms(4) show ?thesis
    by (cases ot) (auto simp: sess_Next_def after_quit_def after_target_def Let_def)
qed

lemma drive_answers:
  assumes "total_rand R" "mix_ok (ss_mix s)" and nx: "answers nxt ok" and "ok sel"
  shows "drive expf oor R In utc nxt xs s sel \<noteq> None"
  using assms(2,4)
proof (induction xs arbitrary: s sel)
  case (Cons x xs)
  obtain now res where x: "x = (now, res)" by (metis surj_pair)
  obtain st s' sel' clk' where n: "sess_Next expf oor R In utc nxt None (\<lambda>_. now) s sel = Some (Inr st, s', sel', clk')"
    "ss_mix s' = ss_mix s" "ok sel'"
    using sess_Next_answers [OF assms(1) Cons.prems(1) nx Cons.prems(2)] by blast
  have "mix_ok (ss_mix (if st_Action st = None then s' else Observe s' res zero_Observation))"
    using n(2) Cons.prems by (simp add: Observe_def)
  from Cons.IH [OF this n(3)] obtain y where "drive expf oor R In utc nxt xs
      (if st_Action st = None then s' else Observe s' res zero_Observation) sel' = Some y" by blast
  with n(1) show ?case by (cases y) (simp add: x)
qed simp

section \<open>Properties\<close>

text \<open>A persona that compiles is well formed in every part: parsed and bounded distributions,
  a fraction and an abandon rate not outside the unit interval, a curve with its zone and 24 points
  a day, a non-empty mix of known protocols with verbs that cannot carry a control character and
  finite positive weights, and a non-empty pool of acceptable fingerprints.\<close>

theorem compiled_persona_is_valid:
  assumes "Compile L raw = Inr p"
  shows "persona_valid p \<and> pn_Name p = rp_Name raw"
  using Compile_valid [OF assms] Compile_Inr [OF assms] by force

text \<open>The compiler reports everything: its errors are the complaints of the eight sections, each
  judged alone and in order, and it succeeds exactly when there is none.\<close>

theorem compile_reports_every_section:
  "(Compile L raw = Inl (concat (section_errors L raw)) \<longleftrightarrow> concat (section_errors L raw) \<noteq> [])
   \<and> isl (Compile L raw) = (concat (section_errors L raw) \<noteq> [])"
  by (simp add: Compile_sections)

text \<open>C12. Opening and driving a virtual user of a compiled persona never panics, whatever the
  instants, the results it observes and the number of steps, for a source whose draws answer in
  range and a selector that answers.\<close>

theorem compiled_persona_never_panics:
  assumes "Compile L raw = Inr p" "total_rand R" "answers nxt ok" "ok sel"
  shows "\<exists>spec s r1 clk1. ToSpec p = Some spec
    \<and> NewSession expf oor R spec True True r clk = Some (Inr (s, r1, clk1))
    \<and> drive expf oor R In utc nxt xs s sel \<noteq> None"
proof -
  have v: "persona_valid p" by (rule Compile_valid [OF assms(1)])
  then obtain b P where b: "pn_Burst p = Some b" and P: "pn_Prints p = Some P" "sp_prints P \<noteq> []"
    by (auto simp: persona_valid_def split: option.splits)
  then obtain spec where spec: "ToSpec p = Some spec" "sp_Mix spec = pn_Mix p" "sp_Prints spec = Some P"
    by (simp add: ToSpec_def)
  have m: "mix_ok (sp_Mix spec)" using v spec(2) by (simp add: persona_valid_def)
  obtain s r1 clk1 where s: "NewSession expf oor R spec True True r clk = Some (Inr (s, r1, clk1))"
      "ss_mix s = sp_Mix spec"
    using NewSession_answers [OF assms(2) m, of expf oor r clk] spec(3) P(2) by auto
  have "drive expf oor R In utc nxt xs s sel \<noteq> None"
    by (rule drive_answers [OF assms(2) _ assms(3,4)]) (simp add: s(2) m)
  then show ?thesis using spec(1) s(1) by blast
qed

lemma unitMap_facts:
  "unitMap u = Some k \<Longrightarrow> u \<noteq> [] \<and> \<not> is_digit (hd u) \<and> hd u \<noteq> CHR ''.'' \<and> takeWhile unit_byte u = u \<and> 0 < k"
  by (auto simp: unitMap_def time_units micro_sign_def greek_mu_def unit_byte_def is_digit_def split: if_splits)

lemma le_div_iff: "0 < k \<Longrightarrow> a \<le> b div k \<longleftrightarrow> a * k \<le> (b::int)"
proof
  assume k: "0 < k" and "a \<le> b div k"
  then have "a * k \<le> b div k * k" by (intro mult_right_mono) simp_all
  also have "\<dots> \<le> b" using pos_mod_sign [OF k, of b] by (simp add: minus_mod_eq_div_mult [symmetric])
  finally show "a * k \<le> b" .
next
  assume k: "0 < k" and "a * k \<le> b"
  then have "a * k div k \<le> b div k" by (intro zdiv_mono1)
  then show "a \<le> b div k" using k by simp
qed

lemma component_literal:
  assumes "unitMap u = Some k"
  shows "component oor (digits10 n @ u) =
    (if int n * k \<le> 2 ^ 63 then Inr (int n * k, []) else Inl InvalidDuration)"
proof -
  note u = unitMap_facts [OF assms]
  have hd: "digits10 n @ u \<noteq> []" "is_digit (hd (digits10 n @ u))"
    using digits10_hd [of n] digits10_nonempty [of n] by simp_all
  have le: "\<not> 2 ^ 63 div k < int n \<longleftrightarrow> int n * k \<le> 2 ^ 63"
    using le_div_iff [of k "int n" "2 ^ 63"] u by (simp add: not_less)
  have w: "with_unit oor (int n) 0 (Fin 1) u = (if int n * k \<le> 2 ^ 63 then Inr (int n * k, []) else Inl InvalidDuration)"
  proof -
    have tw: "takeWhile unit_byte u = u" using u by (elim conjE)
    show ?thesis unfolding with_unit_def Let_def tw assms using u le by auto
  qed
  have big: "int n * k > 2 ^ 63" if "n > 2 ^ 63"
  proof -
    have le1: "int n * 1 \<le> int n * k" using u by (intro mult_left_mono) auto
    have "int (2 ^ 63) < int n" using that by (simp only: of_nat_less_iff)
    then have "2 ^ 63 < int n" by simp
    with le1 show ?thesis by linarith
  qed
  have "leadingInt 0 (digits10 n @ u) = (if n > 2 ^ 63 then None else Some (int n, u))"
    by (rule leadingInt_digits10) (use u in simp)
  then show ?thesis using hd u w big digits10_nonempty [of n] by (auto simp: component_def Let_def)
qed

lemma ParseDuration_literal:
  assumes "unitMap u = Some k"
  shows "ParseDuration oor (digits10 n @ u) =
    (if int n * k \<le> int64_max then Inr (int n * k) else Inl InvalidDuration)"
proof -
  note u = unitMap_facts [OF assms]
  let ?s = "digits10 n @ u"
  have d: "digits10 n \<noteq> []" "is_digit (hd ?s)" using digits10_hd [of n] digits10_nonempty [of n] by simp_all
  have p: "\<not> HasPrefix ?s ''-''" "\<not> HasPrefix ?s ''+''"
    using d by (cases "digits10 n"; auto simp: HasPrefix_def is_digit_def)+
  have z: "?s \<noteq> ''0''" using d u by (cases "digits10 n"; cases u) auto
  have nn: "0 \<le> int n * k" using u by simp
  have "components oor 0 ?s = (if int n * k \<le> 2 ^ 63 then Inr (int n * k) else Inl InvalidDuration)"
    using d(1) nn by (simp add: components.simps [of oor 0 ?s] component_literal [OF assms] Let_def u64_def
        components.simps [of oor _ "[]"])
  then show ?thesis using p z d(1) by (auto simp: ParseDuration_def Let_def int64_max_def)
qed

text \<open>A whole number of any unit is read exactly, and refused exactly when it does not fit 64 bits.\<close>

theorem duration_literal_is_exact:
  assumes "unitMap u = Some k" "rd_Kind rd = ''constant''" "rd_D rd = digits10 n @ u"
  shows "parseDist L rd =
    (if int n * k \<le> int64_max then Inr (Constant (int n * k))
     else Inl (''d: '' @ dur_text (pl_timeQuote L) (rd_D rd) InvalidDuration))"
proof -
  have "0 \<le> int n * k" using unitMap_facts [OF assms(1)] by simp
  then show ?thesis using assms digits10_nonempty [of n]
    by (simp add: parseDist_def parseConstant_def parseDur_def ParseDuration_literal named_def)
qed

section \<open>An example\<close>

definition no_dist :: RawDist where
  "no_dist = \<lparr>rd_Kind = '''', rd_D = '''', rd_Min = '''', rd_Max = '''', rd_Mean = '''', rd_StdDev = '''',
     rd_Mu = Fin 0, rd_Sigma = Fin 0, rd_Scale = ''''\<rparr>"

definition demo_raw_persona :: RawPersona where
  "demo_raw_persona = \<lparr>rp_Name = ''reader'', rp_ThinkTime = no_dist\<lparr>rd_Kind := ''constant'', rd_D := ''5s''\<rparr>,
     rp_Jitter = \<lparr>rj_Kind = '''', rj_Fraction = Fin 0\<rparr>, rp_Burst = \<lparr>rbu_Active = no_dist, rbu_Idle = no_dist\<rparr>,
     rp_TimeOfDay = \<lparr>rcv_Location = '''', rcv_Weekday = [], rcv_Weekend = []\<rparr>,
     rp_Session = \<lparr>rs_Length = no_dist, rs_InterTask = no_dist, rs_Abandon = Fin 0\<rparr>,
     rp_Mix = [\<lparr>rm_Protocol = ''http'', rm_Verb = ''get'', rm_Cause = '''', rm_Pacing = '''', rm_Weight = Fin 1\<rparr>],
     rp_Fingerprints = ''''\<rparr>"

definition plain_fingerprint :: Fingerprint where
  "plain_fingerprint = \<lparr>fp_UserAgent = ''ua'', fp_SecCHUA = '''', fp_SecCHUAPlatform = '''',
     fp_AcceptLanguage = ''en''\<rparr>"

definition demo_lib :: "unit PLib" where
  "demo_lib = \<lparr>pl_oor = \<lambda>_. 0, pl_Quote = \<lambda>s. s, pl_timeQuote = \<lambda>s. s, pl_LoadLocation = \<lambda>_. Inr (),
     pl_mixText = \<lambda>_. '''', pl_fpText = \<lambda>_. '''', pl_embedded = Some [plain_fingerprint]\<rparr>"

text \<open>The mix of the example is accepted by simplification: no float has to be computed.\<close>

lemma demo_verb: "validVerb ''get''" by code_simp

lemma demo_known: "IsKnownProtocol ''http''"
  by (simp add: IsKnownProtocol_def knownProtocols_def proto_defs)

lemma demo_mix: "mix_errors L (rp_Mix demo_raw_persona) = []"
proof -
  let ?t = "\<lparr>tm_Protocol = ''http'', tm_Verb = ''get'', tm_Cause = CauseNavigation,
    tm_Pacing = PacingShaperManaged, tm_Weight = Fin 1\<rparr>"
  have e: "compile_entries L 0 (rp_Mix demo_raw_persona) ([], True) = (([], True), [?t])"
    by (simp add: demo_raw_persona_def compile_entry_def persona_parseProtocol_def demo_known parseCause_def
        parsePacing_def demo_verb check_part_def bad_weight_def Let_def)
  then have "list_all template_valid [?t]" by (simp add: template_valid_def demo_known demo_verb bad_weight_def)
  then obtain m where "NewTemplateMix [?t] = Inr m" by (rule NewTemplateMix_valid) simp_all
  with e show ?thesis by (simp add: mix_errors_def compileMix_def demo_raw_persona_def)
qed

lemma demo_parts:
  "name_errors (rp_Name demo_raw_persona) = []"
  "parseDist demo_lib (rp_ThinkTime demo_raw_persona) = Inr (Constant (5 * second))"
  "\<not> isl (resolveFingerprints demo_lib '''')"
  by code_simp+

lemma demo_compiles: "\<not> isl (Compile demo_lib demo_raw_persona)"
proof -
  obtain P where "resolveFingerprints demo_lib '''' = Inr P"
    using demo_parts(3) by (cases "resolveFingerprints demo_lib ''''") auto
  moreover have "shape_errors demo_lib (rp_Session demo_raw_persona) = []"
    by (simp add: shape_errors_def compileShape_def demo_raw_persona_def no_dist_def)
  ultimately have "concat (section_errors demo_lib demo_raw_persona) = []"
    using demo_parts(1,2) demo_mix [of demo_lib]
    by (simp add: section_errors_def part_errors_nil part_value_def)
       (simp add: demo_raw_persona_def parseJitter_def parseBurst_def parseCurve_def no_dist_def)
  then show ?thesis by (simp add: Compile_sections)
qed

theorem compiled_persona_is_valid_witness:
  "\<exists>p. Compile demo_lib demo_raw_persona = Inr p \<and> persona_valid p \<and> pn_Name p = ''reader''"
proof -
  obtain p where p: "Compile demo_lib demo_raw_persona = Inr p"
    using demo_compiles by (cases "Compile demo_lib demo_raw_persona") auto
  have "rp_Name demo_raw_persona = ''reader''" by (simp add: demo_raw_persona_def)
  with compiled_persona_is_valid [OF p] p show ?thesis by auto
qed

definition tireless :: "unit Rand" where
  "tireless = \<lparr>rand_Float64 = \<lambda>r. Some (Fin (1 / 2), r), rand_NormFloat64 = \<lambda>r. Some (Fin 0, r),
     rand_ExpFloat64 = \<lambda>r. Some (Fin 1, r), rand_IntN = \<lambda>r n. Some (0, r), rand_Int63n = \<lambda>r n. Some (0, r),
     rand_Perm = \<lambda>r n. Some (map int [0..<nat n], r), rand_Split = \<lambda>r. Some (r, r)\<rparr>"

lemma tireless_total: "total_rand tireless"
  by (simp add: total_rand_def tireless_def)

theorem compiled_persona_never_panics_witness:
  "\<exists>p spec s r1 clk1. Compile demo_lib demo_raw_persona = Inr p \<and> ToSpec p = Some spec
    \<and> NewSession (\<lambda>x. x) (\<lambda>_. 0) tireless spec True True () (\<lambda>_. 0) = Some (Inr (s, r1, clk1))
    \<and> drive (\<lambda>x. x) (\<lambda>_. 0) tireless noon () rr_Next [(0, zero_Result), (7 * second, zero_Result)] s
        (NewRoundRobinSelector (\<lambda>_. [])) \<noteq> None"
proof -
  obtain p where p: "Compile demo_lib demo_raw_persona = Inr p"
    using demo_compiles by (cases "Compile demo_lib demo_raw_persona") auto
  have a: "answers rr_Next (\<lambda>x. rrs_byProto x = (\<lambda>_. []))" "rrs_byProto (NewRoundRobinSelector (\<lambda>_. [])) = (\<lambda>_. [])"
    by (simp_all add: answers_def rr_Next_def NewRoundRobinSelector_def)
  show ?thesis
    using compiled_persona_never_panics [OF p tireless_total a, of "\<lambda>x. x" "\<lambda>_. 0" "()" "\<lambda>_. 0" noon "()"
      "[(0, zero_Result), (7 * second, zero_Result)]"] p by blast
qed

theorem duration_literal_is_exact_witness:
  "parseDist demo_lib (no_dist\<lparr>rd_Kind := ''constant'', rd_D := ''90m''\<rparr>) = Inr (Constant (90 * minute))"
proof -
  have d: "digits10 90 = ''90''" and m: "unitMap ''m'' = Some minute" by code_simp+
  have b: "int 90 * minute \<le> int64_max" by (simp add: time_units int64_max_def)
  have "parseDist demo_lib (no_dist\<lparr>rd_Kind := ''constant'', rd_D := ''90m''\<rparr>) = Inr (Constant (int 90 * minute))"
    using duration_literal_is_exact [OF m, of "no_dist\<lparr>rd_Kind := ''constant'', rd_D := ''90m''\<rparr>" 90 demo_lib] b
    by (simp add: d)
  then show ?thesis by simp
qed

text \<open>A NaN passes every range check: YAML reads \<open>.nan\<close>, and the persona it gives is accepted.\<close>

theorem nan_parameters_are_accepted:
  "parseJitter L \<lparr>rj_Kind = ''proportional'', rj_Fraction = NaN\<rparr> = Inr (ProportionalJitter NaN)
   \<and> shape_errors L \<lparr>rs_Length = no_dist, rs_InterTask = no_dist, rs_Abandon = NaN\<rparr> = []
   \<and> parseCurve L \<lparr>rcv_Location = ''UTC'', rcv_Weekday = replicate 24 NaN, rcv_Weekend = replicate 24 NaN\<rparr>
       = named ''location'' (case pl_LoadLocation L ''UTC'' of Inl e \<Rightarrow> Inl e
           | Inr loc \<Rightarrow> Inr (PiecewiseCurve (Some loc) (replicate 24 NaN) (replicate 24 NaN)))"
proof -
  have "out_of_unit 0 (replicate 24 NaN) = None" by (simp add: out_of_unit_None in_unit_def list_all_iff)
  then show ?thesis
    by (simp add: parseJitter_def shape_errors_def compileShape_def no_dist_def parseCurve_def named_def split: sum.splits)
qed

end
