(* ===== verification/Schedule.thy ===== *)
theory Schedule
  imports ScenarioTypes Shaping
begin

text \<open>
  The on/off schedule of a scenario: \<open>internal/schedule/schedule.go\<close>.

  The time zone database is a parameter: \<open>In loc t\<close> the wall-clock fields of an instant at a
  location, \<open>midnight loc t n\<close> the instant of local midnight \<open>n\<close> calendar days after the day of
  \<open>t\<close> (\<open>time.Date\<close> with \<open>AddDate\<close>). None is the panic of a nil location, which validation rules
  out. Section two instantiates both by the zones of a fixed offset.
\<close>

section \<open>The functions\<close>

definition sinceMidnight :: "localtime \<Rightarrow> duration" where
  "sinceMidnight t = int (lt_hour t) * hour + int (lt_minute t) * minute + int (lt_second t) * second
     + int (lt_nanosecond t)"

definition window_open :: "localtime \<Rightarrow> ScheduleWindow \<Rightarrow> bool" where
  "window_open t w \<longleftrightarrow> sw_Days w ! lt_weekday t \<and> sinceMidnight t \<ge> sw_Start w \<and> sinceMidnight t < sw_End w"

definition Active :: "('loc \<Rightarrow> instant \<Rightarrow> localtime) \<Rightarrow> 'loc Schedule \<Rightarrow> instant \<Rightarrow> bool option" where
  "Active In s t =
     (if length (sd_Windows s) = 0 then Some True
      else case sd_Loc s of None \<Rightarrow> None
           | Some loc \<Rightarrow> Some (list_ex (window_open (In loc t)) (sd_Windows s)))"

definition maxLookaheadDays :: nat where "maxLookaheadDays = 8"

definition dayEdges :: "('loc \<Rightarrow> instant \<Rightarrow> localtime) \<Rightarrow> 'loc \<Rightarrow> ScheduleWindow list \<Rightarrow> instant \<Rightarrow> instant list" where
  "dayEdges In loc ws base =
     sort (concat (map (\<lambda>w. if sw_Days w ! lt_weekday (In loc base)
                             then [time_add base (sw_Start w), time_add base (sw_End w)] else []) ws))"

text \<open>The inner loop: the first edge after \<open>t\<close> at which the state is not \<open>cur\<close>.\<close>

fun first_flip ::
  "('loc \<Rightarrow> instant \<Rightarrow> localtime) \<Rightarrow> 'loc Schedule \<Rightarrow> bool \<Rightarrow> instant \<Rightarrow> instant list \<Rightarrow> instant option" where
  "first_flip In s cur t [] = None"
| "first_flip In s cur t (e # es) =
     (if \<not> (t < e) then first_flip In s cur t es
      else if Active In s e \<noteq> Some cur then Some e
      else first_flip In s cur t es)"

fun scan_days ::
  "('loc \<Rightarrow> instant \<Rightarrow> localtime) \<Rightarrow> ('loc \<Rightarrow> instant \<Rightarrow> nat \<Rightarrow> instant) \<Rightarrow> 'loc \<Rightarrow> 'loc Schedule \<Rightarrow> bool
     \<Rightarrow> instant \<Rightarrow> nat list \<Rightarrow> instant" where
  "scan_days In midnight loc s cur t [] = zero_time"
| "scan_days In midnight loc s cur t (day # days) =
     (case first_flip In s cur t (dayEdges In loc (sd_Windows s) (midnight loc t day)) of
        Some e \<Rightarrow> e
      | None \<Rightarrow> scan_days In midnight loc s cur t days)"

definition NextTransition ::
  "('loc \<Rightarrow> instant \<Rightarrow> localtime) \<Rightarrow> ('loc \<Rightarrow> instant \<Rightarrow> nat \<Rightarrow> instant) \<Rightarrow> 'loc Schedule \<Rightarrow> instant
     \<Rightarrow> instant option" where
  "NextTransition In midnight s t =
     (if length (sd_Windows s) = 0 then Some zero_time
      else case sd_Loc s of None \<Rightarrow> None
           | Some loc \<Rightarrow>
               (case Active In s t of None \<Rightarrow> None
                | Some cur \<Rightarrow> Some (scan_days In midnight loc s cur t [0..<maxLookaheadDays])))"

section \<open>Zones of a fixed offset\<close>

text \<open>A location is its offset in nanoseconds; the epoch of the instants falls on weekday \<open>epoch_weekday\<close>.\<close>

definition day_ns :: int where "day_ns = 24 * hour"

definition epoch_weekday :: int where "epoch_weekday = 4"

definition fixed_In :: "int \<Rightarrow> instant \<Rightarrow> localtime" where
  "fixed_In off t =
     (let l = t + off; r = l mod day_ns
      in \<lparr>lt_weekday = nat ((l div day_ns + epoch_weekday) mod 7), lt_hour = nat (r div hour),
          lt_minute = nat (r mod hour div minute), lt_second = nat (r mod minute div second),
          lt_nanosecond = nat (r mod second)\<rparr>)"

definition fixed_midnight :: "int \<Rightarrow> instant \<Rightarrow> nat \<Rightarrow> instant" where
  "fixed_midnight off t n = ((t + off) div day_ns + int n) * day_ns - off"

lemma time_units_pos [simp]: "0 < hour" "0 < minute" "0 < second" "0 < day_ns"
  "day_ns \<noteq> 0" "0 \<le> day_ns" "\<not> day_ns \<le> 0"
  by (simp_all add: day_ns_def time_units)

lemma sinceMidnight_fixed: "sinceMidnight (fixed_In off t) = (t + off) mod day_ns"
proof -
  define r where "r = (t + off) mod day_ns"
  have r0: "0 \<le> r" by (simp add: r_def)
  have "r = r div hour * hour + r mod hour" by simp
  also have "r mod hour = r mod hour div minute * minute + r mod hour mod minute" by simp
  also have "r mod hour mod minute = r mod minute" by (rule mod_mod_cancel) (simp add: time_units)
  also have "r mod minute = r mod minute div second * second + r mod minute mod second" by simp
  also have "r mod minute mod second = r mod second" by (rule mod_mod_cancel) (simp add: time_units)
  finally have "r = r div hour * hour + (r mod hour div minute * minute + (r mod minute div second * second + r mod second))" .
  moreover have "0 \<le> r div hour" "0 \<le> r mod hour div minute" "0 \<le> r mod minute div second" "0 \<le> r mod second"
    using r0 by (simp_all add: pos_imp_zdiv_nonneg_iff)
  ultimately show ?thesis unfolding sinceMidnight_def fixed_In_def Let_def r_def [symmetric]
    by simp
qed


section \<open>The next flip\<close>

definition windows_valid :: "ScheduleWindow list \<Rightarrow> bool" where
  "windows_valid ws \<longleftrightarrow> list_all (\<lambda>w. 0 \<le> sw_Start w \<and> sw_Start w < sw_End w \<and> sw_End w \<le> day_ns) ws"

text \<open>The windows as spans of instants, one for each day they apply to.\<close>

definition on_day :: "int \<Rightarrow> ScheduleWindow \<Rightarrow> bool" where
  "on_day d w \<longleftrightarrow> sw_Days w ! nat ((d + epoch_weekday) mod 7)"

definition spans :: "int \<Rightarrow> ScheduleWindow list \<Rightarrow> (instant \<times> instant) set" where
  "spans off ws = {(d * day_ns - off + sw_Start w, d * day_ns - off + sw_End w) | d w. w \<in> set ws \<and> on_day d w}"

definition act :: "int \<Rightarrow> ScheduleWindow list \<Rightarrow> instant \<Rightarrow> bool" where
  "act off ws t \<longleftrightarrow> list_ex (window_open (fixed_In off t)) ws"

lemma window_open_fixed:
  "window_open (fixed_In off t) w \<longleftrightarrow> on_day ((t + off) div day_ns) w
     \<and> sw_Start w \<le> (t + off) mod day_ns \<and> (t + off) mod day_ns < sw_End w"
  by (simp add: window_open_def sinceMidnight_fixed on_day_def) (simp add: fixed_In_def Let_def)

lemma in_day:
  assumes "0 \<le> x" "x < day_ns" shows "(d * day_ns + x) div day_ns = d" "(d * day_ns + x) mod day_ns = x"
  using assms by simp_all

lemma act_spans:
  assumes "windows_valid ws"
  shows "act off ws t \<longleftrightarrow> (\<exists>(a, b) \<in> spans off ws. a \<le> t \<and> t < b)"
proof
  assume "act off ws t"
  then obtain w where w: "w \<in> set ws" "on_day ((t + off) div day_ns) w"
    "sw_Start w \<le> (t + off) mod day_ns" "(t + off) mod day_ns < sw_End w"
    by (auto simp: act_def list_ex_iff window_open_fixed)
  have "t = (t + off) div day_ns * day_ns - off + (t + off) mod day_ns"
    using div_mult_mod_eq [of "t + off" day_ns] by linarith
  then have "(t + off) div day_ns * day_ns - off + sw_Start w \<le> t" "t < (t + off) div day_ns * day_ns - off + sw_End w"
    using w(3,4) by linarith+
  then show "\<exists>(a, b) \<in> spans off ws. a \<le> t \<and> t < b" using w(1,2) by (auto simp: spans_def)
next
  assume "\<exists>(a, b) \<in> spans off ws. a \<le> t \<and> t < b"
  then obtain d w where w: "w \<in> set ws" "on_day d w" "d * day_ns - off + sw_Start w \<le> t" "t < d * day_ns - off + sw_End w"
    by (auto simp: spans_def)
  define x where "x = t + off - d * day_ns"
  have x: "0 \<le> x" "x < day_ns" "sw_Start w \<le> x" "x < sw_End w"
    using w assms by (auto simp: x_def windows_valid_def list_all_iff)
  have t: "t + off = d * day_ns + x" by (simp add: x_def)
  have "window_open (fixed_In off t) w"
    using w(2) x(3,4) in_day [OF x(1,2)] by (simp add: window_open_fixed t)
  then show "act off ws t" using w(1) by (auto simp: act_def list_ex_iff)
qed

text \<open>Between two instants of different state lies an edge at which the state has changed.\<close>

lemma flip_at_edge:
  assumes "windows_valid ws" "t < t'" "act off ws t' \<noteq> act off ws t"
  shows "\<exists>e. t < e \<and> e \<le> t' \<and> e \<in> fst ` spans off ws \<union> snd ` spans off ws \<and> act off ws e \<noteq> act off ws t"
proof (cases "act off ws t")
  case False
  then obtain a b where ab: "(a, b) \<in> spans off ws" "a \<le> t'" "t' < b"
    using assms act_spans by blast
  then have "t < a" using False assms(1,2) act_spans [of ws off t] by force
  moreover have "act off ws a" using ab act_spans [OF assms(1)] by force
  ultimately show ?thesis using ab False by (intro exI [of _ a]) (auto simp: image_iff intro: bexI [of _ "(a, b)"])
next
  case True
  define S where "S = {b. b \<in> snd ` spans off ws \<and> t < b \<and> b \<le> t'}"
  have fin: "finite S" by (rule finite_subset [of _ "{t..t'}"]) (auto simp: S_def)
  obtain a b where ab: "(a, b) \<in> spans off ws" "a \<le> t" "t < b" using True assms(1) act_spans by blast
  have na: "\<not> act off ws t'" using assms(3) True by simp
  have "b \<in> S" using ab na assms(2) act_spans [OF assms(1), of off t'] by (force simp: S_def)
  then have ne: "S \<noteq> {}" by blast
  let ?m = "Max S"
  have m: "?m \<in> S" by (rule Max_in [OF fin ne])
  have "\<not> act off ws ?m"
  proof
    assume "act off ws ?m"
    then obtain a' b' where ab': "(a', b') \<in> spans off ws" "a' \<le> ?m" "?m < b'"
      using act_spans [OF assms(1)] by blast
    then have "b' \<notin> S" using Max_ge [OF fin] by force
    then have "t' < b'" using ab' m by (force simp: S_def image_iff)
    then show False using ab' m na act_spans [OF assms(1), of off t'] by (force simp: S_def)
  qed
  then show ?thesis using m True by (intro exI [of _ ?m]) (auto simp: S_def)
qed

lemma act_week: "act off ws (t + 7 * day_ns * k) = act off ws t"
proof -
  have e: "t + 7 * day_ns * k + off = (t + off) + 7 * k * day_ns" by simp
  have d: "((t + off) + 7 * k * day_ns) div day_ns = (t + off) div day_ns + 7 * k" by (simp add: less_imp_neq [symmetric])
  have m: "((t + off) + 7 * k * day_ns) mod day_ns = (t + off) mod day_ns" by simp
  have "(x + 7 * k + epoch_weekday) mod 7 = (x + epoch_weekday) mod 7" for x
    using mod_mult_self2 [of "x + epoch_weekday" 7 k] by (simp add: algebra_simps)
  then show ?thesis
    unfolding act_def list_ex_iff window_open_fixed e d m on_day_def by simp
qed

lemma act_for_ever:
  assumes "\<And>t'. t < t' \<Longrightarrow> t' \<le> t + 7 * day_ns \<Longrightarrow> act off ws t' = act off ws t" "t < t'"
  shows "act off ws t' = act off ws t"
proof -
  define r where "r = (t' - t - 1) mod (7 * day_ns)"
  define k where "k = (t' - t - 1) div (7 * day_ns)"
  have "t' = (t + r + 1) + 7 * day_ns * k" by (simp add: r_def k_def)
  then have "act off ws t' = act off ws (t + r + 1)" using act_week by simp
  also have "\<dots> = act off ws t"
  proof (rule assms(1))
    have "0 \<le> r" "r < 7 * day_ns" by (simp_all add: r_def)
    then show "t < t + r + 1" "t + r + 1 \<le> t + 7 * day_ns" by linarith+
  qed
  finally show ?thesis .
qed


section \<open>The scan visits the edges in order\<close>

definition all_edges :: "int \<Rightarrow> ScheduleWindow list \<Rightarrow> instant \<Rightarrow> nat list \<Rightarrow> instant list" where
  "all_edges off ws t days = concat (map (\<lambda>n. dayEdges fixed_In off ws (fixed_midnight off t n)) days)"

lemma first_flip_append:
  "first_flip In s cur t (xs @ ys) =
     (case first_flip In s cur t xs of Some e \<Rightarrow> Some e | None \<Rightarrow> first_flip In s cur t ys)"
  by (induction xs) auto

lemma scan_days_flat:
  "scan_days fixed_In fixed_midnight off s cur t days =
     (case first_flip fixed_In s cur t (all_edges off (sd_Windows s) t days) of Some e \<Rightarrow> e | None \<Rightarrow> zero_time)"
  by (induction days) (auto simp: all_edges_def first_flip_append split: option.splits)

lemma first_flip_None:
  "first_flip In s cur t es = None \<longleftrightarrow> (\<forall>e \<in> set es. t < e \<longrightarrow> Active In s e = Some cur)"
  by (induction es) auto

lemma first_flip_Some:
  "sorted es \<Longrightarrow> first_flip In s cur t es = Some e \<Longrightarrow>
     e \<in> set es \<and> t < e \<and> Active In s e \<noteq> Some cur
     \<and> (\<forall>e' \<in> set es. t < e' \<longrightarrow> e' < e \<longrightarrow> Active In s e' = Some cur)"
  by (induction es) (auto split: if_splits)

lemma base_weekday: "lt_weekday (fixed_In off (fixed_midnight off t n))
    = nat (((t + off) div day_ns + int n + epoch_weekday) mod 7)"
  using time_units_pos(4) by (simp add: fixed_In_def fixed_midnight_def Let_def)

text \<open>The day an instant falls on.\<close>

lemma day_bounds:
  "(t + off) div day_ns * day_ns \<le> t + off" "t + off < ((t + off) div day_ns + 1) * day_ns"
proof -
  have "0 \<le> (t + off) mod day_ns" "(t + off) mod day_ns < day_ns" by simp_all
  then show "(t + off) div day_ns * day_ns \<le> t + off" "t + off < ((t + off) div day_ns + 1) * day_ns"
    using div_mult_mod_eq [of "t + off" day_ns] unfolding distrib_right by linarith+
qed

lemma set_dayEdges:
  "set (dayEdges fixed_In off ws (fixed_midnight off t n)) =
     {e. \<exists>w \<in> set ws. on_day ((t + off) div day_ns + int n) w
        \<and> (e = fixed_midnight off t n + sw_Start w \<or> e = fixed_midnight off t n + sw_End w)}"
  unfolding dayEdges_def base_weekday on_day_def
  by (auto simp: time_add_def split: if_splits)

lemma dayEdges_within:
  "windows_valid ws \<Longrightarrow> e \<in> set (dayEdges fixed_In off ws (fixed_midnight off t n)) \<Longrightarrow>
     fixed_midnight off t n \<le> e \<and> e \<le> fixed_midnight off t (Suc n)"
  unfolding set_dayEdges
  by (auto simp: windows_valid_def list_all_iff fixed_midnight_def algebra_simps)


lemma fixed_midnight_mono: "n \<le> m \<Longrightarrow> fixed_midnight off t n \<le> fixed_midnight off t m"
  by (simp add: fixed_midnight_def mult_right_mono)

lemma sorted_all_edges:
  assumes "windows_valid ws" shows "sorted (all_edges off ws t [k..<n])"
proof (induction n)
  case 0
  then show ?case by (simp add: all_edges_def)
next
  case (Suc n)
  show ?case
  proof (cases "k \<le> n")
    case False
    then show ?thesis by (simp add: all_edges_def)
  next
    case True
    have a: "all_edges off ws t [k..<Suc n] = all_edges off ws t [k..<n]
        @ dayEdges fixed_In off ws (fixed_midnight off t n)"
      using True by (simp add: all_edges_def)
    have "x \<le> y" if x: "x \<in> set (all_edges off ws t [k..<n])"
      and y: "y \<in> set (dayEdges fixed_In off ws (fixed_midnight off t n))" for x y
    proof -
      obtain m where m: "m < n" "x \<in> set (dayEdges fixed_In off ws (fixed_midnight off t m))"
        using x by (auto simp: all_edges_def)
      have "x \<le> fixed_midnight off t (Suc m)" using dayEdges_within [OF assms m(2)] by simp
      also have "\<dots> \<le> fixed_midnight off t n" using m(1) by (intro fixed_midnight_mono) simp
      also have "\<dots> \<le> y" using dayEdges_within [OF assms y] by simp
      finally show ?thesis .
    qed
    moreover have "sorted (dayEdges fixed_In off ws (fixed_midnight off t n))" by (simp add: dayEdges_def)
    ultimately show ?thesis using Suc unfolding a by (simp add: sorted_append)
  qed
qed

text \<open>Every edge of the next eight days is among the scanned ones.\<close>

lemma edge_scanned:
  assumes "windows_valid ws" "e \<in> fst ` spans off ws \<union> snd ` spans off ws"
    and "t < e" "e < fixed_midnight off t 8"
  shows "e \<in> set (all_edges off ws t [0..<8])"
proof -
  let ?d0 = "(t + off) div day_ns"
  obtain d w where w: "w \<in> set ws" "on_day d w"
    "e = d * day_ns - off + sw_Start w \<or> e = d * day_ns - off + sw_End w"
    using assms(2) by (auto simp: spans_def)
  have v: "0 \<le> sw_Start w" "sw_Start w < sw_End w" "sw_End w \<le> day_ns"
    using assms(1) w(1) by (auto simp: windows_valid_def list_all_iff)
  have e: "d * day_ns - off \<le> e" "e \<le> (d + 1) * day_ns - off" using w(3) v by (auto simp: algebra_simps)
  have "?d0 * day_ns < (d + 1) * day_ns" using day_bounds(1) [of t off] e(2) assms(3) by linarith
  then have lo: "?d0 \<le> d" by (simp add: mult_less_cancel_right)
  have "fixed_midnight off t 8 = (?d0 + 8) * day_ns - off" by (simp add: fixed_midnight_def)
  then have "d * day_ns < (?d0 + 8) * day_ns" using e(1) assms(4) by linarith
  then have hi: "d < ?d0 + 8" by (simp add: mult_less_cancel_right)
  define n where "n = nat (d - ?d0)"
  have n: "n < 8" "?d0 + int n = d" using lo hi by (simp_all add: n_def)
  have "e \<in> set (dayEdges fixed_In off ws (fixed_midnight off t n))"
    unfolding set_dayEdges unfolding fixed_midnight_def n(2) using w by auto
  then show ?thesis using n(1) by (auto simp: all_edges_def)
qed

lemma Active_act: "sd_Windows s \<noteq> [] \<Longrightarrow> sd_Loc s = Some off \<Longrightarrow>
    Active fixed_In s t = Some (act off (sd_Windows s) t)"
  by (simp add: Active_def act_def)

lemma after_scan: "t + 7 * day_ns < fixed_midnight off t 8"
  using day_bounds(2) [of t off] by (simp add: fixed_midnight_def distrib_right)

lemma next_flip:
  assumes "sd_Loc s = Some off" "windows_valid (sd_Windows s)" "zero_time \<le> t"
  shows "\<exists>cur r. Active fixed_In s t = Some cur \<and> NextTransition fixed_In fixed_midnight s t = Some r
    \<and> (if r = zero_time then \<forall>t' > t. Active fixed_In s t' = Some cur
       else t < r \<and> Active fixed_In s r \<noteq> Some cur
          \<and> (\<forall>t'. t \<le> t' \<and> t' < r \<longrightarrow> Active fixed_In s t' = Some cur))"
proof (cases "sd_Windows s = []")
  case True
  then show ?thesis by (intro exI [of _ True] exI [of _ zero_time]) (simp add: Active_def NextTransition_def)
next
  case False
  let ?ws = "sd_Windows s" and ?cur = "act off (sd_Windows s) t"
  note A = Active_act [OF False assms(1)]
  let ?es = "all_edges off ?ws t [0..<8]"
  have n: "NextTransition fixed_In fixed_midnight s t =
      Some (case first_flip fixed_In s ?cur t ?es of Some e \<Rightarrow> e | None \<Rightarrow> zero_time)"
    using False assms(1) by (simp add: NextTransition_def A scan_days_flat maxLookaheadDays_def)
  have flip: "\<exists>e \<in> set ?es. t < e \<and> e \<le> t' \<and> Active fixed_In s e \<noteq> Some ?cur"
    if h: "t < t'" "t' < fixed_midnight off t 8" "act off ?ws t' \<noteq> ?cur" for t'
  proof -
    obtain e where e: "t < e" "e \<le> t'" "e \<in> fst ` spans off ?ws \<union> snd ` spans off ?ws" "act off ?ws e \<noteq> ?cur"
      using flip_at_edge [OF assms(2) h(1,3)] by blast
    moreover have "e \<in> set ?es" using edge_scanned [OF assms(2) e(3,1)] e(2) h(2) by simp
    ultimately show ?thesis by (auto simp: A)
  qed
  show ?thesis
  proof (cases "first_flip fixed_In s ?cur t ?es")
    case None
    have near: "act off ?ws t' = ?cur" if h: "t < t'" "t' \<le> t + 7 * day_ns" for t'
    proof (rule ccontr)
      assume "act off ?ws t' \<noteq> ?cur"
      moreover have "t' < fixed_midnight off t 8" using h(2) after_scan [of t off] by simp
      ultimately show False using flip [OF h(1)] None unfolding first_flip_None by blast
    qed
    have "act off ?ws t' = ?cur" if "t < t'" for t'
      by (rule act_for_ever [OF near that])
    then have "\<forall>t' > t. Active fixed_In s t' = Some ?cur" by (simp add: A)
    then show ?thesis using n None by (intro exI [of _ ?cur] exI [of _ zero_time]) (simp add: A)
  next
    case (Some e)
    note f = first_flip_Some [OF sorted_all_edges [OF assms(2)] Some]
    then obtain m where "m < 8" "e \<in> set (dayEdges fixed_In off ?ws (fixed_midnight off t m))"
      by (auto simp: all_edges_def)
    then have e8: "e \<le> fixed_midnight off t 8"
      using dayEdges_within [OF assms(2)] fixed_midnight_mono [of "Suc m" 8 off t] by fastforce
    have same: "act off ?ws t' = ?cur" if h: "t \<le> t'" "t' < e" for t'
    proof (rule ccontr)
      assume d: "act off ?ws t' \<noteq> ?cur"
      with h have "t < t'" by (cases "t' = t") auto
      moreover have "t' < fixed_midnight off t 8" using h(2) e8 by simp
      ultimately obtain e' where e': "e' \<in> set ?es" "t < e'" "e' \<le> t'" "Active fixed_In s e' \<noteq> Some ?cur"
        using flip [of t'] d by blast
      have "\<forall>e' \<in> set ?es. t < e' \<longrightarrow> e' < e \<longrightarrow> Active fixed_In s e' = Some ?cur" using f by (elim conjE)
      moreover have "e' < e" using e'(3) h(2) by simp
      ultimately show False using e'(1,2,4) by blast
    qed
    have all: "\<forall>t'. t \<le> t' \<and> t' < e \<longrightarrow> Active fixed_In s t' = Some ?cur"
    proof (intro allI impI)
      fix t' assume h: "t \<le> t' \<and> t' < e"
      have "act off ?ws t' = ?cur" by (rule same [OF conjunct1 [OF h] conjunct2 [OF h]])
      then have "Some (act off ?ws t') = Some ?cur" by (rule arg_cong)
      then show "Active fixed_In s t' = Some ?cur" unfolding A [of t'] .
    qed
    have te: "t < e" using f by (elim conjE)
    have fe: "Active fixed_In s e \<noteq> Some ?cur" using f by (elim conjE)
    have ne: "e \<noteq> zero_time" using te assms(3) by simp
    have nt: "NextTransition fixed_In fixed_midnight s t = Some e" using n Some by simp
    show ?thesis
    proof (intro exI conjI)
      show "Active fixed_In s t = Some ?cur" by (rule A)
      show "NextTransition fixed_In fixed_midnight s t = Some e" by (rule nt)
      show "if e = zero_time then \<forall>t' > t. Active fixed_In s t' = Some ?cur
        else t < e \<and> Active fixed_In s e \<noteq> Some ?cur
          \<and> (\<forall>t'. t \<le> t' \<and> t' < e \<longrightarrow> Active fixed_In s t' = Some ?cur)"
        unfolding if_not_P [OF ne] using te fe all by (intro conjI)
    qed
  qed
qed

text \<open>C38. In a zone of a fixed offset, for validated windows and an instant after the zero time:
  \<open>NextTransition\<close> is the next flip. It answers the zero time exactly for a schedule that never
  flips again, and otherwise an instant after \<open>t\<close> at which the state differs, with the state
  constant until then. The look-ahead of eight days is thus enough.\<close>

theorem next_transition_is_the_next_flip:
  assumes "sd_Loc s = Some off" "windows_valid (sd_Windows s)" "zero_time \<le> t"
  shows "\<exists>cur r. Active fixed_In s t = Some cur \<and> NextTransition fixed_In fixed_midnight s t = Some r
    \<and> (if r = zero_time then \<forall>t' > t. Active fixed_In s t' = Some cur
       else t < r \<and> Active fixed_In s r \<noteq> Some cur
          \<and> (\<forall>t'. t \<le> t' \<and> t' < r \<longrightarrow> Active fixed_In s t' = Some cur))"
  using next_flip [OF assms] .

definition office_hours :: "int Schedule" where
  "office_hours = \<lparr>sd_Loc = Some 0,
     sd_Windows = [\<lparr>sw_Days = [False, True, True, True, True, True, False], sw_Start = 8 * hour, sw_End = 10 * hour\<rparr>]\<rparr>"

text \<open>Thursday, 1 January 1970, 09:00 UTC: the office closes at ten.\<close>

theorem next_transition_is_the_next_flip_witness:
  "NextTransition fixed_In fixed_midnight office_hours (9 * hour) = Some (10 * hour)
   \<and> Active fixed_In office_hours (9 * hour) = Some True
   \<and> Active fixed_In office_hours (10 * hour - 1) = Some True
   \<and> Active fixed_In office_hours (10 * hour) \<noteq> Some True"
proof -
  have n: "NextTransition fixed_In fixed_midnight office_hours (9 * hour) = Some (10 * hour)"
    "Active fixed_In office_hours (9 * hour) = Some True"
    by code_simp+
  have "zero_time \<le> 9 * hour" and z: "10 * hour \<noteq> zero_time" and "windows_valid (sd_Windows office_hours)"
    "sd_Loc office_hours = Some 0"
    by (simp_all add: zero_time_def time_units windows_valid_def office_hours_def day_ns_def)
  then obtain cur r where "Active fixed_In office_hours (9 * hour) = Some cur"
      "NextTransition fixed_In fixed_midnight office_hours (9 * hour) = Some r"
      and c: "if r = zero_time then \<forall>t' > 9 * hour. Active fixed_In office_hours t' = Some cur
       else 9 * hour < r \<and> Active fixed_In office_hours r \<noteq> Some cur
          \<and> (\<forall>t'. 9 * hour \<le> t' \<and> t' < r \<longrightarrow> Active fixed_In office_hours t' = Some cur)"
    using next_transition_is_the_next_flip [of office_hours 0 "9 * hour"] by blast
  then have e: "cur = True" "r = 10 * hour" using n by simp_all
  have "9 * hour \<le> 10 * hour - 1" "10 * hour - 1 < 10 * hour" by (simp_all add: time_units)
  then show ?thesis using c n z unfolding e by auto
qed

section \<open>A day with a change of the clocks\<close>

text \<open>A zone whose clocks go forward by one hour at 02:00 of the day the epoch starts.\<close>

definition spring_In :: "int \<Rightarrow> instant \<Rightarrow> localtime" where
  "spring_In loc t = fixed_In (if t < 2 * hour then 0 else hour) t"

definition spring_midnight :: "int \<Rightarrow> instant \<Rightarrow> nat \<Rightarrow> instant" where
  "spring_midnight loc t n =
     (let d = (if t < 2 * hour then fixed_midnight 0 t 0 else fixed_midnight hour t 0 + hour) + int n * day_ns
      in if d < 2 * hour then d else d - hour)"

text \<open>On a day with a change of the clocks the answer is not the next flip: edges are midnight
  plus the window's start as elapsed time, so with clocks going forward at two the window from
  eight to ten opens, by the wall clock and by \<open>Active\<close>, an hour before the announced instant.\<close>

theorem clock_change_shifts_the_edge:
  "NextTransition spring_In spring_midnight office_hours hour = Some (8 * hour)
   \<and> Active spring_In office_hours hour = Some False
   \<and> Active spring_In office_hours (7 * hour) = Some True"
  by code_simp

end
