(* ===== verification/Validate.thy ===== *)
theory Validate
  imports Persona Schedule
begin

text \<open>
  The validator of scenario files (\<open>internal/scenario/validate.go\<close>) and the size and decode gate
  in front of it (\<open>load.go\<close>), with the built-in persona library (\<open>internal/persona/load.go\<close>).

  \<open>Validate\<close> is pure and total: it answers the frozen scenario, or every problem of the file. The
  accumulator is passed through the checks in the order of the code. Its parameters are those of
  the persona decoders, the loaded built-in personas, the Unicode case tables of
  \<open>strings.ToLower\<close> and the rendering of a cap violation.
\<close>

section \<open>Built-in personas\<close>

definition DefaultPersonaName :: string where "DefaultPersonaName = ''office-worker''"

text \<open>The loop of \<open>loadBuiltins\<close> over the names of the embedded directory. Reading and YAML
  decoding answer the text of their error.\<close>

fun load_entries ::
  "'loc PLib \<Rightarrow> (string \<Rightarrow> string + string) \<Rightarrow> (string \<Rightarrow> string + RawPersona) \<Rightarrow> (string \<rightharpoonup> 'loc Persona)
     \<Rightarrow> string list \<Rightarrow> string + (string \<rightharpoonup> 'loc Persona)" where
  "load_entries L readFile decode out [] = Inr out"
| "load_entries L readFile decode out (n # ns) =
     (case readFile (''personas/'' @ n) of
        Inl e \<Rightarrow> Inl (''persona: read '' @ n @ '': '' @ e)
      | Inr data \<Rightarrow>
     (case decode data of
        Inl e \<Rightarrow> Inl (''persona: decode '' @ n @ '': '' @ e)
      | Inr raw \<Rightarrow>
     (case Compile L raw of
        Inl es \<Rightarrow> Inl (''persona: compile '' @ n @ '': '' @ FieldErrors_Error es)
      | Inr p \<Rightarrow>
          if out (pn_Name p) \<noteq> None then Inl (''persona: duplicate built-in name '' @ pl_Quote L (pn_Name p))
          else load_entries L readFile decode (out(pn_Name p \<mapsto> p)) ns)))"

definition loadBuiltins ::
  "'loc PLib \<Rightarrow> string + string list \<Rightarrow> (string \<Rightarrow> string + string) \<Rightarrow> (string \<Rightarrow> string + RawPersona)
     \<Rightarrow> string + (string \<rightharpoonup> 'loc Persona)" where
  "loadBuiltins L dir readFile decode =
     (case dir of
        Inl e \<Rightarrow> Inl (''persona: read embedded dir: '' @ e)
      | Inr names \<Rightarrow> load_entries L readFile decode Map.empty names)"

definition persona_Lookup ::
  "string + (string \<rightharpoonup> 'loc Persona) \<Rightarrow> string \<Rightarrow> string + 'loc Persona option" where
  "persona_Lookup bs name = (case bs of Inl e \<Rightarrow> Inl e | Inr m \<Rightarrow> Inr (m name))"

section \<open>Hosts and targets\<close>

definition hostMaxLen :: nat where "hostMaxLen = 253"
definition labelMaxLen :: nat where "labelMaxLen = 63"

definition label_char :: "char \<Rightarrow> bool" where
  "label_char c \<longleftrightarrow> (let n = of_char c :: nat in
     97 \<le> n \<and> n \<le> 122 \<or> 65 \<le> n \<and> n \<le> 90 \<or> 48 \<le> n \<and> n \<le> 57 \<or> c = CHR ''-'')"

definition validLabel :: "string \<Rightarrow> bool" where
  "validLabel label =
     (if label = '''' \<or> length label > labelMaxLen then False
      else if hd label = CHR ''-'' \<or> last label = CHR ''-'' then False
      else list_all label_char label)"

definition validHost :: "string \<Rightarrow> bool" where
  "validHost host =
     (if host = '''' then False
      else if ParseIP_ok host then True
      else if length host > hostMaxLen then False
      else list_all validLabel (SplitByte host (CHR ''.'')))"

text \<open>The host of an address and its port when it has one; None is the refusal of a second colon.\<close>

definition split_target :: "string \<Rightarrow> (string \<times> string option) option" where
  "split_target raw =
     (if HasPrefix raw ''[''
      then (case SplitHostPort raw of
              Some (h, p) \<Rightarrow> Some (h, Some p)
            | None \<Rightarrow> Some (TrimSuffix (TrimPrefix raw ''['') '']'', None))
      else if CountByte raw (CHR '':'') = 1
      then (case LastIndexByte raw (CHR '':'') of
              Some i \<Rightarrow> Some (take i raw, Some (drop (i + 1) raw))
            | None \<Rightarrow> None)
      else if CountByte raw (CHR '':'') > 1 then None
      else Some (raw, None))"

definition port_ok :: "string \<Rightarrow> bool" where
  "port_ok port = (case Atoi port of None \<Rightarrow> False | Some n \<Rightarrow> 1 \<le> n \<and> n \<le> 65535)"

definition validateTarget :: "string \<Rightarrow> ProtocolID \<Rightarrow> string + Target" where
  "validateTarget addr proto =
     (let raw = TrimSpace addr in
      if raw = '''' then Inl ''target must be non-empty''
      else if Contains raw ''://'' then Inl ''target must be host[:port], not a URL (remove the scheme)''
      else if Contains raw ''@'' then Inl ''target must not contain embedded credentials ('@')''
      else case split_target raw of
             None \<Rightarrow> Inl ''target host is not a valid hostname or IP''
           | Some (host, port) \<Rightarrow>
               if (case port of None \<Rightarrow> False | Some p \<Rightarrow> \<not> port_ok p) then Inl ''port must be in 1..65535''
               else if \<not> validHost host then Inl ''target host is not a valid hostname or IP''
               else Inr \<lparr>t_ID = raw, t_Proto = proto, t_Addr = raw, t_Cred = zero_CredentialRef, t_Proxy = []\<rparr>)"

definition toCapSpec :: "RawCaps \<Rightarrow> CapSpec" where
  "toCapSpec rc = \<lparr>cs_PerTargetRPS = rc_PerTargetRPS rc, cs_GlobalRPS = rc_GlobalRPS rc,
     cs_MaxConcurrentSessions = rc_MaxConcurrentSessions rc, cs_TotalRequestBudget = rc_TotalRequestBudget rc,
     cs_StreamingByteRateKbps = rc_StreamingByteRateKbps rc, cs_ConcurrentStreams = rc_ConcurrentStreams rc,
     cs_PerSessionMaxDurationSeconds = rc_PerSessionMaxDurationSeconds rc,
     cs_PerSessionMaxActions = rc_PerSessionMaxActions rc\<rparr>"

definition idx_path :: "string \<Rightarrow> nat \<Rightarrow> string" where
  "idx_path p i = p @ ''['' @ Itoa (int i) @ '']''"

fun validateAllowedDomains :: "nat \<Rightarrow> string list \<Rightarrow> FieldError list \<Rightarrow> FieldError list" where
  "validateAllowedDomains i [] acc = acc"
| "validateAllowedDomains i (d # ds) acc =
     validateAllowedDomains (Suc i) ds
       (if validHost (TrimSpace d) then acc
        else acc_add acc (idx_path ''allowed_domains'' i) ''not a valid hostname'')"

section \<open>The schedule\<close>

definition weekdayByName :: "string \<Rightarrow> nat option" where
  "weekdayByName = map_of [(''sun'', 0), (''mon'', 1), (''tue'', 2), (''wed'', 3), (''thu'', 4), (''fri'', 5), (''sat'', 6)]"

definition parseHHMM :: "string \<Rightarrow> duration option" where
  "parseHHMM s =
     (case SplitByte (TrimSpace s) (CHR '':'') of
        [a, b] \<Rightarrow>
          (case (Atoi a, Atoi b) of
             (Some h, Some m) \<Rightarrow>
               if h < 0 \<or> h > 23 \<or> m < 0 \<or> m > 59 then None else Some (h * hour + m * minute)
           | _ \<Rightarrow> None)
      | _ \<Rightarrow> None)"

definition scheduleWindowPath :: "nat \<Rightarrow> string \<Rightarrow> string" where
  "scheduleWindowPath i sub = idx_path ''schedule.windows'' i @ ''.'' @ sub"

text \<open>The day loop of \<open>validateWindow\<close> from index \<open>j\<close>.\<close>

fun window_days ::
  "'loc PLib \<Rightarrow> (string \<Rightarrow> string) \<Rightarrow> nat \<Rightarrow> nat \<Rightarrow> string list \<Rightarrow> FieldError list \<times> bool list
     \<Rightarrow> FieldError list \<times> bool list" where
  "window_days L uni i j [] a = a"
| "window_days L uni i j (d # ds) (acc, days) =
     window_days L uni i (Suc j) ds
       (case weekdayByName (ToLower uni (TrimSpace d)) of
          None \<Rightarrow> (acc_add acc (idx_path (scheduleWindowPath i ''days'') j) (''unknown day '' @ pl_Quote L d), days)
        | Some wd \<Rightarrow> (acc, days[wd := True]))"

definition validateWindow ::
  "'loc PLib \<Rightarrow> (string \<Rightarrow> string) \<Rightarrow> nat \<Rightarrow> RawWindow \<Rightarrow> FieldError list \<Rightarrow> FieldError list \<times> ScheduleWindow" where
  "validateWindow L uni i rw acc =
     (let acc1 = (if length (rw_Days rw) = 0
                  then acc_add acc (scheduleWindowPath i ''days'') ''at least one day is required'' else acc);
          (acc2, days) = window_days L uni i 0 (rw_Days rw) (acc1, replicate 7 False);
          start = parseHHMM (rw_Start rw);
          acc3 = (if start = None then acc_add acc2 (scheduleWindowPath i ''start'') ''start must be HH:MM in 00:00..23:59''
                  else acc2);
          en = parseHHMM (rw_End rw);
          acc4 = (if en = None then acc_add acc3 (scheduleWindowPath i ''end'') ''end must be HH:MM in 00:00..23:59''
                  else acc3);
          acc5 = (case (start, en) of
                    (Some s, Some e) \<Rightarrow>
                      if e \<le> s then acc_add acc4 (scheduleWindowPath i ''end'')
                                      ''end must be after start (no cross-midnight windows)'' else acc4
                  | _ \<Rightarrow> acc4);
          zero = (\<lambda>x. case x of None \<Rightarrow> 0 | Some d \<Rightarrow> d)
      in (acc5, \<lparr>sw_Days = days, sw_Start = zero start, sw_End = zero en\<rparr>))"

fun validateWindows ::
  "'loc PLib \<Rightarrow> (string \<Rightarrow> string) \<Rightarrow> nat \<Rightarrow> RawWindow list \<Rightarrow> FieldError list \<Rightarrow> FieldError list \<times> ScheduleWindow list" where
  "validateWindows L uni i [] acc = (acc, [])"
| "validateWindows L uni i (rw # rws) acc =
     (case validateWindow L uni i rw acc of (acc1, w) \<Rightarrow>
      case validateWindows L uni (Suc i) rws acc1 of (acc2, ws) \<Rightarrow> (acc2, w # ws))"

definition validateSchedule ::
  "'loc PLib \<Rightarrow> (string \<Rightarrow> string) \<Rightarrow> RawSchedule option \<Rightarrow> FieldError list \<Rightarrow> FieldError list \<times> 'loc Schedule" where
  "validateSchedule L uni rso acc =
     (case rso of
        None \<Rightarrow> (acc, \<lparr>sd_Loc = None, sd_Windows = []\<rparr>)
      | Some rs \<Rightarrow>
          (let (acc1, loc) = (case pl_LoadLocation L (rsd_Timezone rs) of
                 Inl e \<Rightarrow> (acc_add acc ''schedule.timezone'' (''failed to load timezone '' @ pl_Quote L (rsd_Timezone rs)), None)
               | Inr l \<Rightarrow> (acc, Some l));
               (acc2, ws) = validateWindows L uni 0 (rsd_Windows rs) acc1
           in (acc2, \<lparr>sd_Loc = loc, sd_Windows = ws\<rparr>)))"

section \<open>Blocks\<close>

record Options =
  op_AllowInsecure :: bool
  op_CapOverride :: bool
  op_AgentCount :: int

definition fieldPath :: "nat \<Rightarrow> string \<Rightarrow> string" where
  "fieldPath i sub = idx_path ''scenarios'' i @ ''.'' @ sub"

definition zero_RampPlan :: RampPlan where
  "zero_RampPlan = \<lparr>rp_Up = 0, rp_StartConcurrency = 0\<rparr>"

text \<open>The custom personas, each compiled; its errors are filed under its index.\<close>

fun resolve_customs ::
  "'loc PLib \<Rightarrow> nat \<Rightarrow> RawPersona list \<Rightarrow> FieldError list \<times> (string \<rightharpoonup> 'loc Persona)
     \<Rightarrow> FieldError list \<times> (string \<rightharpoonup> 'loc Persona)" where
  "resolve_customs L i [] a = a"
| "resolve_customs L i (rp # rps) (acc, out) =
     resolve_customs L (Suc i) rps
       (case Compile L rp of
          Inl es \<Rightarrow> (foldl (\<lambda>acc fe. acc_add acc (idx_path ''personas'' i @ ''.'' @ fe_Field fe) (fe_Msg fe)) acc es, out)
        | Inr p \<Rightarrow> (acc, out(pn_Name p \<mapsto> p)))"

definition resolvePersonas ::
  "'loc PLib \<Rightarrow> string + (string \<rightharpoonup> 'loc Persona) \<Rightarrow> RawPersona list \<Rightarrow> FieldError list
     \<Rightarrow> FieldError list \<times> (string \<rightharpoonup> 'loc Persona)" where
  "resolvePersonas L builtins raws acc =
     resolve_customs L 0 raws
       (case builtins of
          Inl e \<Rightarrow> (acc_add acc ''personas'' (''internal: failed to load built-in personas: '' @ e), Map.empty)
        | Inr m \<Rightarrow> (acc, m))"

definition validateBlockLoad ::
  "nat \<Rightarrow> RawBlock \<Rightarrow> int \<Rightarrow> FieldError list \<Rightarrow> FieldError list \<times> int \<times> duration \<times> int" where
  "validateBlockLoad i rb maxConcurrent acc =
     (let concurrency = (if rb_Concurrency rb = 0 then 1 else rb_Concurrency rb);
          acc1 = (if concurrency < 1 then acc_add acc (fieldPath i ''concurrency'') ''must be >= 1''
                  else if concurrency > maxConcurrent
                  then acc_add acc (fieldPath i ''concurrency'') (''concurrency '' @ Itoa concurrency
                         @ '' exceeds the effective max_concurrent_sessions cap of '' @ Itoa maxConcurrent)
                  else acc);
          acc2 = (if rb_DurationMinutes rb < 1 then acc_add acc1 (fieldPath i ''duration_minutes'') ''must be >= 1''
                  else acc1);
          dur = i64 (rb_DurationMinutes rb * minute);
          weight = (if rb_Weight rb = 0 then 1 else rb_Weight rb)
      in (acc2, concurrency, dur, weight))"

definition validateRamp ::
  "nat \<Rightarrow> RawRamp option \<Rightarrow> int \<Rightarrow> duration \<Rightarrow> FieldError list \<Rightarrow> FieldError list \<times> RampPlan" where
  "validateRamp i rro concurrency dur acc =
     (case rro of
        None \<Rightarrow> (acc, zero_RampPlan)
      | Some rr \<Rightarrow>
          (let up = i64 (rr_UpSeconds rr * second);
               acc1 = (if rr_UpSeconds rr < 0 then acc_add acc (fieldPath i ''ramp.up_seconds'') ''must be >= 0''
                       else if up > dur
                       then acc_add acc (fieldPath i ''ramp.up_seconds'') ''up_seconds must be <= the block duration''
                       else acc);
               start = (if rr_StartConcurrency rr = 0 then concurrency else rr_StartConcurrency rr);
               acc2 = (if start < 1 \<or> start > concurrency
                       then acc_add acc1 (fieldPath i ''ramp.start_concurrency'')
                              (''start_concurrency must be in 1..'' @ Itoa concurrency)
                       else acc1)
           in (acc2, \<lparr>rp_Up = up, rp_StartConcurrency = start\<rparr>)))"

definition validateInsecureGate :: "nat \<Rightarrow> RawBlock \<Rightarrow> Options \<Rightarrow> FieldError list \<Rightarrow> FieldError list" where
  "validateInsecureGate i rb opts acc =
     (if \<not> rb_AllowInsecure rb then acc
      else let acc1 = (if TrimSpace (rb_AllowInsecureReason rb) = ''''
                       then acc_add acc (fieldPath i ''allow_insecure_reason'') ''must be non-empty when allow_insecure is true''
                       else acc)
           in if \<not> op_AllowInsecure opts
              then acc_add acc1 (fieldPath i ''allow_insecure'')
                     (''block '' @ rb_ID rb @ '': allow_insecure requires the --allow-insecure invocation flag'')
              else acc1)"

fun block_targets ::
  "nat \<Rightarrow> nat \<Rightarrow> ProtocolID \<Rightarrow> string list \<Rightarrow> FieldError list \<Rightarrow> FieldError list \<times> Target list" where
  "block_targets i j proto [] acc = (acc, [])"
| "block_targets i j proto (addr # addrs) acc =
     (case validateTarget addr proto of
        Inl reason \<Rightarrow> block_targets i (Suc j) proto addrs (acc_add acc (idx_path (fieldPath i ''targets'') j) reason)
      | Inr tgt \<Rightarrow>
          (case block_targets i (Suc j) proto addrs acc of (acc1, tgts) \<Rightarrow> (acc1, tgt # tgts)))"

definition validateBlock ::
  "'loc PLib \<Rightarrow> nat \<Rightarrow> RawBlock \<Rightarrow> Options \<Rightarrow> (string \<rightharpoonup> 'loc Persona) \<Rightarrow> int \<Rightarrow> FieldError list
     \<Rightarrow> FieldError list \<times> 'loc Persona Block" where
  "validateBlock L i rb opts personas maxConcurrent acc =
     (let acc1 = (if TrimSpace (rb_ID rb) = '''' then acc_add acc (fieldPath i ''id'') ''must be non-empty'' else acc);
          (proto, pok) = parseProtocol (rb_Protocol rb);
          acc2 = (if pok then acc1
                  else acc_add acc1 (fieldPath i ''protocol'')
                         (''unknown protocol '' @ pl_Quote L (rb_Protocol rb) @ '' (allowed: dns, http, ssh, stream)''));
          (rot, rok) = parseRotation (rb_TargetRotation rb);
          acc3 = (if rok then acc2
                  else acc_add acc2 (fieldPath i ''target_rotation'')
                         (''unknown rotation '' @ pl_Quote L (rb_TargetRotation rb) @ '' (allowed: sequential, random)''));
          rotation = (if rok then rot else RotationSequential);
          neg = (rb_TargetRotationIntervalSeconds rb < 0);
          acc4 = (if neg then acc_add acc3 (fieldPath i ''target_rotation_interval_seconds'') ''must be >= 0'' else acc3);
          interval = (if neg then 0 else i64 (rb_TargetRotationIntervalSeconds rb * second));
          acc5 = (if length (rb_Targets rb) = 0
                  then acc_add acc4 (fieldPath i ''targets'') ''at least one target is required'' else acc4);
          (acc6, tgts) = block_targets i 0 proto (rb_Targets rb) acc5;
          trimmed = TrimSpace (rb_Persona rb);
          name = (if trimmed = '''' then DefaultPersonaName else trimmed);
          acc7 = (if personas name = None
                  then acc_add acc6 (fieldPath i ''persona'') (''unknown persona '' @ pl_Quote L name) else acc6);
          (acc8, concurrency, dur, weight) = validateBlockLoad i rb maxConcurrent acc7;
          (acc9, ramp) = validateRamp i (rb_Ramp rb) concurrency dur acc8;
          acc10 = validateInsecureGate i rb opts acc9
      in (acc10, \<lparr>bl_ID = rb_ID rb, bl_Protocol = proto, bl_Targets = tgts, bl_Rotation = rotation,
                  bl_RotationInterval = interval, bl_AllowInsecure = rb_AllowInsecure rb,
                  bl_AllowInsecureReason = rb_AllowInsecureReason rb, bl_Persona = personas name,
                  bl_Concurrency = concurrency, bl_Duration = dur, bl_Weight = weight, bl_Ramp = ramp\<rparr>))"

section \<open>The aggregator\<close>

text \<open>The block loop of \<open>Validate\<close> from index \<open>i\<close>, with the identifiers seen so far.\<close>

fun validate_blocks ::
  "'loc PLib \<Rightarrow> Options \<Rightarrow> (string \<rightharpoonup> 'loc Persona) \<Rightarrow> int \<Rightarrow> nat \<Rightarrow> string set \<Rightarrow> RawBlock list
     \<Rightarrow> FieldError list \<Rightarrow> FieldError list \<times> 'loc Persona Block list" where
  "validate_blocks L opts personas maxC i seen [] acc = (acc, [])"
| "validate_blocks L opts personas maxC i seen (rb # rbs) acc =
     (case validateBlock L i rb opts personas maxC acc of (acc1, b) \<Rightarrow>
      let acc2 = (if rb_ID rb \<in> seen \<and> rb_ID rb \<noteq> ''''
                  then acc_add acc1 (fieldPath i ''id'') (''duplicate id '' @ pl_Quote L (rb_ID rb)) else acc1);
          seen' = (if rb_ID rb \<noteq> '''' then insert (rb_ID rb) seen else seen)
      in case validate_blocks L opts personas maxC (Suc i) seen' rbs acc2 of (acc3, bs) \<Rightarrow> (acc3, b # bs))"

definition Validate ::
  "'loc PLib \<Rightarrow> string + (string \<rightharpoonup> 'loc Persona) \<Rightarrow> (string \<Rightarrow> string) \<Rightarrow> (cap_msg \<Rightarrow> string)
     \<Rightarrow> RawPersona Raw \<Rightarrow> Options \<Rightarrow> FieldError list + ('loc Persona, 'loc) Scenario" where
  "Validate L builtins uni capText raw opts =
     (let agentCount = (if op_AgentCount opts < 1 then 1 else op_AgentCount opts);
          acc1 = (if TrimSpace (raw_Name raw) = '''' then acc_add [] ''name'' ''must be non-empty'' else []);
          acc2 = (if length (raw_Scenarios raw) = 0
                  then acc_add acc1 ''scenarios'' ''at least one scenario block is required'' else acc1);
          (mode, mok) = parseMode (rx_Mode (raw_Execution raw));
          acc3 = (if mok then acc2
                  else acc_add acc2 ''execution.mode'' (''unknown mode '' @ pl_Quote L (rx_Mode (raw_Execution raw))
                         @ '' (allowed: parallel, sequential)''));
          (acc4, personas) = resolvePersonas L builtins (raw_Personas raw) acc3;
          cl = DividedBy DefaultCeiling agentCount;
          declared = toCapSpec (raw_Caps raw);
          acc5 = foldl (\<lambda>acc v. acc_add acc (''caps.'' @ v_Field v) (capText (v_Msg v))) acc4
                   (ValidateCaps (pl_oor L) declared cl (op_CapOverride opts));
          caps = Effective (pl_oor L) declared cl;
          (acc6, blocks) = validate_blocks L opts personas (cs_MaxConcurrentSessions caps) 0 {} (raw_Scenarios raw) acc5;
          allTargets = concat (map bl_Targets blocks);
          acc7 = validateAllowedDomains 0 (raw_AllowedDomains raw) acc6;
          (basis, bok) = parseWeightBasis (raw_WeightBasis raw);
          acc8 = (if bok then acc7
                  else acc_add acc7 ''weight_basis'' (''unknown weight_basis '' @ pl_Quote L (raw_WeightBasis raw)
                         @ '' (allowed: vuser_population, concurrency, request_rate)''));
          (acc9, schedule) = validateSchedule L uni (raw_Schedule raw) acc8
      in if length acc9 \<noteq> 0 then Inl acc9
         else Inr \<lparr>sc_Name = raw_Name raw, sc_Description = raw_Description raw,
                   sc_AllowedDomains = raw_AllowedDomains raw, sc_AgentCount = agentCount, sc_Caps = caps,
                   sc_Ceiling = cl, sc_CapOverride = op_CapOverride opts,
                   sc_Execution = \<lparr>ex_Mode = mode, ex_StopOnError = rx_StopOnError (raw_Execution raw)\<rparr>,
                   sc_Blocks = blocks, sc_Targets = NewTargetSet uni allTargets (raw_AllowedDomains raw),
                   sc_WeightBasis = basis, sc_Schedule = schedule\<rparr>)"

section \<open>Loading\<close>

definition maxFileBytes :: int where "maxFileBytes = 2 ^ 20"

text \<open>\<open>Load\<close>: the size that \<open>Stat\<close> reports, whether \<open>Open\<close> succeeds, and the decoder. A file that
  cannot be found or opened is answered unwrapped.\<close>

definition Load :: "goerr + int \<Rightarrow> goerr option \<Rightarrow> goerr + 'rp Raw \<Rightarrow> goerr + 'rp Raw" where
  "Load stat open_err decoded =
     (case stat of
        Inl e \<Rightarrow> Inl e
      | Inr sz \<Rightarrow>
          if sz > maxFileBytes
          then Inl (pterr_New ClassConfig ''scenario.file_too_large'' ''scenario.Load''
                      (''scenario file exceeds the '' @ Itoa maxFileBytes @ ''-byte limit''))
          else case open_err of
                 Some e \<Rightarrow> Inl e
               | None \<Rightarrow>
                   (case decoded of
                      Inl e \<Rightarrow> Inl (pterr_Wrap ClassConfig ''scenario.decode_failed'' ''scenario.Load''
                                 ''scenario file failed to decode'' (Some e))
                    | Inr raw \<Rightarrow> Inr raw))"

section \<open>Every check is judged by itself\<close>

definition remark :: "bool \<Rightarrow> string \<Rightarrow> string \<Rightarrow> FieldError list" where
  "remark c field msg = (if c then [\<lparr>fe_Field = field, fe_Msg = msg\<rparr>] else [])"

lemma remark_nil [simp]: "remark c f m = [] \<longleftrightarrow> \<not> c"
  by (simp add: remark_def)

lemma grow:
  "acc_add a f m = a @ remark True f m"
  "(if c then a @ es else a) = a @ (if c then es else [])"
  "(if c then a else a @ es) = a @ (if c then [] else es)"
  "(if c then a @ es else a @ es') = a @ (if c then es else es')"
  by (simp_all add: acc_add_def remark_def)

lemma grow_nil: "(if c then es else []) = ([] :: 'a list) \<longleftrightarrow> \<not> c \<or> es = []"
    "(if c then [] else es) = ([] :: 'a list) \<longleftrightarrow> c \<or> es = []"
  by simp_all

lemma domains_frame:
  "validateAllowedDomains i ds (acc @ es) = acc @ validateAllowedDomains i ds es"
  by (induction ds arbitrary: i es) (simp_all add: acc_add_def)

definition domains_errors :: "string list \<Rightarrow> FieldError list" where
  "domains_errors ds = validateAllowedDomains 0 ds []"

lemma domains_eq: "validateAllowedDomains 0 ds acc = acc @ domains_errors ds"
  using domains_frame [of 0 ds acc "[]"] by (simp add: domains_errors_def)

lemma window_days_frame:
  "window_days L uni i j ds (acc @ es, days) =
     (acc @ fst (window_days L uni i j ds (es, days)), snd (window_days L uni i j ds (es, days)))"
proof (induction ds arbitrary: j es days)
  case (Cons d ds)
  show ?case
  proof (cases "weekdayByName (ToLower uni (TrimSpace d))")
    case None
    then show ?thesis using Cons [of "Suc j" "acc_add es (idx_path (scheduleWindowPath i ''days'') j)
        (''unknown day '' @ pl_Quote L d)" days]
      by (simp add: acc_add_def)
  qed (use Cons in simp)
qed simp

definition days_errors :: "'loc PLib \<Rightarrow> (string \<Rightarrow> string) \<Rightarrow> nat \<Rightarrow> string list \<Rightarrow> FieldError list" where
  "days_errors L uni i ds = fst (window_days L uni i 0 ds ([], replicate 7 False))"

definition days_value :: "'loc PLib \<Rightarrow> (string \<Rightarrow> string) \<Rightarrow> nat \<Rightarrow> string list \<Rightarrow> bool list" where
  "days_value L uni i ds = snd (window_days L uni i 0 ds ([], replicate 7 False))"

lemma window_days_eq:
  "window_days L uni i 0 ds (acc, replicate 7 False) = (acc @ days_errors L uni i ds, days_value L uni i ds)"
  using window_days_frame [of L uni i 0 ds acc "[]"] by (simp add: days_errors_def days_value_def)

definition window_errors :: "'loc PLib \<Rightarrow> (string \<Rightarrow> string) \<Rightarrow> nat \<Rightarrow> RawWindow \<Rightarrow> FieldError list" where
  "window_errors L uni i rw = fst (validateWindow L uni i rw [])"

definition window_value :: "'loc PLib \<Rightarrow> (string \<Rightarrow> string) \<Rightarrow> nat \<Rightarrow> RawWindow \<Rightarrow> ScheduleWindow" where
  "window_value L uni i rw = snd (validateWindow L uni i rw [])"

lemma validateWindow_eq:
  "validateWindow L uni i rw acc = (acc @ window_errors L uni i rw, window_value L uni i rw)"
  by (cases "parseHHMM (rw_Start rw)"; cases "parseHHMM (rw_End rw)")
     (simp_all add: validateWindow_def window_errors_def window_value_def window_days_eq acc_add_def Let_def)

definition windows_errors :: "'loc PLib \<Rightarrow> (string \<Rightarrow> string) \<Rightarrow> nat \<Rightarrow> RawWindow list \<Rightarrow> FieldError list" where
  "windows_errors L uni i rws = fst (validateWindows L uni i rws [])"

definition windows_value :: "'loc PLib \<Rightarrow> (string \<Rightarrow> string) \<Rightarrow> nat \<Rightarrow> RawWindow list \<Rightarrow> ScheduleWindow list" where
  "windows_value L uni i rws = snd (validateWindows L uni i rws [])"

lemma validateWindows_eq:
  "validateWindows L uni i rws acc = (acc @ windows_errors L uni i rws, windows_value L uni i rws)"
  unfolding windows_errors_def windows_value_def
proof (induction rws arbitrary: i acc)
  case (Cons rw rws)
  note IH = Cons [of "Suc i" "acc @ window_errors L uni i rw"] Cons [of "Suc i" "window_errors L uni i rw"]
  show ?case unfolding validateWindows.simps validateWindow_eq prod.case append_Nil IH by simp
qed simp

definition schedule_errors :: "'loc PLib \<Rightarrow> (string \<Rightarrow> string) \<Rightarrow> RawSchedule option \<Rightarrow> FieldError list" where
  "schedule_errors L uni rs = fst (validateSchedule L uni rs [])"

definition schedule_value :: "'loc PLib \<Rightarrow> (string \<Rightarrow> string) \<Rightarrow> RawSchedule option \<Rightarrow> 'loc Schedule" where
  "schedule_value L uni rs = snd (validateSchedule L uni rs [])"

lemma validateSchedule_eq:
  "validateSchedule L uni rs acc = (acc @ schedule_errors L uni rs, schedule_value L uni rs)"
  by (simp add: validateSchedule_def schedule_errors_def schedule_value_def validateWindows_eq acc_add_def
      split: option.split sum.split)

lemma block_targets_frame:
  "block_targets i j proto as (acc @ es) =
     (acc @ fst (block_targets i j proto as es), snd (block_targets i j proto as es))"
proof (induction as arbitrary: j es)
  case (Cons a as)
  then show ?case
    by (cases "validateTarget a proto") (simp_all add: acc_add_def case_prod_beta)
qed simp

definition targets_errors :: "nat \<Rightarrow> ProtocolID \<Rightarrow> string list \<Rightarrow> FieldError list" where
  "targets_errors i proto as = fst (block_targets i 0 proto as [])"

definition targets_value :: "nat \<Rightarrow> ProtocolID \<Rightarrow> string list \<Rightarrow> Target list" where
  "targets_value i proto as = snd (block_targets i 0 proto as [])"

lemma block_targets_eq: "block_targets i 0 proto as acc = (acc @ targets_errors i proto as, targets_value i proto as)"
  using block_targets_frame [of i 0 proto as acc "[]"] by (simp add: targets_errors_def targets_value_def)

lemma foldl_add: "foldl (\<lambda>acc x. acc_add acc (f x) (g x)) a xs = a @ map (\<lambda>x. \<lparr>fe_Field = f x, fe_Msg = g x\<rparr>) xs"
  by (induction xs arbitrary: a) (simp_all add: acc_add_def)

lemma customs_frame:
  "resolve_customs L i rps (acc @ es, m) =
     (acc @ fst (resolve_customs L i rps (es, m)), snd (resolve_customs L i rps (es, m)))"
proof (induction rps arbitrary: i es m)
  case (Cons rp rps)
  then show ?case by (cases "Compile L rp") (simp_all add: foldl_add del: fun_upd_apply)
qed simp

definition personas_errors :: "'loc PLib \<Rightarrow> string + (string \<rightharpoonup> 'loc Persona) \<Rightarrow> RawPersona list \<Rightarrow> FieldError list" where
  "personas_errors L bs rps = fst (resolvePersonas L bs rps [])"

definition personas_value ::
  "'loc PLib \<Rightarrow> string + (string \<rightharpoonup> 'loc Persona) \<Rightarrow> RawPersona list \<Rightarrow> string \<rightharpoonup> 'loc Persona" where
  "personas_value L bs rps = snd (resolvePersonas L bs rps [])"

lemma resolvePersonas_eq:
  "resolvePersonas L bs rps acc = (acc @ personas_errors L bs rps, personas_value L bs rps)"
proof (cases bs)
  case (Inl e)
  then show ?thesis
    using customs_frame [of L 0 rps acc "acc_add [] ''personas'' (''internal: failed to load built-in personas: '' @ e)"
        Map.empty]
    by (simp add: resolvePersonas_def personas_errors_def personas_value_def acc_add_def)
next
  case (Inr m)
  then show ?thesis using customs_frame [of L 0 rps acc "[]" m]
    by (simp add: resolvePersonas_def personas_errors_def personas_value_def)
qed

definition load_errors :: "nat \<Rightarrow> RawBlock \<Rightarrow> int \<Rightarrow> FieldError list" where
  "load_errors i rb maxC = fst (validateBlockLoad i rb maxC [])"

definition block_concurrency :: "RawBlock \<Rightarrow> int" where
  "block_concurrency rb = (if rb_Concurrency rb = 0 then 1 else rb_Concurrency rb)"

definition block_duration :: "RawBlock \<Rightarrow> duration" where
  "block_duration rb = i64 (rb_DurationMinutes rb * minute)"

definition block_weight :: "RawBlock \<Rightarrow> int" where
  "block_weight rb = (if rb_Weight rb = 0 then 1 else rb_Weight rb)"

lemma validateBlockLoad_eq:
  "validateBlockLoad i rb maxC acc =
     (acc @ load_errors i rb maxC, block_concurrency rb, block_duration rb, block_weight rb)"
  by (simp add: validateBlockLoad_def load_errors_def Let_def grow block_concurrency_def block_duration_def
      block_weight_def del: append.simps)

lemma load_errors_nil:
  "load_errors i rb maxC = [] \<longleftrightarrow>
     1 \<le> block_concurrency rb \<and> block_concurrency rb \<le> maxC \<and> 1 \<le> rb_DurationMinutes rb"
  by (simp add: load_errors_def validateBlockLoad_def Let_def block_concurrency_def not_less conj_ac)

definition ramp_errors :: "nat \<Rightarrow> RawRamp option \<Rightarrow> int \<Rightarrow> duration \<Rightarrow> FieldError list" where
  "ramp_errors i rr c d = fst (validateRamp i rr c d [])"

definition ramp_value :: "RawRamp option \<Rightarrow> int \<Rightarrow> RampPlan" where
  "ramp_value rr c = (case rr of None \<Rightarrow> zero_RampPlan
     | Some rr \<Rightarrow> \<lparr>rp_Up = i64 (rr_UpSeconds rr * second),
         rp_StartConcurrency = (if rr_StartConcurrency rr = 0 then c else rr_StartConcurrency rr)\<rparr>)"

lemma validateRamp_eq: "validateRamp i rr c d acc = (acc @ ramp_errors i rr c d, ramp_value rr c)"
  by (cases rr) (simp_all add: validateRamp_def ramp_errors_def ramp_value_def Let_def grow del: append.simps)

lemma ramp_errors_nil:
  "ramp_errors i rr c d = [] \<longleftrightarrow>
     (case rr of None \<Rightarrow> True
      | Some r \<Rightarrow> 0 \<le> rr_UpSeconds r \<and> rp_Up (ramp_value rr c) \<le> d
          \<and> 1 \<le> rp_StartConcurrency (ramp_value rr c) \<and> rp_StartConcurrency (ramp_value rr c) \<le> c)"
  by (cases rr) (auto simp: ramp_errors_def validateRamp_def ramp_value_def Let_def not_less)

definition gate_errors :: "nat \<Rightarrow> RawBlock \<Rightarrow> Options \<Rightarrow> FieldError list" where
  "gate_errors i rb opts = validateInsecureGate i rb opts []"

lemma validateInsecureGate_eq: "validateInsecureGate i rb opts acc = acc @ gate_errors i rb opts"
  by (simp add: validateInsecureGate_def gate_errors_def Let_def acc_add_def)

lemma gate_errors_nil:
  "gate_errors i rb opts = [] \<longleftrightarrow>
     (rb_AllowInsecure rb \<longrightarrow> op_AllowInsecure opts \<and> TrimSpace (rb_AllowInsecureReason rb) \<noteq> '''')"
  by (simp add: gate_errors_def validateInsecureGate_def Let_def)

definition persona_name :: "RawBlock \<Rightarrow> string" where
  "persona_name rb = (let t = TrimSpace (rb_Persona rb) in if t = '''' then DefaultPersonaName else t)"

definition block_errors ::
  "'loc PLib \<Rightarrow> nat \<Rightarrow> RawBlock \<Rightarrow> Options \<Rightarrow> (string \<rightharpoonup> 'loc Persona) \<Rightarrow> int \<Rightarrow> FieldError list" where
  "block_errors L i rb opts ps maxC = fst (validateBlock L i rb opts ps maxC [])"

definition block_value :: "RawBlock \<Rightarrow> (string \<rightharpoonup> 'loc Persona) \<Rightarrow> 'loc Persona Block" where
  "block_value rb ps =
     \<lparr>bl_ID = rb_ID rb, bl_Protocol = fst (parseProtocol (rb_Protocol rb)),
      bl_Targets = targets_value 0 (fst (parseProtocol (rb_Protocol rb))) (rb_Targets rb),
      bl_Rotation = (if snd (parseRotation (rb_TargetRotation rb)) then fst (parseRotation (rb_TargetRotation rb))
                     else RotationSequential),
      bl_RotationInterval = (if rb_TargetRotationIntervalSeconds rb < 0 then 0
                             else i64 (rb_TargetRotationIntervalSeconds rb * second)),
      bl_AllowInsecure = rb_AllowInsecure rb, bl_AllowInsecureReason = rb_AllowInsecureReason rb,
      bl_Persona = ps (persona_name rb), bl_Concurrency = block_concurrency rb,
      bl_Duration = block_duration rb, bl_Weight = block_weight rb,
      bl_Ramp = ramp_value (rb_Ramp rb) (block_concurrency rb)\<rparr>"

lemma targets_value_zero: "snd (block_targets i j proto as acc) = snd (block_targets 0 0 proto as [])"
proof (induction as arbitrary: i j acc)
  case (Cons a as)
  show ?case
  proof (cases "validateTarget a proto")
    case (Inl r)
    show ?thesis unfolding block_targets.simps Inl sum.case
      by (subst Cons, subst (2) Cons) (rule refl)
  next
    case (Inr t)
    show ?thesis unfolding block_targets.simps Inr sum.case case_prod_beta snd_conv
      by (subst Cons, subst (2) Cons) (rule refl)
  qed
qed simp

lemma targets_value_index: "targets_value i proto as = targets_value 0 proto as"
  unfolding targets_value_def by (rule targets_value_zero)

lemma validateBlock_eq:
  "validateBlock L i rb opts ps maxC acc = (acc @ block_errors L i rb opts ps maxC, block_value rb ps)"
  unfolding validateBlock_def block_errors_def block_targets_eq validateBlockLoad_eq validateRamp_eq
    validateInsecureGate_eq targets_value_index [of i] grow
  by (simp add: block_value_def persona_name_def Let_def case_prod_beta del: if_split)

lemma block_errors_nil:
  "block_errors L i rb opts ps maxC = [] \<longleftrightarrow>
     TrimSpace (rb_ID rb) \<noteq> '''' \<and> snd (parseProtocol (rb_Protocol rb))
     \<and> snd (parseRotation (rb_TargetRotation rb)) \<and> 0 \<le> rb_TargetRotationIntervalSeconds rb
     \<and> rb_Targets rb \<noteq> [] \<and> targets_errors i (fst (parseProtocol (rb_Protocol rb))) (rb_Targets rb) = []
     \<and> ps (persona_name rb) \<noteq> None \<and> load_errors i rb maxC = []
     \<and> ramp_errors i (rb_Ramp rb) (block_concurrency rb) (block_duration rb) = [] \<and> gate_errors i rb opts = []"
  unfolding validateBlock_def block_errors_def block_targets_eq validateBlockLoad_eq validateRamp_eq
    validateInsecureGate_eq targets_value_index [of i] grow
  by (simp add: persona_name_def Let_def case_prod_beta grow_nil not_less conj_ac del: if_split)

definition seen_after :: "RawBlock \<Rightarrow> string set \<Rightarrow> string set" where
  "seen_after rb seen = (if rb_ID rb \<noteq> '''' then insert (rb_ID rb) seen else seen)"

text \<open>The complaints about the blocks: those of each block, then the duplicate of its identifier.\<close>

fun blocks_errors ::
  "'loc PLib \<Rightarrow> Options \<Rightarrow> (string \<rightharpoonup> 'loc Persona) \<Rightarrow> int \<Rightarrow> nat \<Rightarrow> string set \<Rightarrow> RawBlock list \<Rightarrow> FieldError list" where
  "blocks_errors L opts ps maxC i seen [] = []"
| "blocks_errors L opts ps maxC i seen (rb # rbs) =
     block_errors L i rb opts ps maxC
     @ remark (rb_ID rb \<in> seen \<and> rb_ID rb \<noteq> '''') (fieldPath i ''id'') (''duplicate id '' @ pl_Quote L (rb_ID rb))
     @ blocks_errors L opts ps maxC (Suc i) (seen_after rb seen) rbs"

lemma validate_blocks_eq:
  "validate_blocks L opts ps maxC i seen rbs acc =
     (acc @ blocks_errors L opts ps maxC i seen rbs, map (\<lambda>rb. block_value rb ps) rbs)"
proof (induction rbs arbitrary: i seen acc)
  case (Cons rb rbs)
  show ?case unfolding validate_blocks.simps validateBlock_eq prod.case grow Let_def Cons
      seen_after_def [symmetric] blocks_errors.simps
    by (simp add: remark_def)
qed simp

lemma remark_if:
  "(if c then remark True f m else []) = remark c f m"
  "(if c then [] else remark True f m) = remark (\<not> c) f m"
  by (simp_all add: remark_def)

text \<open>Each section of a file judged alone, in the order of the code.\<close>

definition effective_caps :: "'loc PLib \<Rightarrow> 'rp Raw \<Rightarrow> Options \<Rightarrow> CapSpec" where
  "effective_caps L raw opts =
     Effective (pl_oor L) (toCapSpec (raw_Caps raw))
       (DividedBy DefaultCeiling (if op_AgentCount opts < 1 then 1 else op_AgentCount opts))"

definition caps_errors :: "'loc PLib \<Rightarrow> (cap_msg \<Rightarrow> string) \<Rightarrow> 'rp Raw \<Rightarrow> Options \<Rightarrow> FieldError list" where
  "caps_errors L capText raw opts =
     map (\<lambda>v. \<lparr>fe_Field = ''caps.'' @ v_Field v, fe_Msg = capText (v_Msg v)\<rparr>)
       (ValidateCaps (pl_oor L) (toCapSpec (raw_Caps raw))
          (DividedBy DefaultCeiling (if op_AgentCount opts < 1 then 1 else op_AgentCount opts)) (op_CapOverride opts))"

definition scenario_sections ::
  "'loc PLib \<Rightarrow> string + (string \<rightharpoonup> 'loc Persona) \<Rightarrow> (string \<Rightarrow> string) \<Rightarrow> (cap_msg \<Rightarrow> string)
     \<Rightarrow> RawPersona Raw \<Rightarrow> Options \<Rightarrow> FieldError list list" where
  "scenario_sections L bs uni capText raw opts =
     [remark (TrimSpace (raw_Name raw) = '''') ''name'' ''must be non-empty'',
      remark (raw_Scenarios raw = []) ''scenarios'' ''at least one scenario block is required'',
      remark (\<not> snd (parseMode (rx_Mode (raw_Execution raw)))) ''execution.mode''
        (''unknown mode '' @ pl_Quote L (rx_Mode (raw_Execution raw)) @ '' (allowed: parallel, sequential)''),
      personas_errors L bs (raw_Personas raw),
      caps_errors L capText raw opts,
      blocks_errors L opts (personas_value L bs (raw_Personas raw))
        (cs_MaxConcurrentSessions (effective_caps L raw opts)) 0 {} (raw_Scenarios raw),
      domains_errors (raw_AllowedDomains raw),
      remark (\<not> snd (parseWeightBasis (raw_WeightBasis raw))) ''weight_basis''
        (''unknown weight_basis '' @ pl_Quote L (raw_WeightBasis raw)
           @ '' (allowed: vuser_population, concurrency, request_rate)''),
      schedule_errors L uni (raw_Schedule raw)]"

definition scenario_value ::
  "'loc PLib \<Rightarrow> string + (string \<rightharpoonup> 'loc Persona) \<Rightarrow> (string \<Rightarrow> string) \<Rightarrow> RawPersona Raw \<Rightarrow> Options
     \<Rightarrow> ('loc Persona, 'loc) Scenario" where
  "scenario_value L bs uni raw opts =
     (let blocks = map (\<lambda>rb. block_value rb (personas_value L bs (raw_Personas raw))) (raw_Scenarios raw);
          agents = (if op_AgentCount opts < 1 then 1 else op_AgentCount opts)
      in \<lparr>sc_Name = raw_Name raw, sc_Description = raw_Description raw,
          sc_AllowedDomains = raw_AllowedDomains raw, sc_AgentCount = agents, sc_Caps = effective_caps L raw opts,
          sc_Ceiling = DividedBy DefaultCeiling agents, sc_CapOverride = op_CapOverride opts,
          sc_Execution = \<lparr>ex_Mode = fst (parseMode (rx_Mode (raw_Execution raw))),
            ex_StopOnError = rx_StopOnError (raw_Execution raw)\<rparr>,
          sc_Blocks = blocks, sc_Targets = NewTargetSet uni (concat (map bl_Targets blocks)) (raw_AllowedDomains raw),
          sc_WeightBasis = fst (parseWeightBasis (raw_WeightBasis raw)),
          sc_Schedule = schedule_value L uni (raw_Schedule raw)\<rparr>)"

lemma Validate_sections:
  "Validate L bs uni capText raw opts =
     (if concat (scenario_sections L bs uni capText raw opts) \<noteq> []
      then Inl (concat (scenario_sections L bs uni capText raw opts))
      else Inr (scenario_value L bs uni raw opts))"
  unfolding Validate_def resolvePersonas_eq foldl_add validate_blocks_eq domains_eq validateSchedule_eq
  unfolding grow scenario_sections_def scenario_value_def effective_caps_def caps_errors_def Let_def case_prod_beta
    fst_conv snd_conv
  by (simp only: concat.simps append_assoc append_Nil append_Nil2 remark_if length_0_conv if_cancel)

lemma Validate_Inr:
  "Validate L bs uni capText raw opts = Inr sc \<longleftrightarrow>
     concat (scenario_sections L bs uni capText raw opts) = [] \<and> sc = scenario_value L bs uni raw opts"
  by (auto simp: Validate_sections)

section \<open>What an accepted file looks like\<close>

lemma cut_left_TrimLeft: "cut_left (TrimLeftSpace s) = None"
proof (induction s rule: TrimLeftSpace.induct)
  case (1 s)
  then show ?case by (subst TrimLeftSpace.simps) (simp split: option.split)
qed

lemma cut_right_TrimRight: "cut_right (TrimRightSpace s) = None"
proof (induction s rule: TrimRightSpace.induct)
  case (1 s)
  then show ?case by (subst TrimRightSpace.simps) (simp split: option.split)
qed

lemma TrimRight_take: "\<exists>n. TrimRightSpace s = take n s"
proof (induction s rule: TrimRightSpace.induct)
  case (1 s)
  show ?case
  proof (cases "cut_right s")
    case None
    then have "TrimRightSpace s = take (length s) s" by (simp add: TrimRightSpace.simps [of s])
    then show ?thesis ..
  next
    case (Some t)
    then obtain k where t: "t = take k s" by (auto simp: cut_right_def)
    obtain n where "TrimRightSpace t = take n t" using 1 [OF Some] by blast
    then have "TrimRightSpace s = take (min n k) s" using Some by (simp add: TrimRightSpace.simps [of s] t)
    then show ?thesis ..
  qed
qed

lemma cut_left_take: "cut_left s = None \<Longrightarrow> cut_left (take n s) = None"
proof -
  assume "cut_left s = None"
  then have a: "\<not> HasPrefix s r" if "r \<in> set space_runes" for r
    using that by (simp add: cut_left_def find_None_iff)
  have "\<not> HasPrefix (take n s) r" if r: "r \<in> set space_runes" for r
  proof
    assume "HasPrefix (take n s) r"
    then have "prefix r s" unfolding HasPrefix_iff using take_is_prefix prefix_order.trans by blast
    with a [OF r] show False by (simp add: HasPrefix_iff)
  qed
  then show ?thesis by (simp add: cut_left_def find_None_iff)
qed

lemma TrimSpace_idem [simp]: "TrimSpace (TrimSpace s) = TrimSpace s"
proof -
  obtain n where n: "TrimSpace s = take n (TrimLeftSpace s)"
    using TrimRight_take [of "TrimLeftSpace s"] by (auto simp: TrimSpace_def)
  have "cut_left (TrimSpace s) = None" unfolding n by (rule cut_left_take [OF cut_left_TrimLeft])
  moreover have "cut_right (TrimSpace s) = None" unfolding TrimSpace_def by (rule cut_right_TrimRight)
  ultimately show ?thesis
    by (simp add: TrimSpace_def [of "TrimSpace s"] TrimLeftSpace.simps [of "TrimSpace s"]
        TrimRightSpace.simps [of "TrimSpace s"])
qed

lemma validateTarget_Inr:
  "validateTarget a proto = Inr t \<Longrightarrow>
     t = \<lparr>t_ID = TrimSpace a, t_Proto = proto, t_Addr = TrimSpace a, t_Cred = zero_CredentialRef, t_Proxy = []\<rparr>
     \<and> validateTarget (t_Addr t) proto = Inr t"
  by (auto simp: validateTarget_def Let_def split: if_splits option.splits prod.splits)

definition target_ok :: "ProtocolID \<Rightarrow> Target \<Rightarrow> bool" where
  "target_ok proto t \<longleftrightarrow> t_ID t = t_Addr t \<and> t_Cred t = zero_CredentialRef \<and> validateTarget (t_Addr t) proto = Inr t"

lemma target_ok_proto: "target_ok proto t \<Longrightarrow> t_Proto t = proto"
  using validateTarget_Inr [of "t_Addr t" proto t] unfolding target_ok_def by (metis Target.select_convs(2))

lemma validated_target_ok: "validateTarget a proto = Inr t \<Longrightarrow> target_ok proto t"
  using validateTarget_Inr [of a proto t] by (auto simp: target_ok_def)

lemma block_targets_clean:
  assumes "fst (block_targets i j proto as acc) = acc"
  shows "list_all (target_ok proto) (snd (block_targets i j proto as acc))
    \<and> length (snd (block_targets i j proto as acc)) = length as"
  using assms
proof (induction as arbitrary: j acc)
  case (Cons a as)
  show ?case
  proof (cases "validateTarget a proto")
    case (Inl r)
    let ?n = "[\<lparr>fe_Field = idx_path (fieldPath i ''targets'') j, fe_Msg = r\<rparr>]"
    have "fst (block_targets i j proto (a # as) acc) =
        (acc @ ?n) @ fst (block_targets i (Suc j) proto as [])"
      using block_targets_frame [of i "Suc j" proto as "acc @ ?n" "[]"] Inl by (simp add: acc_add_def)
    with Cons.prems show ?thesis by simp
  next
    case (Inr t)
    then show ?thesis using Cons.IH [of "Suc j" acc] Cons.prems validated_target_ok [OF Inr]
      by (simp add: case_prod_beta)
  qed
qed simp

lemma targets_clean:
  "targets_errors i proto as = [] \<Longrightarrow>
     list_all (target_ok proto) (targets_value 0 proto as) \<and> length (targets_value 0 proto as) = length as"
  using block_targets_clean [of i 0 proto as "[]"] targets_value_index [of i proto as]
  by (simp add: targets_errors_def targets_value_def)

lemma parseHHMM_range: "parseHHMM s = Some d \<Longrightarrow> 0 \<le> d \<and> d < day_ns"
  by (auto simp: parseHHMM_def time_units day_ns_def split: list.splits option.splits if_splits)

lemma window_days_clean:
  "fst (window_days L uni i j ds (acc, days)) = acc \<Longrightarrow> length days = 7 \<Longrightarrow>
     length (snd (window_days L uni i j ds (acc, days))) = 7
     \<and> (ds \<noteq> [] \<or> True \<in> set days \<longrightarrow> True \<in> set (snd (window_days L uni i j ds (acc, days))))"
proof (induction ds arbitrary: j acc days)
  case (Cons d ds)
  show ?case
  proof (cases "weekdayByName (ToLower uni (TrimSpace d))")
    case None
    let ?n = "[\<lparr>fe_Field = idx_path (scheduleWindowPath i ''days'') j, fe_Msg = ''unknown day '' @ pl_Quote L d\<rparr>]"
    have "fst (window_days L uni i j (d # ds) (acc, days)) =
        (acc @ ?n) @ fst (window_days L uni i (Suc j) ds ([], days))"
      using window_days_frame [of L uni i "Suc j" ds "acc @ ?n" "[]" days] None by (simp add: acc_add_def)
    with Cons.prems show ?thesis by simp
  next
    case (Some wd)
    then have "wd < 7" by (auto simp: weekdayByName_def split: if_splits)
    then have "True \<in> set (days[wd := True])" using Cons.prems(2) by (intro set_update_memI) simp
    then show ?thesis using Cons.IH [of "Suc j" acc "days[wd := True]"] Cons.prems Some by simp
  qed
qed simp

definition window_ok :: "ScheduleWindow \<Rightarrow> bool" where
  "window_ok w \<longleftrightarrow> length (sw_Days w) = 7 \<and> True \<in> set (sw_Days w)
     \<and> 0 \<le> sw_Start w \<and> sw_Start w < sw_End w \<and> sw_End w < day_ns"

lemma window_clean:
  assumes "window_errors L uni i rw = []" shows "window_ok (window_value L uni i rw)"
proof -
  obtain s e where se: "parseHHMM (rw_Start rw) = Some s" "parseHHMM (rw_End rw) = Some e"
    using assms by (cases "parseHHMM (rw_Start rw)"; cases "parseHHMM (rw_End rw)")
      (simp_all add: window_errors_def validateWindow_def window_days_eq Let_def acc_add_def)
  have l: "s < e" "rw_Days rw \<noteq> []" "days_errors L uni i (rw_Days rw) = []"
    using assms se by (auto simp: window_errors_def validateWindow_def window_days_eq Let_def acc_add_def split: if_splits)
  have "length (days_value L uni i (rw_Days rw)) = 7 \<and> True \<in> set (days_value L uni i (rw_Days rw))"
    using window_days_clean [of L uni i 0 "rw_Days rw" "[]" "replicate 7 False"] l(2,3)
    by (simp add: days_errors_def days_value_def)
  then show ?thesis using se l parseHHMM_range [OF se(1)] parseHHMM_range [OF se(2)]
    by (simp add: window_ok_def window_value_def validateWindow_def window_days_eq Let_def)
qed

lemma windows_clean: "windows_errors L uni i rws = [] \<Longrightarrow> list_all window_ok (windows_value L uni i rws)"
proof (induction rws arbitrary: i)
  case (Cons rw rws)
  have e: "windows_errors L uni i (rw # rws) = window_errors L uni i rw @ windows_errors L uni (Suc i) rws"
    "windows_value L uni i (rw # rws) = window_value L uni i rw # windows_value L uni (Suc i) rws"
    unfolding windows_errors_def [of L uni i "rw # rws"] windows_value_def [of L uni i "rw # rws"]
    unfolding validateWindows.simps
    unfolding validateWindow_eq validateWindows_eq by simp_all
  then show ?case using Cons window_clean [of L uni i rw] by simp
qed (simp add: windows_value_def)

definition schedule_ok :: "'loc Schedule \<Rightarrow> bool" where
  "schedule_ok s \<longleftrightarrow> list_all window_ok (sd_Windows s) \<and> (sd_Windows s = [] \<or> sd_Loc s \<noteq> None)"

lemma schedule_clean: "schedule_errors L uni rs = [] \<Longrightarrow> schedule_ok (schedule_value L uni rs)"
proof (cases rs)
  case (Some s)
  assume e: "schedule_errors L uni rs = []"
  then obtain l where l: "pl_LoadLocation L (rsd_Timezone s) = Inr l"
    by (cases "pl_LoadLocation L (rsd_Timezone s)")
       (simp_all add: Some schedule_errors_def validateSchedule_def validateWindows_eq acc_add_def)
  with e have "windows_errors L uni 0 (rsd_Windows s) = []"
    by (simp add: Some schedule_errors_def validateSchedule_def validateWindows_eq)
  from windows_clean [OF this] l show ?thesis
    by (simp add: Some schedule_value_def validateSchedule_def validateWindows_eq schedule_ok_def)
qed (simp add: schedule_value_def validateSchedule_def schedule_ok_def)

lemma schedule_ok_windows: "schedule_ok s \<Longrightarrow> windows_valid (sd_Windows s)"
  by (auto simp: schedule_ok_def windows_valid_def window_ok_def list_all_iff)

section \<open>Which files are accepted\<close>

lemma block_targets_nil:
  "fst (block_targets i j proto as []) = [] \<longleftrightarrow> list_all (\<lambda>a. \<not> isl (validateTarget a proto)) as"
proof (induction as arbitrary: j)
  case (Cons a as)
  show ?case
  proof (cases "validateTarget a proto")
    case (Inl r)
    have "fst (block_targets i j proto (a # as) []) =
        acc_add [] (idx_path (fieldPath i ''targets'') j) r @ fst (block_targets i (Suc j) proto as [])"
      using block_targets_frame [of i "Suc j" proto as "acc_add [] (idx_path (fieldPath i ''targets'') j) r" "[]"]
      by (simp add: Inl)
    then show ?thesis by (simp add: Inl)
  next
    case (Inr t)
    then show ?thesis using Cons [of "Suc j"] by (simp add: case_prod_beta)
  qed
qed simp

lemma targets_errors_nil: "targets_errors i proto as = [] \<longleftrightarrow> list_all (\<lambda>a. \<not> isl (validateTarget a proto)) as"
  by (simp add: targets_errors_def block_targets_nil)

lemma window_days_nil:
  "fst (window_days L uni i j ds ([], days)) = [] \<longleftrightarrow> list_all (\<lambda>d. weekdayByName (ToLower uni (TrimSpace d)) \<noteq> None) ds"
proof (induction ds arbitrary: j days)
  case (Cons d ds)
  show ?case
  proof (cases "weekdayByName (ToLower uni (TrimSpace d))")
    case None
    let ?n = "acc_add [] (idx_path (scheduleWindowPath i ''days'') j) (''unknown day '' @ pl_Quote L d)"
    have "fst (window_days L uni i j (d # ds) ([], days)) = ?n @ fst (window_days L uni i (Suc j) ds ([], days))"
      using window_days_frame [of L uni i "Suc j" ds ?n "[]" days] None by simp
    then show ?thesis by (simp add: None)
  next
    case (Some wd)
    then show ?thesis using Cons [of "Suc j" "days[wd := True]"] by simp
  qed
qed simp

lemma days_errors_nil:
  "days_errors L uni i ds = [] \<longleftrightarrow> list_all (\<lambda>d. weekdayByName (ToLower uni (TrimSpace d)) \<noteq> None) ds"
  by (simp add: days_errors_def window_days_nil)

definition raw_window_ok :: "(string \<Rightarrow> string) \<Rightarrow> RawWindow \<Rightarrow> bool" where
  "raw_window_ok uni rw \<longleftrightarrow> rw_Days rw \<noteq> []
     \<and> list_all (\<lambda>d. weekdayByName (ToLower uni (TrimSpace d)) \<noteq> None) (rw_Days rw)
     \<and> (case (parseHHMM (rw_Start rw), parseHHMM (rw_End rw)) of (Some s, Some e) \<Rightarrow> s < e | _ \<Rightarrow> False)"

lemma window_errors_nil: "window_errors L uni i rw = [] \<longleftrightarrow> raw_window_ok uni rw"
  by (cases "parseHHMM (rw_Start rw)"; cases "parseHHMM (rw_End rw)")
     (auto simp: window_errors_def validateWindow_def window_days_eq days_errors_nil
       raw_window_ok_def Let_def acc_add_def)

lemma windows_errors_nil: "windows_errors L uni i rws = [] \<longleftrightarrow> list_all (raw_window_ok uni) rws"
proof (induction rws arbitrary: i)
  case (Cons rw rws)
  have "windows_errors L uni i (rw # rws) = window_errors L uni i rw @ windows_errors L uni (Suc i) rws"
    unfolding windows_errors_def [of L uni i "rw # rws"]
    unfolding validateWindows.simps
    unfolding validateWindow_eq validateWindows_eq by simp
  then show ?case by (simp add: Cons window_errors_nil)
qed (simp add: windows_errors_def)

definition raw_schedule_ok :: "'loc PLib \<Rightarrow> (string \<Rightarrow> string) \<Rightarrow> RawSchedule option \<Rightarrow> bool" where
  "raw_schedule_ok L uni rs \<longleftrightarrow> (case rs of None \<Rightarrow> True
     | Some s \<Rightarrow> \<not> isl (pl_LoadLocation L (rsd_Timezone s)) \<and> list_all (raw_window_ok uni) (rsd_Windows s))"

lemma schedule_errors_nil: "schedule_errors L uni rs = [] \<longleftrightarrow> raw_schedule_ok L uni rs"
proof (cases rs)
  case (Some s)
  then show ?thesis
    by (cases "pl_LoadLocation L (rsd_Timezone s)")
       (simp_all add: schedule_errors_def validateSchedule_def validateWindows_eq acc_add_def raw_schedule_ok_def
         windows_errors_nil)
qed (simp add: schedule_errors_def validateSchedule_def raw_schedule_ok_def)

lemma customs_nil:
  "fst (resolve_customs L i rps ([], m)) = [] \<longleftrightarrow> list_all (\<lambda>rp. \<not> isl (Compile L rp)) rps"
proof (induction rps arbitrary: i m)
  case (Cons rp rps)
  show ?case
  proof (cases "Compile L rp")
    case (Inl es)
    let ?n = "map (\<lambda>fe. \<lparr>fe_Field = idx_path ''personas'' i @ ''.'' @ fe_Field fe, fe_Msg = fe_Msg fe\<rparr>) es"
    have "es \<noteq> []" using Inl by (auto simp: Compile_sections split: if_splits)
    moreover have "fst (resolve_customs L i (rp # rps) ([], m)) = ?n @ fst (resolve_customs L (Suc i) rps ([], m))"
      using customs_frame [of L "Suc i" rps ?n "[]" m] Inl by (simp add: foldl_add)
    ultimately show ?thesis by (simp add: Inl)
  next
    case (Inr p)
    then show ?thesis using Cons [of "Suc i" "m(pn_Name p \<mapsto> p)"] by (simp del: fun_upd_apply)
  qed
qed simp

lemma personas_errors_nil:
  "personas_errors L bs rps = [] \<longleftrightarrow> \<not> isl bs \<and> list_all (\<lambda>rp. \<not> isl (Compile L rp)) rps"
proof (cases bs)
  case (Inl e)
  let ?n = "acc_add [] ''personas'' (''internal: failed to load built-in personas: '' @ e)"
  have "personas_errors L bs rps = ?n @ fst (resolve_customs L 0 rps ([], Map.empty))"
    using customs_frame [of L 0 rps ?n "[]" Map.empty] Inl by (simp add: personas_errors_def resolvePersonas_def)
  then show ?thesis by (simp add: Inl)
qed (simp add: personas_errors_def resolvePersonas_def customs_nil)

lemma domains_errors_nil: "domains_errors ds = [] \<longleftrightarrow> list_all (\<lambda>d. validHost (TrimSpace d)) ds"
proof -
  have "validateAllowedDomains i ds [] = [] \<longleftrightarrow> list_all (\<lambda>d. validHost (TrimSpace d)) ds" for i
  proof (induction ds arbitrary: i)
    case (Cons d ds)
    then show ?case
      using domains_frame [of "Suc i" ds "acc_add [] (idx_path ''allowed_domains'' i) ''not a valid hostname''" "[]"]
      by simp
  qed simp
  then show ?thesis by (simp add: domains_errors_def)
qed

definition raw_block_ok :: "Options \<Rightarrow> (string \<rightharpoonup> 'loc Persona) \<Rightarrow> int \<Rightarrow> RawBlock \<Rightarrow> bool" where
  "raw_block_ok opts ps maxC rb \<longleftrightarrow>
     TrimSpace (rb_ID rb) \<noteq> '''' \<and> IsKnownProtocol (rb_Protocol rb)
     \<and> rb_TargetRotation rb \<in> {'''', ''sequential'', ''random''} \<and> 0 \<le> rb_TargetRotationIntervalSeconds rb
     \<and> rb_Targets rb \<noteq> [] \<and> list_all (\<lambda>a. \<not> isl (validateTarget a (rb_Protocol rb))) (rb_Targets rb)
     \<and> ps (persona_name rb) \<noteq> None
     \<and> 1 \<le> block_concurrency rb \<and> block_concurrency rb \<le> maxC \<and> 1 \<le> rb_DurationMinutes rb
     \<and> (case rb_Ramp rb of None \<Rightarrow> True
        | Some r \<Rightarrow> 0 \<le> rr_UpSeconds r \<and> i64 (rr_UpSeconds r * second) \<le> block_duration rb
            \<and> (rr_StartConcurrency r = 0 \<or> 1 \<le> rr_StartConcurrency r \<and> rr_StartConcurrency r \<le> block_concurrency rb))
     \<and> (\<not> rb_AllowInsecure rb \<or> op_AllowInsecure opts \<and> TrimSpace (rb_AllowInsecureReason rb) \<noteq> '''')"

lemma parseRotation_ok: "snd (parseRotation s) \<longleftrightarrow> s \<in> {'''', ''sequential'', ''random''}"
  by (auto simp: parseRotation_def)

lemma parseProtocol_ok [simp]:
  "snd (parseProtocol s) \<longleftrightarrow> IsKnownProtocol s" "IsKnownProtocol s \<Longrightarrow> fst (parseProtocol s) = s"
  by (simp_all add: parseProtocol_def)

lemma block_errors_iff: "block_errors L i rb opts ps maxC = [] \<longleftrightarrow> raw_block_ok opts ps maxC rb"
  unfolding block_errors_nil raw_block_ok_def load_errors_nil ramp_errors_nil gate_errors_nil parseRotation_ok
    parseProtocol_ok(1)
  by (cases "rb_Ramp rb") (auto simp: targets_errors_nil ramp_value_def split: if_splits)

lemma blocks_errors_nil:
  "blocks_errors L opts ps maxC i seen rbs = [] \<longleftrightarrow>
     list_all (raw_block_ok opts ps maxC) rbs \<and> distinct (map rb_ID rbs) \<and> (\<forall>rb \<in> set rbs. rb_ID rb \<notin> seen)"
proof (induction rbs arbitrary: i seen)
  case (Cons rb rbs)
  have "raw_block_ok opts ps maxC rb \<Longrightarrow> rb_ID rb \<noteq> ''''" by (auto simp: raw_block_ok_def)
  then show ?case
    by (simp add: Cons block_errors_iff seen_after_def) (metis (no_types, lifting) image_eqI image_iff)
qed simp

definition file_ok ::
  "'loc PLib \<Rightarrow> string + (string \<rightharpoonup> 'loc Persona) \<Rightarrow> (string \<Rightarrow> string) \<Rightarrow> RawPersona Raw \<Rightarrow> Options \<Rightarrow> bool" where
  "file_ok L bs uni raw opts \<longleftrightarrow>
     TrimSpace (raw_Name raw) \<noteq> '''' \<and> raw_Scenarios raw \<noteq> []
     \<and> rx_Mode (raw_Execution raw) \<in> {'''', ''parallel'', ''sequential''}
     \<and> raw_WeightBasis raw \<in> {'''', ''vuser_population'', ''concurrency'', ''request_rate''}
     \<and> \<not> isl bs \<and> list_all (\<lambda>rp. \<not> isl (Compile L rp)) (raw_Personas raw)
     \<and> ValidateCaps (pl_oor L) (toCapSpec (raw_Caps raw))
         (DividedBy DefaultCeiling (if op_AgentCount opts < 1 then 1 else op_AgentCount opts)) (op_CapOverride opts) = []
     \<and> list_all (raw_block_ok opts (personas_value L bs (raw_Personas raw))
         (cs_MaxConcurrentSessions (effective_caps L raw opts))) (raw_Scenarios raw)
     \<and> distinct (map rb_ID (raw_Scenarios raw))
     \<and> list_all (\<lambda>d. validHost (TrimSpace d)) (raw_AllowedDomains raw)
     \<and> raw_schedule_ok L uni (raw_Schedule raw)"

lemma parse_ok:
  "snd (parseMode s) \<longleftrightarrow> s \<in> {'''', ''parallel'', ''sequential''}"
  "snd (parseWeightBasis s) \<longleftrightarrow> s \<in> {'''', ''vuser_population'', ''concurrency'', ''request_rate''}"
  by (auto simp: parseMode_def parseWeightBasis_def)

lemma sections_nil: "concat (scenario_sections L bs uni capText raw opts) = [] \<longleftrightarrow> file_ok L bs uni raw opts"
  by (auto simp: scenario_sections_def file_ok_def personas_errors_nil caps_errors_def blocks_errors_nil
      domains_errors_nil schedule_errors_nil parse_ok)

section \<open>What an accepted scenario guarantees\<close>

lemma load_entries_valid:
  "load_entries L rf dec out ns = Inr m \<Longrightarrow> (\<And>n p. out n = Some p \<Longrightarrow> persona_valid p \<and> pn_Name p = n) \<Longrightarrow>
     m k = Some q \<Longrightarrow> persona_valid q \<and> pn_Name q = k"
proof (induction ns arbitrary: out)
  case (Cons n ns)
  obtain raw p where c: "Compile L raw = Inr p" "load_entries L rf dec (out(pn_Name p \<mapsto> p)) ns = Inr m"
    using Cons.prems(1) by (auto split: sum.splits if_splits)
  show ?case
    by (rule Cons.IH [OF c(2) _ Cons.prems(3)]) (use Cons.prems(2) Compile_valid [OF c(1)] in \<open>auto split: if_splits\<close>)
qed simp

lemma loadBuiltins_valid:
  "loadBuiltins L dir rf dec = Inr m \<Longrightarrow> m k = Some q \<Longrightarrow> persona_valid q \<and> pn_Name q = k"
  using load_entries_valid [of L rf dec Map.empty] by (auto simp: loadBuiltins_def split: sum.splits)

lemma customs_valid:
  "(\<And>n p. m n = Some p \<Longrightarrow> persona_valid p) \<Longrightarrow> snd (resolve_customs L i rps (acc, m)) k = Some q \<Longrightarrow> persona_valid q"
proof (induction rps arbitrary: i acc m)
  case (Cons rp rps)
  show ?case
  proof (cases "Compile L rp")
    case (Inl es)
    then show ?thesis using Cons.IH [OF Cons.prems(1)] Cons.prems(2) by simp
  next
    case (Inr p)
    then have "persona_valid p" by (rule Compile_valid)
    then have v: "\<And>n q. (m(pn_Name p \<mapsto> p)) n = Some q \<Longrightarrow> persona_valid q"
      using Cons.prems(1) by (auto split: if_splits)
    have "snd (resolve_customs L (Suc i) rps (acc, m(pn_Name p \<mapsto> p))) k = Some q"
      using Cons.prems(2) Inr by (simp del: fun_upd_apply)
    from Cons.IH [OF v this] show ?thesis .
  qed
qed simp

lemma personas_valid:
  assumes "bs = loadBuiltins L dir rf dec" "personas_value L bs rps k = Some q"
  shows "persona_valid q"
proof (cases bs)
  case (Inl e)
  then show ?thesis using customs_valid [of Map.empty L 0 rps] assms(2)
    by (simp add: personas_value_def resolvePersonas_def)
next
  case (Inr m)
  have "\<And>n p. m n = Some p \<Longrightarrow> persona_valid p"
    using loadBuiltins_valid [of L dir rf dec m] assms(1) Inr by auto
  from customs_valid [OF this] show ?thesis using Inr assms(2)
    by (simp add: personas_value_def resolvePersonas_def)
qed

definition block_ok :: "Options \<Rightarrow> CapSpec \<Rightarrow> 'loc Persona Block \<Rightarrow> bool" where
  "block_ok opts caps b \<longleftrightarrow>
     TrimSpace (bl_ID b) \<noteq> '''' \<and> IsKnownProtocol (bl_Protocol b)
     \<and> bl_Targets b \<noteq> [] \<and> list_all (target_ok (bl_Protocol b)) (bl_Targets b)
     \<and> (bl_Rotation b = RotationSequential \<or> bl_Rotation b = RotationRandom)
     \<and> (case bl_Persona b of None \<Rightarrow> False | Some p \<Rightarrow> persona_valid p)
     \<and> 1 \<le> bl_Concurrency b \<and> bl_Concurrency b \<le> cs_MaxConcurrentSessions caps \<and> 1 \<le> bl_Weight b
     \<and> (bl_Ramp b = zero_RampPlan \<or> rp_Up (bl_Ramp b) \<le> bl_Duration b
          \<and> 1 \<le> rp_StartConcurrency (bl_Ramp b) \<and> rp_StartConcurrency (bl_Ramp b) \<le> bl_Concurrency b)
     \<and> (\<not> bl_AllowInsecure b \<or> op_AllowInsecure opts \<and> TrimSpace (bl_AllowInsecureReason b) \<noteq> '''')"

definition scenario_ok :: "Options \<Rightarrow> ('loc Persona, 'loc) Scenario \<Rightarrow> bool" where
  "scenario_ok opts sc \<longleftrightarrow>
     TrimSpace (sc_Name sc) \<noteq> '''' \<and> sc_Blocks sc \<noteq> [] \<and> distinct (map bl_ID (sc_Blocks sc))
     \<and> list_all (block_ok opts (sc_Caps sc)) (sc_Blocks sc)
     \<and> (ex_Mode (sc_Execution sc) = ExecParallel \<or> ex_Mode (sc_Execution sc) = ExecSequential)
     \<and> sc_WeightBasis sc \<in> {WeightByVuserPopulation, WeightByConcurrency, WeightByRequestRate}
     \<and> spec_positive (sc_Caps sc) \<and> 1 \<le> sc_AgentCount sc \<and> schedule_ok (sc_Schedule sc)"

lemma raw_block_value:
  assumes "raw_block_ok opts ps (cs_MaxConcurrentSessions caps) rb" "0 \<le> rb_Weight rb"
    and "\<And>n p. ps n = Some p \<Longrightarrow> persona_valid p"
  shows "block_ok opts caps (block_value rb ps)"
proof -
  have k: "IsKnownProtocol (rb_Protocol rb)" and t: "list_all (\<lambda>a. \<not> isl (validateTarget a (rb_Protocol rb))) (rb_Targets rb)"
    and ne: "rb_Targets rb \<noteq> []" using assms(1) by (simp_all add: raw_block_ok_def)
  have ts: "list_all (target_ok (rb_Protocol rb)) (targets_value 0 (rb_Protocol rb) (rb_Targets rb))"
    "targets_value 0 (rb_Protocol rb) (rb_Targets rb) \<noteq> []"
    using targets_clean [of 0 "rb_Protocol rb" "rb_Targets rb"] t ne by (auto simp: targets_errors_nil)
  obtain p where p: "ps (persona_name rb) = Some p" "persona_valid p"
    using assms(1,3) by (auto simp: raw_block_ok_def)
  have r: "fst (parseRotation (rb_TargetRotation rb)) = RotationSequential \<or> fst (parseRotation (rb_TargetRotation rb)) = RotationRandom"
    by (simp add: parseRotation_def)
  have w: "1 \<le> block_weight rb" using assms(2) by (simp add: block_weight_def)
  have rp: "ramp_value (rb_Ramp rb) (block_concurrency rb) = zero_RampPlan
      \<or> rp_Up (ramp_value (rb_Ramp rb) (block_concurrency rb)) \<le> block_duration rb
        \<and> 1 \<le> rp_StartConcurrency (ramp_value (rb_Ramp rb) (block_concurrency rb))
        \<and> rp_StartConcurrency (ramp_value (rb_Ramp rb) (block_concurrency rb)) \<le> block_concurrency rb"
    using assms(1) by (auto simp: raw_block_ok_def ramp_value_def split: option.splits)
  show ?thesis using assms(1) k ts p r w rp by (simp add: raw_block_ok_def block_ok_def block_value_def)
qed

lemma scenario_value_ok:
  assumes "file_ok L bs uni raw opts" "bs = loadBuiltins L dir rf dec"
    "\<forall>rb \<in> set (raw_Scenarios raw). 0 \<le> rb_Weight rb" "in_i64 (op_AgentCount opts)"
  shows "scenario_ok opts (scenario_value L bs uni raw opts)"
proof -
  let ?ps = "personas_value L bs (raw_Personas raw)"
  have "\<And>n p. ?ps n = Some p \<Longrightarrow> persona_valid p" by (rule personas_valid [OF assms(2)])
  then have bl: "list_all (block_ok opts (effective_caps L raw opts)) (map (\<lambda>rb. block_value rb ?ps) (raw_Scenarios raw))"
    using assms(1,3) raw_block_value [of opts ?ps "effective_caps L raw opts"]
    by (simp add: file_ok_def list_all_iff)
  have "ceiling_ok (pl_oor L) (DividedBy DefaultCeiling (if op_AgentCount opts < 1 then 1 else op_AgentCount opts))"
    using assms(4) by (intro share_ok) (simp add: in_i64_numeral)
  then have "spec_positive (effective_caps L raw opts)"
    using assms(1) by (auto simp: effective_caps_def file_ok_def intro: Effective_positive)
  moreover have "schedule_ok (schedule_value L uni (raw_Schedule raw))"
    using assms(1) by (intro schedule_clean [of L]) (simp add: schedule_errors_nil file_ok_def)
  moreover have "map bl_ID (map (\<lambda>rb. block_value rb ?ps) (raw_Scenarios raw)) = map rb_ID (raw_Scenarios raw)"
    by (simp add: block_value_def)
  ultimately show ?thesis using assms(1) bl
    by (auto simp: scenario_ok_def scenario_value_def file_ok_def Let_def parseMode_def parseWeightBasis_def
        simp del: map_map)
qed

section \<open>Properties\<close>

text \<open>C11. Validation is exact and complete: it accepts a file exactly when every rule of \<open>file_ok\<close>
  holds, and otherwise answers the complaints of all nine sections, each judged alone and in the
  order of the file, none hidden by another.\<close>

theorem validate_is_exact:
  "Validate L bs uni capText raw opts =
     (if file_ok L bs uni raw opts then Inr (scenario_value L bs uni raw opts)
      else Inl (concat (scenario_sections L bs uni capText raw opts)))"
  by (simp only: Validate_sections sections_nil if_not_P if_P split: if_split) blast

lemma effective_rates:
  assumes "in_i64 (op_AgentCount opts)"
  shows "cs_PerTargetRPS (effective_caps L raw opts) = NaN \<longleftrightarrow> rc_PerTargetRPS (raw_Caps raw) = NaN"
    and "cs_GlobalRPS (effective_caps L raw opts) = NaN \<longleftrightarrow> rc_GlobalRPS (raw_Caps raw) = NaN"
proof -
  have "in_i64 (if op_AgentCount opts < 1 then 1 else op_AgentCount opts)" using assms by (simp add: in_i64_numeral)
  from Effective_NaN [OF share_ok [OF this, of "pl_oor L"], of "toCapSpec (raw_Caps raw)"]
  show "cs_PerTargetRPS (effective_caps L raw opts) = NaN \<longleftrightarrow> rc_PerTargetRPS (raw_Caps raw) = NaN"
    "cs_GlobalRPS (effective_caps L raw opts) = NaN \<longleftrightarrow> rc_GlobalRPS (raw_Caps raw) = NaN"
    by (simp_all add: effective_caps_def toCapSpec_def)
qed

text \<open>C5. An accepted scenario is well formed: distinct named blocks, each with a known protocol, at
  least one target that passes the target check for that protocol, a valid persona, a concurrency
  within the effective cap, a ramp within the concurrency and the duration, and insecure transport
  only under the operator's flag with a reason; caps that are all positive, except that a rate
  which the file declares as NaN (and only such a rate) is NaN; and a schedule of windows inside a
  day with a time zone. The weights of the file and the agent count are values of their Go types.\<close>

theorem validated_scenario_is_well_formed:
  assumes "Validate L bs uni capText raw opts = Inr sc" and "bs = loadBuiltins L dir rf dec"
    and "\<forall>rb \<in> set (raw_Scenarios raw). 0 \<le> rb_Weight rb" and "in_i64 (op_AgentCount opts)"
  shows "scenario_ok opts sc
    \<and> (cs_PerTargetRPS (sc_Caps sc) = NaN \<longleftrightarrow> rc_PerTargetRPS (raw_Caps raw) = NaN)
    \<and> (cs_GlobalRPS (sc_Caps sc) = NaN \<longleftrightarrow> rc_GlobalRPS (raw_Caps raw) = NaN)"
proof -
  have f: "file_ok L bs uni raw opts \<and> sc = scenario_value L bs uni raw opts"
    using assms(1) unfolding Validate_Inr sections_nil .
  then have "sc_Caps sc = effective_caps L raw opts" by (simp add: scenario_value_def Let_def)
  then show ?thesis using f scenario_value_ok [OF conjunct1 [OF f] assms(2-4)]
    by (simp add: effective_rates [OF assms(4)])
qed

text \<open>A duration counts in 64-bit nanoseconds: up to 153722867 minutes it is exact, and the next
  minute is accepted like any other but is a negative duration.\<close>

theorem long_duration_wraps:
  "raw_block_ok opts ps maxC (rb\<lparr>rb_Ramp := None, rb_DurationMinutes := 153722868\<rparr>)
     = raw_block_ok opts ps maxC (rb\<lparr>rb_Ramp := None, rb_DurationMinutes := 1\<rparr>)
   \<and> bl_Duration (block_value (rb\<lparr>rb_DurationMinutes := 153722868\<rparr>) ps) < 0
   \<and> bl_Duration (block_value (rb\<lparr>rb_DurationMinutes := 153722867\<rparr>) ps) = 153722867 * minute"
  by (simp add: raw_block_ok_def block_value_def block_duration_def block_concurrency_def persona_name_def
      time_units i64_def)

section \<open>An example\<close>

definition demo_builtins :: "string + (string \<rightharpoonup> unit Persona)" where
  "demo_builtins = loadBuiltins demo_lib (Inr [''reader.yaml'']) (\<lambda>_. Inr '''') (\<lambda>_. Inr demo_raw_persona)"

definition demo_block :: RawBlock where
  "demo_block = \<lparr>rb_ID = ''web'', rb_Protocol = ''http'', rb_Targets = [''example.org:80''], rb_TargetRotation = '''',
     rb_TargetRotationIntervalSeconds = 0, rb_AllowInsecure = False, rb_AllowInsecureReason = '''',
     rb_Persona = ''reader'', rb_Concurrency = 4, rb_DurationMinutes = 10, rb_Weight = 0,
     rb_Ramp = Some \<lparr>rr_UpSeconds = 60, rr_StartConcurrency = 1\<rparr>\<rparr>"

definition demo_raw :: "RawPersona Raw" where
  "demo_raw = \<lparr>raw_Name = ''demo'', raw_Description = '''', raw_AllowedDomains = [''example.com''],
     raw_Caps = \<lparr>rc_PerTargetRPS = Fin 0, rc_GlobalRPS = Fin 0, rc_MaxConcurrentSessions = 0, rc_TotalRequestBudget = 0,
       rc_StreamingByteRateKbps = 0, rc_ConcurrentStreams = 0, rc_PerSessionMaxDurationSeconds = 0,
       rc_PerSessionMaxActions = 0\<rparr>,
     raw_Execution = \<lparr>rx_Mode = '''', rx_StopOnError = False\<rparr>, raw_Scenarios = [demo_block], raw_Personas = [],
     raw_WeightBasis = '''',
     raw_Schedule = Some \<lparr>rsd_Timezone = ''UTC'', rsd_Windows =
       [\<lparr>rw_Days = [''mon'', ''Fri''], rw_Start = ''08:00'', rw_End = ''18:30''\<rparr>]\<rparr>\<rparr>"

definition demo_opts :: Options where
  "demo_opts = \<lparr>op_AllowInsecure = False, op_CapOverride = False, op_AgentCount = 1\<rparr>"

lemma demo_persona:
  obtains p m where "demo_builtins = Inr m" "m ''reader'' = Some p"
proof -
  obtain p where p: "Compile demo_lib demo_raw_persona = Inr p" "pn_Name p = ''reader''"
    using demo_compiles Compile_Inr [of demo_lib demo_raw_persona]
    by (cases "Compile demo_lib demo_raw_persona") (force simp: demo_raw_persona_def)+
  then have "demo_builtins = Inr [''reader'' \<mapsto> p]" by (simp add: demo_builtins_def loadBuiltins_def)
  then show ?thesis using that by simp
qed

lemma demo_trim:
  "TrimSpace ''demo'' = ''demo''" "TrimSpace ''web'' = ''web''" "TrimSpace ''reader'' = ''reader''"
  "TrimSpace ''example.com'' = ''example.com''" "TrimSpace ''example.org:80'' = ''example.org:80''"
  "TrimSpace ''08:00'' = ''08:00''" "TrimSpace ''18:30'' = ''18:30''" "TrimSpace ''mon'' = ''mon''"
  "TrimSpace ''Fri'' = ''Fri''"
  by (simp_all add: TrimSpace_host host_char_def)

lemmas digits_eval = Atoi_def digits_val_def digit_val_def is_digit_def HasPrefix_def in_i64_numeral

lemma demo_numbers: "Atoi ''08'' = Some 8" "Atoi ''00'' = Some 0" "Atoi ''18'' = Some 18" "Atoi ''30'' = Some 30"
    "Atoi ''80'' = Some 80"
  by (simp_all add: digits_eval)

lemma demo_hosts: "validHost ''example.com''" "validHost ''example.org''"
  by code_simp+

lemma demo_texts:
  "TrimSpace ''demo'' = ''demo''" "TrimSpace ''web'' = ''web''" "TrimSpace ''reader'' = ''reader''"
  "validHost (TrimSpace ''example.com'')" "\<not> isl (validateTarget ''example.org:80'' ''http'')"
  "parseHHMM ''08:00'' = Some (8 * hour)" "parseHHMM ''18:30'' = Some (18 * hour + 30 * minute)"
  "weekdayByName (ToLower uni (TrimSpace ''mon'')) = Some 1" "weekdayByName (ToLower uni (TrimSpace ''Fri'')) = Some 5"
  by (simp_all add: demo_trim demo_hosts validateTarget_def Contains_def HasPrefix_def split_target_def CountByte_def
      port_ok_def demo_numbers parseHHMM_def weekdayByName_def ToLower_def ascii_def lower_char_def Let_def
      char_of_def bit_simps)

lemma demo_fields:
  "raw_Name demo_raw = ''demo''" "raw_Scenarios demo_raw = [demo_block]" "raw_Personas demo_raw = []"
  "rx_Mode (raw_Execution demo_raw) = ''''" "raw_WeightBasis demo_raw = ''''" "rb_ID demo_block = ''web''"
  "raw_AllowedDomains demo_raw = [''example.com'']" "op_CapOverride demo_opts = False"
  "raw_Schedule demo_raw = Some \<lparr>rsd_Timezone = ''UTC'', rsd_Windows =
     [\<lparr>rw_Days = [''mon'', ''Fri''], rw_Start = ''08:00'', rw_End = ''18:30''\<rparr>]\<rparr>"
  "pl_LoadLocation demo_lib z = Inr ()"
  by (simp_all add: demo_raw_def demo_block_def demo_opts_def demo_lib_def)

lemma demo_file_ok: "file_ok demo_lib demo_builtins uni demo_raw demo_opts"
proof -
  obtain p m where m: "demo_builtins = Inr m" "m ''reader'' = Some p" by (rule demo_persona)
  have v: "personas_value demo_lib demo_builtins [] = m"
    by (simp add: personas_value_def resolvePersonas_def m)
  have caps: "ValidateCaps oor (toCapSpec (raw_Caps demo_raw)) cl False = []" for oor cl
    by (simp add: ValidateCaps_def toCapSpec_def demo_raw_def appendFloatViolation_def appendIntViolation_def
        appendInt64Violation_def f_eq.simps)
  have maxc: "4 \<le> cs_MaxConcurrentSessions (effective_caps demo_lib demo_raw demo_opts)"
    by (simp add: effective_caps_def Effective_def toCapSpec_def demo_raw_def demo_opts_def DividedBy_def
        DefaultCeiling_def floorAtOne_def quot_def Let_def)
  have pn: "persona_name demo_block = ''reader''" by (simp add: persona_name_def demo_block_def demo_texts)
  have "raw_block_ok demo_opts m (cs_MaxConcurrentSessions (effective_caps demo_lib demo_raw demo_opts)) demo_block"
    using maxc m(2) pn demo_texts
    by (simp add: raw_block_ok_def demo_block_def demo_known block_concurrency_def block_duration_def time_units i64_def)
  moreover have "\<not> isl demo_builtins" by (simp add: m(1))
  ultimately show ?thesis using v demo_texts caps
    by (simp add: file_ok_def demo_fields raw_schedule_ok_def raw_window_ok_def time_units)
qed

theorem validated_scenario_is_well_formed_witness:
  "\<exists>sc. Validate demo_lib demo_builtins (\<lambda>s. s) (\<lambda>_. '''') demo_raw demo_opts = Inr sc
     \<and> sc_Name sc = ''demo'' \<and> scenario_ok demo_opts sc"
proof -
  let ?sc = "scenario_value demo_lib demo_builtins (\<lambda>s. s) demo_raw demo_opts"
  have v: "Validate demo_lib demo_builtins (\<lambda>s. s) (\<lambda>_. '''') demo_raw demo_opts = Inr ?sc"
    unfolding Validate_Inr sections_nil using demo_file_ok by simp
  have "scenario_ok demo_opts ?sc"
    using validated_scenario_is_well_formed [OF v demo_builtins_def]
    by (simp add: demo_raw_def demo_block_def demo_opts_def in_i64_numeral)
  moreover have "sc_Name ?sc = ''demo''" by (simp add: scenario_value_def demo_raw_def Let_def)
  ultimately show ?thesis using v by blast
qed

end
