(* ===== verification/Idgen.thy ===== *)
theory Idgen
  imports Protocols
begin

text \<open>
  Identifiers (\<open>internal/idgen\<close>): random tokens (\<open>idgen.go\<close>) and the persisted per-host agent
  identity (\<open>agentid.go\<close>).

  The entropy source is a parameter: asked for \<open>n\<close> bytes it answers the bytes, how many it read and
  an error. The file system is the content of the identity file and of the temporary file; each of
  its operations may fail, and a failed write may leave any part of the text in the temporary file.
  The unpadded URL alphabet of \<open>encoding/base64\<close> is written out.
\<close>

section \<open>Base64\<close>

definition b64_alphabet :: string where
  "b64_alphabet = ''ABCDEFGHIJKLMNOPQRSTUVWXYZabcdefghijklmnopqrstuvwxyz0123456789-_''"

definition b64_char :: "nat \<Rightarrow> char" where
  "b64_char n = b64_alphabet ! (n mod 64)"

text \<open>\<open>RawURLEncoding.EncodeToString\<close>: three bytes make four characters, a rest of one byte two and
  a rest of two bytes three.\<close>

fun b64_encode :: "string \<Rightarrow> string" where
  "b64_encode [] = []"
| "b64_encode [a] = (let v = of_char a * 16 :: nat in [b64_char (v div 64), b64_char v])"
| "b64_encode [a, b] =
     (let v = (of_char a * 256 + of_char b) * 4 :: nat
      in [b64_char (v div 4096), b64_char (v div 64), b64_char v])"
| "b64_encode (a # b # c # cs) =
     (let v = (of_char a * 256 + of_char b) * 256 + of_char c :: nat
      in b64_char (v div 262144) # b64_char (v div 4096) # b64_char (v div 64) # b64_char v # b64_encode cs)"

text \<open>Whether \<open>RawURLEncoding.DecodeString\<close> answers without error. It skips line breaks.\<close>

definition b64_decodes :: "string \<Rightarrow> bool" where
  "b64_decodes s \<longleftrightarrow>
     (let t = filter (\<lambda>c. c \<noteq> CHR 0x0A \<and> c \<noteq> CHR 0x0D) s
      in list_all (\<lambda>c. c \<in> set b64_alphabet) t \<and> length t mod 4 \<noteq> 1)"

section \<open>Tokens\<close>

datatype id_error = TokenSize int | EntropyFailed string | ShortRead int int | NonceSize
  | ReadFailed string string | PersistedInvalid string id_error | BadLength nat nat | NotBase64
  | MkdirFailed string | TempFailed string | WriteFailed string | SyncFailed string | CloseFailed string
  | RenameFailed string

type_synonym entropy = "int \<Rightarrow> string \<times> int \<times> string option"

definition token :: "entropy \<Rightarrow> int \<Rightarrow> id_error + string" where
  "token randRead nBytes =
     (if nBytes \<le> 0 then Inl (TokenSize nBytes)
      else case randRead nBytes of (b, n, err) \<Rightarrow>
        (case err of
           Some e \<Rightarrow> Inl (EntropyFailed e)
         | None \<Rightarrow> if n \<noteq> nBytes then Inl (ShortRead n nBytes) else Inr (b64_encode b)))"

definition tokenBytes :: int where "tokenBytes = 16"

definition new_SessionID :: "entropy \<Rightarrow> id_error + string" where
  "new_SessionID randRead = token randRead tokenBytes"

definition CorrelationID :: "entropy \<Rightarrow> id_error + string" where
  "CorrelationID randRead = token randRead tokenBytes"

definition Nonce :: "entropy \<Rightarrow> int \<Rightarrow> id_error + string" where
  "Nonce randRead nBytes = (if nBytes \<le> 0 then Inl NonceSize else token randRead nBytes)"

section \<open>The agent identity\<close>

definition agentIDBytes :: int where "agentIDBytes = 16"
definition agentIDLen :: nat where "agentIDLen = 22"

record idfs =
  fs_main :: "string option"
  fs_tmp :: "string option"

text \<open>Which operation fails and with what text; \<open>Write k\<close> leaves the first \<open>k\<close> bytes behind.\<close>

datatype fs_fault = NoFault | FailRead string | FailMkdir string | FailTemp string | FailWrite nat string
  | FailSync string | FailClose string | FailRename string

definition validateAgentID :: "string \<Rightarrow> id_error option" where
  "validateAgentID s =
     (if length s \<noteq> agentIDLen then Some (BadLength (length s) agentIDLen)
      else if \<not> b64_decodes s then Some NotBase64 else None)"

definition loadAgentID :: "fs_fault \<Rightarrow> string \<Rightarrow> idfs \<Rightarrow> id_error + string option" where
  "loadAgentID fault path fs =
     (case fault of
        FailRead e \<Rightarrow> Inl (ReadFailed path e)
      | _ \<Rightarrow>
        (case fs_main fs of
           None \<Rightarrow> Inr None
         | Some raw \<Rightarrow>
             let candidate = TrimSpace raw
             in case validateAgentID candidate of
                  Some e \<Rightarrow> Inl (PersistedInvalid path e)
                | None \<Rightarrow> Inr (Some candidate)))"

text \<open>\<open>writeAtomic\<close> as the sequence of file-system states it passes through, the last one being the
  state it returns in (after the deferred removal), and its error.\<close>

definition writeAtomic_trace :: "fs_fault \<Rightarrow> string \<Rightarrow> idfs \<Rightarrow> idfs list \<times> id_error option" where
  "writeAtomic_trace fault i fs =
     (let line = i @ [CHR 0x0A];
          gone = fs\<lparr>fs_tmp := None\<rparr>;
          created = fs\<lparr>fs_tmp := Some []\<rparr>;
          written = fs\<lparr>fs_tmp := Some line\<rparr>;
          renamed = \<lparr>fs_main = Some line, fs_tmp = None\<rparr>
      in case fault of
           FailMkdir e \<Rightarrow> ([fs], Some (MkdirFailed e))
         | FailTemp e \<Rightarrow> ([fs], Some (TempFailed e))
         | FailWrite k e \<Rightarrow> ([fs, created, fs\<lparr>fs_tmp := Some (take k line)\<rparr>, gone], Some (WriteFailed e))
         | FailSync e \<Rightarrow> ([fs, created, written, gone], Some (SyncFailed e))
         | FailClose e \<Rightarrow> ([fs, created, written, gone], Some (CloseFailed e))
         | FailRename e \<Rightarrow> ([fs, created, written, gone], Some (RenameFailed e))
         | _ \<Rightarrow> ([fs, created, written, renamed], None))"

definition writeAtomic :: "fs_fault \<Rightarrow> string \<Rightarrow> idfs \<Rightarrow> id_error option \<times> idfs" where
  "writeAtomic fault i fs = (case writeAtomic_trace fault i fs of (t, e) \<Rightarrow> (e, last t))"

definition AgentID :: "entropy \<Rightarrow> fs_fault \<Rightarrow> string \<Rightarrow> idfs \<Rightarrow> (id_error + string) \<times> idfs" where
  "AgentID randRead fault path fs =
     (case loadAgentID fault path fs of
        Inl e \<Rightarrow> (Inl e, fs)
      | Inr (Some existing) \<Rightarrow> (Inr existing, fs)
      | Inr None \<Rightarrow>
          (case token randRead agentIDBytes of
             Inl e \<Rightarrow> (Inl e, fs)
           | Inr i \<Rightarrow>
               (case writeAtomic fault i fs of
                  (Some e, fs') \<Rightarrow> (Inl e, fs')
                | (None, fs') \<Rightarrow> (Inr i, fs'))))"

section \<open>Tokens are well formed\<close>

lemma b64_char_mem [simp]: "b64_char n \<in> set b64_alphabet"
proof -
  have "length b64_alphabet = 64" by (simp add: b64_alphabet_def)
  then show ?thesis by (simp add: b64_char_def)
qed

lemma b64_encode_alphabet: "list_all (\<lambda>c. c \<in> set b64_alphabet) (b64_encode s)"
  by (induction s rule: b64_encode.induct) (simp_all add: Let_def)

lemma b64_encode_length: "length (b64_encode s) = (4 * length s + 2) div 3"
  by (induction s rule: b64_encode.induct) (simp_all add: Let_def)

lemma alphabet_chars: "c \<in> set b64_alphabet \<Longrightarrow> host_char c \<or> c = CHR ''_''"
  by (auto simp: b64_alphabet_def host_char_def)

lemma alphabet_no_break: "c \<in> set b64_alphabet \<Longrightarrow> c \<noteq> CHR 0x0A \<and> c \<noteq> CHR 0x0D"
  by (auto simp: b64_alphabet_def)

text \<open>A contract of the source: it fills the buffer or reports an error.\<close>

definition fills :: "entropy \<Rightarrow> bool" where
  "fills randRead \<longleftrightarrow> (\<forall>n. case randRead n of (b, k, e) \<Rightarrow> e \<noteq> None \<or> int (length b) = n)"

lemma minted_token:
  assumes "fills randRead" "token randRead agentIDBytes = Inr i"
  shows "length i = 22 \<and> list_all (\<lambda>c. c \<in> set b64_alphabet) i \<and> validateAgentID i = None"
proof -
  obtain b k e where r: "randRead agentIDBytes = (b, k, e)" by (metis prod_cases3)
  with assms(2) have i: "i = b64_encode b" and e: "e = None"
    by (auto simp: token_def split: if_splits option.splits)
  have "length b = 16"
    using assms(1) [unfolded fills_def, rule_format, of agentIDBytes] r e by (simp add: agentIDBytes_def)
  then have l: "length i = 22" by (simp add: i b64_encode_length)
  have a: "list_all (\<lambda>c. c \<in> set b64_alphabet) i" unfolding i by (rule b64_encode_alphabet)
  then have "filter (\<lambda>c. c \<noteq> CHR 0x0A \<and> c \<noteq> CHR 0x0D) i = i"
    using alphabet_no_break by (auto simp: list_all_iff filter_id_conv)
  then have "b64_decodes i" using a l by (simp add: b64_decodes_def)
  with l a show ?thesis by (simp add: validateAgentID_def agentIDLen_def)
qed

section \<open>The identity is stable\<close>

lemma alphabet_nums: "c \<in> set b64_alphabet \<Longrightarrow> 33 \<le> (of_char c :: nat) \<and> of_char c < (128 :: nat)"
  by (auto simp: b64_alphabet_def)

lemma space_rune_nums:
  "r \<in> set space_runes \<Longrightarrow> ((of_char (hd r) :: nat) \<le> 32 \<or> 128 \<le> (of_char (hd r) :: nat))
     \<and> (((of_char (last r) :: nat) \<le> 32 \<and> length r = 1) \<or> 128 \<le> (of_char (last r) :: nat))"
  by (auto simp: space_runes_def)

lemma space_runes_alphabet:
  "r \<in> set space_runes \<Longrightarrow> hd r \<notin> set b64_alphabet \<and> last r \<notin> set b64_alphabet"
  using space_rune_nums [of r] alphabet_nums [of "hd r"] alphabet_nums [of "last r"] by linarith

lemma cut_left_alphabet: "c \<in> set b64_alphabet \<Longrightarrow> cut_left (c # s) = None"
proof -
  assume c: "c \<in> set b64_alphabet"
  have "\<not> HasPrefix (c # s) r" if "r \<in> set space_runes" for r
    using space_runes_alphabet [OF that] space_runes_nonempty [OF that] c
    by (cases r) (auto simp: HasPrefix_def)
  then show ?thesis by (auto simp: cut_left_def find_None_iff)
qed

lemma HasSuffix_last: "HasSuffix (s @ [c]) r \<Longrightarrow> r \<noteq> [] \<Longrightarrow> last r = c"
  by (cases r rule: rev_cases) (auto simp: HasSuffix_def append_eq_append_conv_if)

lemma cut_right_alphabet: "c \<in> set b64_alphabet \<Longrightarrow> cut_right (s @ [c]) = None"
  using space_runes_alphabet HasSuffix_last [of s c] space_runes_nonempty
  by (auto simp: cut_right_def find_None_iff dest!: HasSuffix_last)

lemma cut_right_newline: "cut_right (s @ [CHR 0x0A]) = Some s"
proof -
  have nl: "[CHR 0x0A] \<in> set space_runes" by (simp add: space_runes_def)
  have suf: "HasSuffix (s @ [CHR 0x0A]) [CHR 0x0A]" by (simp add: HasSuffix_def)
  obtain r where r: "List.find (HasSuffix (s @ [CHR 0x0A])) space_runes = Some r"
    using nl suf find_None_iff [of "HasSuffix (s @ [CHR 0x0A])" space_runes] by (cases "List.find (HasSuffix (s @ [CHR 0x0A])) space_runes") auto
  then have mem: "r \<in> set space_runes" and "HasSuffix (s @ [CHR 0x0A]) r" by (auto simp: find_Some_iff)
  then have l: "last r = CHR 0x0A" by (intro HasSuffix_last [of s]) (auto dest: space_runes_nonempty)
  have "length r = 1" using space_rune_nums [OF mem] by (simp add: l)
  then have "r = [CHR 0x0A]" using l by (cases r) auto
  then show ?thesis using r by (simp add: cut_right_def)
qed

lemma TrimSpace_line:
  assumes "i \<noteq> []" "list_all (\<lambda>c. c \<in> set b64_alphabet) i"
  shows "TrimSpace (i @ [CHR 0x0A]) = i"
proof -
  obtain c t where ct: "i = c # t" using assms(1) by (cases i) auto
  obtain u d where ud: "i = u @ [d]" using assms(1) by (cases i rule: rev_cases) auto
  have c: "c \<in> set b64_alphabet" using assms(2) unfolding ct by simp
  have d: "d \<in> set b64_alphabet" using assms(2) unfolding ud by simp
  have "TrimLeftSpace (i @ [CHR 0x0A]) = i @ [CHR 0x0A]"
    using cut_left_alphabet [OF c, of "t @ [CHR 0x0A]"]
    by (subst TrimLeftSpace.simps) (simp del: TrimLeftSpace.simps add: ct)
  moreover have "TrimRightSpace i = i"
    using cut_right_alphabet [OF d, of u]
    by (subst TrimRightSpace.simps) (simp del: TrimRightSpace.simps add: ud)
  ultimately show ?thesis
    by (simp add: TrimSpace_def TrimRightSpace.simps [of "i @ [CHR 0x0A]"] cut_right_newline)
qed

text \<open>C40. The identity of a host is minted once and then stable: after a first call that answers an
  identity, every later call answers the same one and changes nothing, whatever the entropy it
  would draw.\<close>

theorem agent_id_is_stable:
  assumes "fills randRead" "fs_main fs = None" "AgentID randRead fault path fs = (Inr i, fs')"
  shows "length i = 22 \<and> AgentID randRead' NoFault path fs' = (Inr i, fs')"
proof -
  obtain w where t: "token randRead agentIDBytes = Inr i" and w: "writeAtomic fault i fs = (None, fs')"
    using assms(2,3) by (auto simp: AgentID_def loadAgentID_def split: fs_fault.splits sum.splits option.splits prod.splits)
  note m = minted_token [OF assms(1) t]
  have "fs_main fs' = Some (i @ [CHR 0x0A])"
    using w by (auto simp: writeAtomic_def writeAtomic_trace_def Let_def split: fs_fault.splits)
  moreover have "TrimSpace (i @ [CHR 0x0A]) = i" using m by (intro TrimSpace_line) auto
  ultimately show ?thesis using m by (simp add: AgentID_def loadAgentID_def Let_def)
qed

text \<open>The identity file is never torn: in every state the write passes through, crash included, it
  holds its old content or the whole new line, a failed write leaves it as it was, and no temporary
  file stays behind.\<close>

theorem agent_id_write_is_atomic:
  "list_all (\<lambda>s. fs_main s = fs_main fs \<or> fs_main s = Some (i @ [CHR 0x0A])) (fst (writeAtomic_trace fault i fs))
   \<and> (case writeAtomic fault i fs of
        (None, s) \<Rightarrow> s = \<lparr>fs_main = Some (i @ [CHR 0x0A]), fs_tmp = None\<rparr>
      | (Some e, s) \<Rightarrow> s = fs \<or> s = fs\<lparr>fs_tmp := None\<rparr>)"
  by (cases fault) (simp_all add: writeAtomic_def writeAtomic_trace_def Let_def)

text \<open>The check of a persisted identity lets line breaks inside it pass, because the decoder skips
  them: twenty characters with two line feeds are taken as an identity.\<close>

theorem agent_id_may_hold_line_breaks:
  "validateAgentID (''AAAAAAAAAA'' @ [CHR 0x0A, CHR 0x0A] @ ''AAAAAAAAAA'') = None"
  by (simp add: validateAgentID_def agentIDLen_def b64_decodes_def b64_alphabet_def)

definition zeros :: entropy where
  "zeros n = (replicate (nat n) (CHR 0x00), n, if n < 0 then Some ''negative'' else None)"

theorem agent_id_is_stable_witness:
  "\<exists>i fs'. AgentID zeros NoFault ''id'' \<lparr>fs_main = None, fs_tmp = None\<rparr> = (Inr i, fs') \<and> length i = 22
     \<and> AgentID (\<lambda>_. ([], 0, Some ''dry'')) NoFault ''id'' fs' = (Inr i, fs')"
proof -
  have f: "fills zeros" by (simp add: fills_def zeros_def)
  obtain i fs' where a: "AgentID zeros NoFault ''id'' \<lparr>fs_main = None, fs_tmp = None\<rparr> = (Inr i, fs')"
    by (simp add: AgentID_def loadAgentID_def token_def zeros_def agentIDBytes_def writeAtomic_def
        writeAtomic_trace_def Let_def)
  with agent_id_is_stable [OF f _ a] show ?thesis by auto
qed

end
