(* ===== verification/Supervisor.thy ===== *)
theory Supervisor
  imports Handler Lifecycle Patch Validate Idgen "HOL-Library.AList"
begin

text \<open>
  The engine and the supervisor of a run (\<open>internal/engine/engine.go\<close>, \<open>run.go\<close>): the check of the
  options, \<open>Start\<close> with everything it builds and spawns, and the loops of the block timer, the ramp
  governor, the scheduler and the statistics collector.

  \<open>Start\<close> runs in one goroutine. It draws from three sources, threaded as \<open>sources\<close>: the clock's
  readings, the entropy of its identifiers (one call each) and the engine's random generator. None
  is a panic. The goroutines it spawns are values of the run it returns: one per virtual user, two
  per block, one for the schedule and one for the statistics. The session maker is the one of
  \<open>internal/behavior\<close>.

  A loop that waits on channels is given what each of its waits observes; a wait without an
  observation is where it still stands.
\<close>

section \<open>The engine\<close>

text \<open>An interface value only checked for nil is whether it is there.\<close>

record EngineOptions =
  eo_Clock :: bool
  eo_Rand :: bool
  eo_Registry :: bool
  eo_SessionMaker :: bool
  eo_Logger :: bool
  eo_Audit :: bool
  eo_AgentID :: string
  eo_StatsInterval :: duration
  eo_GraceTimeout :: duration
  eo_MaxRetries :: int
  eo_BackoffBase :: duration
  eo_BackoffMax :: duration

definition defaultStatsInterval :: duration where "defaultStatsInterval = second"
definition defaultGraceTimeout :: duration where "defaultGraceTimeout = 30 * second"
definition engineOptions :: string where "engineOptions = ''engine.options''"

definition engine_New :: "EngineOptions \<Rightarrow> goerr + EngineOptions" where
  "engine_New o0 =
     (let missing = (\<lambda>what. Inl (pterr_New ClassConfig engineOptions ''engine.New'' (what @ '' is required'')))
      in if \<not> eo_Clock o0 then missing ''Clock''
         else if \<not> eo_Rand o0 then missing ''Rand''
         else if \<not> eo_Registry o0 then missing ''Registry''
         else if \<not> eo_SessionMaker o0 then missing ''SessionMaker''
         else if \<not> eo_Audit o0 then missing ''Audit''
         else if eo_AgentID o0 = '''' then missing ''AgentID''
         else let o1 = (if \<not> eo_Logger o0 then o0\<lparr>eo_Logger := True\<rparr> else o0);
                  o2 = (if eo_StatsInterval o1 \<le> 0 then o1\<lparr>eo_StatsInterval := defaultStatsInterval\<rparr> else o1);
                  o3 = (if eo_GraceTimeout o2 \<le> 0 then o2\<lparr>eo_GraceTimeout := defaultGraceTimeout\<rparr> else o2)
              in Inr o3)"

section \<open>The run\<close>

record 'r sources =
  sr_clk :: clock
  sr_ent :: "nat \<Rightarrow> entropy"
  sr_rand :: 'r

text \<open>A virtual user: its protocol session, its behaviour session, and the dependencies and random
  source of its worker. No handler has opened a state yet.\<close>

record ('r, 'loc) vuser =
  vu_proto :: "('r, unit) proto_session"
  vu_sess :: "('r, 'loc) session"
  vu_deps :: workerDeps
  vu_rand :: 'r

record ('r, 'loc) block_run =
  bk_block :: "'loc Persona Block"
  bk_sem :: semaphore
  bk_selector :: rotatingSelector
  bk_selRand :: 'r
  bk_vusers :: "('r, 'loc) vuser list"

record ('r, 'loc) Run =
  ru_core :: run_core
  ru_agentID :: string
  ru_sc :: "('loc Persona, 'loc) Scenario"
  ru_gate :: gate
  ru_coll :: collector
  ru_pub :: "StatsSnapshot publisher"
  ru_limiter :: limiter
  ru_breakers :: "string \<rightharpoonup> Breaker"
  ru_tripwire :: Tripwire
  ru_caps :: CapSpec
  ru_capOverride :: bool
  ru_weights :: weights
  ru_blocksLeft :: int
  ru_blocks :: "('r, 'loc) block_run list"
  ru_scheduler :: bool
  ru_wg :: nat

definition run_ID :: "('r, 'loc) Run \<Rightarrow> string" where
  "run_ID r = rn_id (ru_core r)"

fun target_ids :: "string list \<Rightarrow> Target list \<Rightarrow> string list" where
  "target_ids ids [] = ids"
| "target_ids ids (t # ts) = (if t_ID t \<in> set ids then target_ids ids ts else target_ids (ids @ [t_ID t]) ts)"

definition targetIDsOf :: "('p, 'loc) Scenario \<Rightarrow> string list" where
  "targetIDsOf sc = foldl (\<lambda>ids b. target_ids ids (bl_Targets b)) [] (sc_Blocks sc)"

definition initialLimit :: "(f64 \<Rightarrow> int) \<Rightarrow> 'p Block \<Rightarrow> int" where
  "initialLimit oor b =
     (let n = concurrencyAt oor (bl_Ramp b) (bl_Concurrency b) 0 in if n < 1 then 1 else n)"

text \<open>\<open>collector.snapshot\<close> with the saturation of the run's limiter, its readings taken in order.\<close>

definition coll_snapshot :: "(f64 \<Rightarrow> int) \<Rightarrow> collector \<Rightarrow> limiter \<Rightarrow> clock \<Rightarrow> StatsSnapshot option \<times> clock" where
  "coll_snapshot oor c l clk =
     (case Now clk of (now, clk1) \<Rightarrow> case Saturation clk1 l of (sat, clk2) \<Rightarrow> (snapshot oor c now sat, clk2))"

definition next_id :: "(entropy \<Rightarrow> id_error + string) \<Rightarrow> 'r sources \<Rightarrow> (id_error + string) \<times> 'r sources" where
  "next_id draw so = (draw (sr_ent so 0), so\<lparr>sr_ent := \<lambda>k. sr_ent so (Suc k)\<rparr>)"

definition newSelectorFor :: "'r Rand \<Rightarrow> 'p Block \<Rightarrow> 'r sources \<Rightarrow> (rotatingSelector \<times> 'r \<times> 'r sources) option" where
  "newSelectorFor R b so =
     do { (child, r') \<leftarrow> rand_Split R (sr_rand so);
          let (sel, clk') = newRotatingSelector (sr_clk so) (bl_Rotation b) (bl_RotationInterval b)
                              [bl_Protocol b \<mapsto> bl_Targets b];
          Some (sel, child, so\<lparr>sr_rand := r', sr_clk := clk'\<rparr>) }"

text \<open>\<open>buildSession\<close>: the answer None inside is its \<open>false\<close>. The dependencies it does not set are
  their zero values; the random source is shared with the session maker, which has advanced it.\<close>

definition session_deps :: "EngineOptions \<Rightarrow> 'r \<Rightarrow> 'r SessionDeps" where
  "session_deps opts child =
     \<lparr>dp_Clock = True, dp_Rand = child, dp_Log = eo_Logger opts, dp_Stats = True, dp_Caps = zero_Caps,
      dp_Audit = eo_Audit opts, dp_CredSrc = False, dp_SharedDNSCache = False, dp_SharedJarGroups = False,
      dp_Transport = False\<rparr>"

definition buildSession ::
  "(f64 \<Rightarrow> f64) \<Rightarrow> (f64 \<Rightarrow> int) \<Rightarrow> 'r Rand \<Rightarrow> EngineOptions \<Rightarrow> TargetSet \<Rightarrow> 'loc Persona Block \<Rightarrow> 'r sources
     \<Rightarrow> ((('r, unit) proto_session \<times> ('r, 'loc) session) option \<times> 'r sources) option" where
  "buildSession expf oor R opts ts b so =
     (case next_id new_SessionID so of
        (Inl _, so1) \<Rightarrow> Some (None, so1)
      | (Inr sid, so1) \<Rightarrow>
          do { (child, r') \<leftarrow> rand_Split R (sr_rand so1);
               p \<leftarrow> bl_Persona b;
               spec \<leftarrow> ToSpec p;
               res \<leftarrow> NewSession expf oor R spec True True child (sr_clk so1);
               (case res of
                  Inl _ \<Rightarrow> Some (None, so1\<lparr>sr_rand := r'\<rparr>)
                | Inr (s, child', clk') \<Rightarrow>
                    Some (Some (\<lparr>pse_ID = sid, pse_Persona = pn_Name p, pse_Targets = ts, pse_States = Map.empty,
                                 pse_Deps = session_deps opts child'\<rparr>, s), so1\<lparr>sr_rand := r', sr_clk := clk'\<rparr>)) })"

definition workerDepsOf :: "'r Rand \<Rightarrow> EngineOptions \<Rightarrow> Ceiling \<Rightarrow> 'r sources \<Rightarrow> (workerDeps \<times> 'r \<times> 'r sources) option" where
  "workerDepsOf R opts ceil so =
     do { (child, r') \<leftarrow> rand_Split R (sr_rand so);
          Some (\<lparr>wd_MaxRetries = eo_MaxRetries opts, wd_BackoffBase = eo_BackoffBase opts,
                 wd_BackoffMax = eo_BackoffMax opts, wd_PanicStorm = 8,
                 wd_SessionMaxActions = cl_PerSessionMaxActions ceil\<rparr>, child, so\<lparr>sr_rand := r'\<rparr>) }"

text \<open>The loop of \<open>startBlock\<close> over the virtual users.\<close>

fun start_vusers ::
  "(f64 \<Rightarrow> f64) \<Rightarrow> (f64 \<Rightarrow> int) \<Rightarrow> 'r Rand \<Rightarrow> EngineOptions \<Rightarrow> Ceiling \<Rightarrow> TargetSet \<Rightarrow> 'loc Persona Block \<Rightarrow> nat
     \<Rightarrow> 'r sources \<Rightarrow> (('r, 'loc) vuser list \<times> 'r sources) option" where
  "start_vusers expf oor R opts ceil ts b 0 so = Some ([], so)"
| "start_vusers expf oor R opts ceil ts b (Suc n) so =
     do { (v, so1) \<leftarrow> buildSession expf oor R opts ts b so;
          (case v of
             None \<Rightarrow> start_vusers expf oor R opts ceil ts b n so1
           | Some (ps, s) \<Rightarrow>
               do { (deps, r, so2) \<leftarrow> workerDepsOf R opts ceil so1;
                    (vs, so3) \<leftarrow> start_vusers expf oor R opts ceil ts b n so2;
                    Some (\<lparr>vu_proto = ps, vu_sess = s, vu_deps = deps, vu_rand = r\<rparr> # vs, so3) }) }"

definition startBlock ::
  "(f64 \<Rightarrow> f64) \<Rightarrow> (f64 \<Rightarrow> int) \<Rightarrow> 'r Rand \<Rightarrow> EngineOptions \<Rightarrow> Ceiling \<Rightarrow> TargetSet \<Rightarrow> 'loc Persona Block
     \<Rightarrow> 'r sources \<Rightarrow> (('r, 'loc) block_run \<times> 'r sources) option" where
  "startBlock expf oor R opts ceil ts b so =
     do { let sem = newSemaphore (initialLimit oor b);
          (sel, r, so1) \<leftarrow> newSelectorFor R b so;
          (vs, so2) \<leftarrow> start_vusers expf oor R opts ceil ts b (nat (bl_Concurrency b)) so1;
          Some (\<lparr>bk_block = b, bk_sem = sem, bk_selector = sel, bk_selRand = r, bk_vusers = vs\<rparr>, so2) }"

fun start_blocks ::
  "(f64 \<Rightarrow> f64) \<Rightarrow> (f64 \<Rightarrow> int) \<Rightarrow> 'r Rand \<Rightarrow> EngineOptions \<Rightarrow> Ceiling \<Rightarrow> TargetSet \<Rightarrow> 'loc Persona Block list
     \<Rightarrow> 'r sources \<Rightarrow> (('r, 'loc) block_run list \<times> 'r sources) option" where
  "start_blocks expf oor R opts ceil ts [] so = Some ([], so)"
| "start_blocks expf oor R opts ceil ts (b # bs) so =
     do { (k, so1) \<leftarrow> startBlock expf oor R opts ceil ts b so;
          (ks, so2) \<leftarrow> start_blocks expf oor R opts ceil ts bs so1;
          Some (k # ks, so2) }"

definition startSupervisor ::
  "(f64 \<Rightarrow> f64) \<Rightarrow> (f64 \<Rightarrow> int) \<Rightarrow> 'r Rand \<Rightarrow> EngineOptions \<Rightarrow> ('r, 'loc) Run \<Rightarrow> 'r sources
     \<Rightarrow> (('r, 'loc) Run \<times> 'r sources) option" where
  "startSupervisor expf oor R opts r so =
     (let sc = ru_sc r;
          r1 = r\<lparr>ru_blocksLeft := int (length (sc_Blocks sc)),
                 ru_weights := foldl (\<lambda>m b. AList.update (bl_ID b) (nat (bl_Weight b)) m) [] (sc_Blocks sc)\<rparr>
      in do { (ks, so1) \<leftarrow> start_blocks expf oor R opts (sc_Ceiling sc) (sc_Targets sc) (sc_Blocks sc) so;
              let sched = 0 < length (sd_Windows (sc_Schedule sc));
              Some (r1\<lparr>ru_blocks := ks, ru_scheduler := sched,
                       ru_wg := (\<Sum>k\<leftarrow>ks. length (bk_vusers k) + 2) + (if sched then 1 else 0) + 1\<rparr>, so1) })"

definition Start ::
  "(f64 \<Rightarrow> f64) \<Rightarrow> (f64 \<Rightarrow> int) \<Rightarrow> 'r Rand \<Rightarrow> (id_error \<Rightarrow> goerr) \<Rightarrow> EngineOptions
     \<Rightarrow> ('loc Persona, 'loc) Scenario \<Rightarrow> 'r sources \<Rightarrow> ((goerr + ('r, 'loc) Run) \<times> 'r sources) option" where
  "Start expf oor R idErr opts sc so =
     (case next_id CorrelationID so of
        (Inl e, so1) \<Rightarrow>
          Some (Inl (pterr_Wrap ClassPermanent ''engine.id'' ''engine.Start'' ''mint run id'' (Some (idErr e))), so1)
      | (Inr runID, so1) \<Rightarrow>
          (let targetIDs = targetIDsOf sc;
               tw = NewTripwire (cs_TotalRequestBudget (sc_Caps sc));
               (lim, clk1) = NewLimiter (sr_clk so1) (sc_Caps sc);
               breakers = foldl (\<lambda>m i. m(i \<mapsto> NewBreaker breakerThreshold breakerCooldown)) Map.empty targetIDs;
               coll = newCollector targetIDs;
               (snap, clk2) = coll_snapshot oor coll lim clk1;
               so2 = so1\<lparr>sr_clk := clk2\<rparr>
           in do { first \<leftarrow> snap;
                   let core = \<lparr>rn_id = runID, rn_state = StateIdle, rn_audit = eo_Audit opts, rn_appended = []\<rparr>;
                   let run = \<lparr>ru_core = core, ru_agentID = eo_AgentID opts, ru_sc = sc, ru_gate = newGate,
                     ru_coll = coll, ru_pub = newPublisher first, ru_limiter = lim, ru_breakers = breakers,
                     ru_tripwire = tw, ru_caps = sc_Caps sc, ru_capOverride = sc_CapOverride sc, ru_weights = [],
                     ru_blocksLeft = 0, ru_blocks = [], ru_scheduler = False, ru_wg = 0\<rparr>;
                   (case transitionTo core StateRunning of
                      (_, Some err) \<Rightarrow>
                        Some (Inl (pterr_Wrap ClassPermanent ''engine.state'' ''engine.Start'' ''enter running'' (Some err)), so2)
                    | (core', None) \<Rightarrow>
                        do { (run', so3) \<leftarrow> startSupervisor expf oor R opts (run\<lparr>ru_core := core'\<rparr>) so2;
                             Some (Inr run', so3) }) }))"

text \<open>The state of the life cycle in which \<open>Start\<close> leaves the run.\<close>

definition lifecycle_view :: "('r, 'loc) Run \<Rightarrow> lc_sys" where
  "lifecycle_view r =
     \<lparr>lc_run = ru_core r, lc_gate = ru_gate r, lc_cancelled = False, lc_done = False, lc_err = None,
      lc_workers = ru_wg r, lc_blocksLeft = nat (ru_blocksLeft r), lc_pcs = []\<rparr>"

section \<open>The supervisor's loops\<close>

text \<open>One turn of \<open>runBlockDuration\<close>: the wait for the gate fails with the context, or the gate
  is open and, a segment having begun at the reading \<open>t\<close>, the select sees the context, the closing
  of the gate (and reads \<open>t'\<close>) or the timer. What it sees depends on the timer the turn arms, so the
  environment of a turn is a function of the armed duration.\<close>

datatype seg = WaitFails | CtxDone instant | GateCloses instant instant | TimerFires instant
datatype block_end = BdWaiting | BdCancelled | BdFinished

fun runBlockDuration :: "duration \<Rightarrow> duration \<Rightarrow> (duration \<Rightarrow> seg) list \<Rightarrow> block_end \<times> duration" where
  "runBlockDuration dur elapsed [] = (if elapsed < dur then BdWaiting else BdFinished, elapsed)"
| "runBlockDuration dur elapsed (env # envs) =
     (if \<not> elapsed < dur then (BdFinished, elapsed)
      else let remaining = i64 (dur - elapsed) in
      case env remaining of
        WaitFails \<Rightarrow> (BdCancelled, elapsed)
      | CtxDone t \<Rightarrow> (BdCancelled, elapsed)
      | GateCloses t t' \<Rightarrow> runBlockDuration dur (i64 (elapsed + time_sub t' t)) envs
      | TimerFires t \<Rightarrow> runBlockDuration dur dur envs)"

text \<open>\<open>runRampGovernor\<close> from its start reading, given the readings after its ticks: the
  semaphore it leaves, the limits it set and whether it has returned.\<close>

fun ramp_ticks ::
  "(f64 \<Rightarrow> int) \<Rightarrow> RampPlan \<Rightarrow> int \<Rightarrow> instant \<Rightarrow> instant list \<Rightarrow> semaphore \<Rightarrow> semaphore \<times> int list \<times> bool" where
  "ramp_ticks oor plan target start [] sem = (sem, [], False)"
| "ramp_ticks oor plan target start (t # ts) sem =
     (let elapsed = time_sub t start;
          n = concurrencyAt oor plan target elapsed;
          sem1 = sem_setLimit sem n
      in if elapsed \<ge> rp_Up plan then (sem1, [n], True)
         else case ramp_ticks oor plan target start ts sem1 of (s, ns, b) \<Rightarrow> (s, n # ns, b))"

definition runRampGovernor ::
  "(f64 \<Rightarrow> int) \<Rightarrow> 'p Block \<Rightarrow> instant \<Rightarrow> instant list \<Rightarrow> semaphore \<Rightarrow> semaphore \<times> int list \<times> bool" where
  "runRampGovernor oor b start ts sem =
     (if rp_Up (bl_Ramp b) \<le> 0 then (sem, [], True)
      else ramp_ticks oor (bl_Ramp b) (bl_Concurrency b) start ts sem)"

text \<open>\<open>runScheduler\<close>, given for each turn its reading and how the sleep after it ends: the
  operations it makes on the gate, which other goroutines operate in between, and where it stands.
  None is a panic.\<close>

datatype sched_end = SdSleeping instant | SdDone | SdCancelled

definition sched_turn ::
  "('loc \<Rightarrow> instant \<Rightarrow> localtime) \<Rightarrow> 'loc Schedule \<Rightarrow> instant \<Rightarrow> (gate_op \<times> instant) option" where
  "sched_turn In s now =
     map_option (\<lambda>on. (if on then GResume gateSchedule else GPause gateSchedule, now)) (Active In s now)"

fun runScheduler ::
  "('loc \<Rightarrow> instant \<Rightarrow> localtime) \<Rightarrow> ('loc \<Rightarrow> instant \<Rightarrow> nat \<Rightarrow> instant) \<Rightarrow> 'loc Schedule \<Rightarrow> instant
     \<Rightarrow> (instant option) list \<Rightarrow> ((gate_op \<times> instant) list \<times> sched_end) option" where
  "runScheduler In midnight s now wakes =
     do { op \<leftarrow> sched_turn In s now;
          nxt \<leftarrow> NextTransition In midnight s now;
          (if nxt = zero_time then Some ([op], SdDone)
           else let d = time_sub nxt now; d1 = (if d \<le> 0 then 1 else d)
                in case wakes of
                     [] \<Rightarrow> Some ([op], SdSleeping (time_add now d1))
                   | None # _ \<Rightarrow> Some ([op], SdCancelled)
                   | Some t # ws \<Rightarrow>
                       do { (ops, e) \<leftarrow> runScheduler In midnight s t ws; Some (op # ops, e) }) }"

text \<open>\<open>runStatsCollector\<close>: the state of the collector, the two readings of its snapshot and the
  races of its publication, at each tick and at the cancellation.\<close>

datatype stat_event = Tick collector instant f64 "nat \<Rightarrow> nat \<Rightarrow> bool" | RunDone collector instant f64 "nat \<Rightarrow> nat \<Rightarrow> bool"

fun runStatsCollector ::
  "(f64 \<Rightarrow> int) \<Rightarrow> stat_event list \<Rightarrow> StatsSnapshot publisher \<Rightarrow> (StatsSnapshot publisher \<times> bool) option" where
  "runStatsCollector oor [] p = Some (p, False)"
| "runStatsCollector oor (RunDone c now sat takes # es) p =
     do { s \<leftarrow> snapshot oor c now sat; p' \<leftarrow> publish takes p s; Some (p', True) }"
| "runStatsCollector oor (Tick c now sat takes # es) p =
     do { s \<leftarrow> snapshot oor c now sat; p' \<leftarrow> publish takes p s; runStatsCollector oor es p' }"

declare runScheduler.simps [simp del]

lemma runScheduler_turn:
  "sched_turn In s now = Some op \<Longrightarrow> NextTransition In midnight s now = Some nxt \<Longrightarrow>
   runScheduler In midnight s now wakes =
     (if nxt = zero_time then Some ([op], SdDone)
      else case wakes of
             [] \<Rightarrow> Some ([op], SdSleeping (time_add now (if time_sub nxt now \<le> 0 then 1 else time_sub nxt now)))
           | None # _ \<Rightarrow> Some ([op], SdCancelled)
           | Some t # ws \<Rightarrow> map_option (\<lambda>(ops, e). (op # ops, e)) (runScheduler In midnight s t ws))"
  by (subst runScheduler.simps)
     (auto simp: Let_def map_option_case split: list.split option.split)

section \<open>What Start builds\<close>

text \<open>How many of \<open>n\<close> identifier draws succeed.\<close>

definition granted :: "(nat \<Rightarrow> entropy) \<Rightarrow> nat \<Rightarrow> nat" where
  "granted ent n = length (filter (\<lambda>k. \<not> isl (new_SessionID (ent k))) [0..<n])"

lemma granted_add: "granted ent (m + n) = granted ent m + granted (\<lambda>k. ent (m + k)) n"
proof -
  have "map (\<lambda>k. m + k) [0..<n] = [m..<m + n]"
    using map_add_upt [of m n] by (simp only: add.commute)
  then have "[0..<m + n] = [0..<m] @ map (\<lambda>k. m + k) [0..<n]"
    using upt_add_eq_append [of 0 m n] by simp
  then show ?thesis by (simp add: granted_def filter_map comp_def)
qed

lemma granted_Suc:
  "granted ent (Suc n) = (if isl (new_SessionID (ent 0)) then 0 else 1) + granted (\<lambda>k. ent (Suc k)) n"
  using granted_add [of ent 1 n] by (simp add: granted_def)

definition vuser_ready ::
  "EngineOptions \<Rightarrow> Ceiling \<Rightarrow> TargetSet \<Rightarrow> 'loc Persona Block \<Rightarrow> ('r, 'loc) vuser \<Rightarrow> bool" where
  "vuser_ready opts ceil ts b v \<longleftrightarrow>
     (case bl_Persona b of
        None \<Rightarrow> False
      | Some p \<Rightarrow> pse_Persona (vu_proto v) = pn_Name p \<and> ss_mix (vu_sess v) = pn_Mix p \<and> mix_ok (pn_Mix p))
     \<and> pse_Targets (vu_proto v) = ts \<and> pse_States (vu_proto v) = Map.empty
     \<and> wd_MaxRetries (vu_deps v) = eo_MaxRetries opts
     \<and> wd_SessionMaxActions (vu_deps v) = cl_PerSessionMaxActions ceil"

definition block_ready :: "EngineOptions \<Rightarrow> ('loc Persona, 'loc) Scenario \<Rightarrow> ('r, 'loc) block_run \<Rightarrow> bool" where
  "block_ready opts sc k \<longleftrightarrow>
     sem_held (bk_sem k) = 0 \<and> 1 \<le> sem_limit (bk_sem k) \<and> sem_limit (bk_sem k) \<le> bl_Concurrency (bk_block k)
     \<and> bl_Concurrency (bk_block k) \<le> cs_MaxConcurrentSessions (sc_Caps sc)
     \<and> sel_pool (bk_selector k) (bl_Protocol (bk_block k)) = bl_Targets (bk_block k)
     \<and> list_all (vuser_ready opts (sc_Ceiling sc) (sc_Targets sc) (bk_block k)) (bk_vusers k)"

lemma split_draw:
  assumes "total_rand R" obtains c r' where "rand_Split R r = Some (c, r')"
  by (rule total_draws [OF assms])

lemma buildSession_answers:
  assumes "total_rand R" "bl_Persona b = Some p" "persona_valid p"
  shows "\<exists>v so'. buildSession expf oor R opts ts b so = Some (v, so') \<and> sr_ent so' = (\<lambda>k. sr_ent so (Suc k))
    \<and> (case v of
         None \<Rightarrow> isl (new_SessionID (sr_ent so 0))
       | Some (ps, s) \<Rightarrow> new_SessionID (sr_ent so 0) = Inr (pse_ID ps) \<and> pse_Persona ps = pn_Name p
           \<and> pse_Targets ps = ts \<and> pse_States ps = Map.empty \<and> ss_mix s = pn_Mix p)"
proof (cases "new_SessionID (sr_ent so 0)")
  case (Inl e)
  then show ?thesis by (simp add: buildSession_def next_id_def)
next
  case (Inr sid)
  obtain B P where B: "pn_Burst p = Some B" and P: "pn_Prints p = Some P" "sp_prints P \<noteq> []"
    using assms(3) by (auto simp: persona_valid_def split: option.splits)
  then obtain spec where spec: "ToSpec p = Some spec" "sp_Mix spec = pn_Mix p" "sp_Prints spec = Some P"
    by (simp add: ToSpec_def)
  have m: "mix_ok (sp_Mix spec)" using assms(3) spec(2) by (simp add: persona_valid_def)
  obtain c r' where c: "rand_Split R (sr_rand so) = Some (c, r')" by (rule split_draw [OF assms(1)])
  obtain s r1 clk1 where "NewSession expf oor R spec True True c (sr_clk so) = Some (Inr (s, r1, clk1))"
      "ss_mix s = sp_Mix spec"
    using NewSession_answers [OF assms(1) m, of expf oor c "sr_clk so"] spec(3) P(2) by auto
  then show ?thesis using Inr c spec assms(2) by (simp add: buildSession_def next_id_def)
qed

lemma start_vusers_answers:
  assumes "total_rand R" "bl_Persona b = Some p" "persona_valid p"
  shows "\<exists>vs so'. start_vusers expf oor R opts ceil ts b n so = Some (vs, so')
    \<and> sr_ent so' = (\<lambda>k. sr_ent so (n + k)) \<and> length vs = granted (sr_ent so) n
    \<and> list_all (vuser_ready opts ceil ts b) vs"
proof (induction n arbitrary: so)
  case 0
  then show ?case by (simp add: granted_def)
next
  case (Suc n)
  obtain v so1 where b: "buildSession expf oor R opts ts b so = Some (v, so1)" "sr_ent so1 = (\<lambda>k. sr_ent so (Suc k))"
    "case v of None \<Rightarrow> isl (new_SessionID (sr_ent so 0))
       | Some (ps, s) \<Rightarrow> new_SessionID (sr_ent so 0) = Inr (pse_ID ps) \<and> pse_Persona ps = pn_Name p
           \<and> pse_Targets ps = ts \<and> pse_States ps = Map.empty \<and> ss_mix s = pn_Mix p"
    using buildSession_answers [OF assms] by blast
  have m: "mix_ok (pn_Mix p)" using assms(3) by (simp add: persona_valid_def)
  show ?case
  proof (cases v)
    case None
    then show ?thesis using Suc.IH [of so1] b by (auto simp: granted_Suc)
  next
    case (Some x)
    obtain ps s where x: "x = (ps, s)" by (metis surj_pair)
    obtain d r where d: "rand_Split R (sr_rand so1) = Some (d, r)" by (rule split_draw [OF assms(1)])
    obtain vs so3 where vs: "start_vusers expf oor R opts ceil ts b n (so1\<lparr>sr_rand := r\<rparr>) = Some (vs, so3)"
      "sr_ent so3 = (\<lambda>k. sr_ent so1 (n + k))" "length vs = granted (sr_ent so1) n"
      "list_all (vuser_ready opts ceil ts b) vs"
      using Suc.IH [of "so1\<lparr>sr_rand := r\<rparr>"] by auto
    let ?w = "\<lparr>wd_MaxRetries = eo_MaxRetries opts, wd_BackoffBase = eo_BackoffBase opts,
      wd_BackoffMax = eo_BackoffMax opts, wd_PanicStorm = 8, wd_SessionMaxActions = cl_PerSessionMaxActions ceil\<rparr>"
    let ?v = "\<lparr>vu_proto = ps, vu_sess = s, vu_deps = ?w, vu_rand = d\<rparr>"
    have v: "vuser_ready opts ceil ts b ?v" using b(3) m assms(2) by (simp add: Some x vuser_ready_def)
    have "start_vusers expf oor R opts ceil ts b (Suc n) so = Some (?v # vs, so3)"
      using b(1) d vs(1) by (simp add: Some x workerDepsOf_def)
    moreover have "length (?v # vs) = granted (sr_ent so) (Suc n)"
      using b(2,3) vs(3) by (simp add: Some x granted_Suc)
    moreover have "sr_ent so3 = (\<lambda>k. sr_ent so (Suc n + k))" "list_all (vuser_ready opts ceil ts b) (?v # vs)"
      using v vs(2,4) b(2) by simp_all
    ultimately show ?thesis by blast
  qed
qed

lemma concurrencyAt_start:
  "concurrencyAt oor p target 0 =
     (if rp_Up p \<le> 0 then target else if rp_StartConcurrency p < 1 then 1 else rp_StartConcurrency p)"
  by (simp add: concurrencyAt_def Let_def)

lemma initialLimit_bounds:
  assumes "block_ok vo caps b" shows "1 \<le> initialLimit oor b \<and> initialLimit oor b \<le> bl_Concurrency b"
  using assms by (auto simp: initialLimit_def block_ok_def concurrencyAt_start zero_RampPlan_def Let_def)

lemma startBlock_answers:
  assumes "total_rand R" "block_ok vo (sc_Caps sc) b"
  shows "\<exists>k so'. startBlock expf oor R opts (sc_Ceiling sc) (sc_Targets sc) b so = Some (k, so') \<and> bk_block k = b
    \<and> sr_ent so' = (\<lambda>i. sr_ent so (nat (bl_Concurrency b) + i))
    \<and> length (bk_vusers k) = granted (sr_ent so) (nat (bl_Concurrency b)) \<and> block_ready opts sc k"
proof -
  obtain p where p: "bl_Persona b = Some p" "persona_valid p"
    using assms(2) by (auto simp: block_ok_def split: option.splits)
  obtain c r' where c: "rand_Split R (sr_rand so) = Some (c, r')" by (rule split_draw [OF assms(1)])
  obtain sel clk' where s: "newRotatingSelector (sr_clk so) (bl_Rotation b) (bl_RotationInterval b)
      [bl_Protocol b \<mapsto> bl_Targets b] = (sel, clk')" by (metis surj_pair)
  have pool: "sel_pool sel (bl_Protocol b) = bl_Targets b"
    using s by (auto simp: newRotatingSelector_def sel_pool_def split: prod.splits)
  obtain vs so' where "start_vusers expf oor R opts (sc_Ceiling sc) (sc_Targets sc) b (nat (bl_Concurrency b))
      (so\<lparr>sr_rand := r', sr_clk := clk'\<rparr>) = Some (vs, so')"
    "sr_ent so' = (\<lambda>i. sr_ent so (nat (bl_Concurrency b) + i))"
    "length vs = granted (sr_ent so) (nat (bl_Concurrency b))"
    "list_all (vuser_ready opts (sc_Ceiling sc) (sc_Targets sc) b) vs"
    using start_vusers_answers [OF assms(1) p, of expf oor opts "sc_Ceiling sc" "sc_Targets sc" "nat (bl_Concurrency b)"
        "so\<lparr>sr_rand := r', sr_clk := clk'\<rparr>"] by auto
  then show ?thesis using c s pool initialLimit_bounds [OF assms(2), of oor] assms(2)
    by (simp add: startBlock_def newSelectorFor_def block_ready_def newSemaphore_def block_ok_def)
qed

lemma start_blocks_answers:
  assumes "total_rand R" "list_all (block_ok vo (sc_Caps sc)) bs"
  shows "\<exists>ks so'. start_blocks expf oor R opts (sc_Ceiling sc) (sc_Targets sc) bs so = Some (ks, so') \<and> map bk_block ks = bs
    \<and> (\<Sum>k\<leftarrow>ks. length (bk_vusers k)) = granted (sr_ent so) (\<Sum>b\<leftarrow>bs. nat (bl_Concurrency b))
    \<and> list_all (block_ready opts sc) ks"
  using assms(2)
proof (induction bs arbitrary: so)
  case Nil
  then show ?case by (simp add: granted_def)
next
  case (Cons b bs)
  obtain k so1 where k: "startBlock expf oor R opts (sc_Ceiling sc) (sc_Targets sc) b so = Some (k, so1)" "bk_block k = b"
    "sr_ent so1 = (\<lambda>i. sr_ent so (nat (bl_Concurrency b) + i))"
    "length (bk_vusers k) = granted (sr_ent so) (nat (bl_Concurrency b))" "block_ready opts sc k"
    using startBlock_answers [OF assms(1), of vo sc b expf oor opts so] Cons.prems by auto
  obtain ks so2 where "start_blocks expf oor R opts (sc_Ceiling sc) (sc_Targets sc) bs so1 = Some (ks, so2)" "map bk_block ks = bs"
    "(\<Sum>k\<leftarrow>ks. length (bk_vusers k)) = granted (sr_ent so1) (\<Sum>b\<leftarrow>bs. nat (bl_Concurrency b))"
    "list_all (block_ready opts sc) ks"
    using Cons.IH [of so1] Cons.prems by auto
  note r = this
  have "start_blocks expf oor R opts (sc_Ceiling sc) (sc_Targets sc) (b # bs) so = Some (k # ks, so2)"
    using k(1) r(1) by simp
  moreover have "(\<Sum>k\<leftarrow>k # ks. length (bk_vusers k)) = granted (sr_ent so) (\<Sum>b\<leftarrow>b # bs. nat (bl_Concurrency b))"
    using k(4) r(3) unfolding k(3) by (simp add: granted_add del: sum_list_mult_const)
  moreover have "map bk_block (k # ks) = b # bs" "list_all (block_ready opts sc) (k # ks)"
    using k(2,5) r(2,4) by simp_all
  ultimately show ?case by (intro exI conjI)
qed

lemma first_snapshot: "\<exists>s. snapshot oor (newCollector ids) now sat = Some s"
  by (simp add: snapshot_def Let_def newCollector_eq collector_of_def list_all_iff)

lemma breakers_dom:
  "foldl (\<lambda>m i. m(i \<mapsto> x)) m0 ids = (\<lambda>i. if i \<in> set ids then Some x else m0 i)"
  by (induction ids arbitrary: m0) (auto simp: fun_eq_iff)

lemma Start_answers:
  assumes "scenario_ok vo sc" "total_rand R" "CorrelationID (sr_ent so 0) = Inr i" "eo_Audit opts"
  shows "\<exists>run so'. Start expf oor R idErr opts sc so = Some (Inr run, so')
    \<and> (let n = granted (\<lambda>k. sr_ent so (Suc k)) (\<Sum>b\<leftarrow>sc_Blocks sc. nat (bl_Concurrency b)) in
         (\<Sum>k\<leftarrow>ru_blocks run. length (bk_vusers k)) = n
         \<and> lifecycle_view run = lc_start i (n + 2 * length (sc_Blocks sc)
             + (if sd_Windows (sc_Schedule sc) = [] then 1 else 2)) (length (sc_Blocks sc)))
    \<and> map bk_block (ru_blocks run) = sc_Blocks sc \<and> list_all (block_ready opts sc) (ru_blocks run)
    \<and> ru_coll run = newCollector (targetIDsOf sc)
    \<and> ru_breakers run = (\<lambda>j. if j \<in> set (targetIDsOf sc) then Some (NewBreaker breakerThreshold breakerCooldown) else None)"
proof -
  let ?so1 = "so\<lparr>sr_ent := \<lambda>k. sr_ent so (Suc k)\<rparr>"
  obtain lim clk1 where lim: "NewLimiter (sr_clk so) (sc_Caps sc) = (lim, clk1)" by (metis surj_pair)
  obtain snap clk2 where snap: "coll_snapshot oor (newCollector (targetIDsOf sc)) lim clk1 = (Some snap, clk2)"
    unfolding coll_snapshot_def by (metis (no_types, lifting) first_snapshot split_beta prod.collapse)
  let ?core = "\<lparr>rn_id = i, rn_state = StateIdle, rn_audit = True, rn_appended = []\<rparr>"
  obtain core where core: "transitionTo ?core StateRunning = (core, None)"
    using transitionTo_ok_iff [of ?core StateRunning] by (cases "transitionTo ?core StateRunning") simp
  have bo: "list_all (block_ok vo (sc_Caps sc)) (sc_Blocks sc)" using assms(1) by (simp add: scenario_ok_def)
  obtain ks so' where ks: "start_blocks expf oor R opts (sc_Ceiling sc) (sc_Targets sc) (sc_Blocks sc) (?so1\<lparr>sr_clk := clk2\<rparr>) = Some (ks, so')"
    "map bk_block ks = sc_Blocks sc"
    "(\<Sum>k\<leftarrow>ks. length (bk_vusers k)) = granted (\<lambda>k. sr_ent so (Suc k)) (\<Sum>b\<leftarrow>sc_Blocks sc. nat (bl_Concurrency b))"
    "list_all (block_ready opts sc) ks"
    using start_blocks_answers [OF assms(2) bo, of expf oor opts "?so1\<lparr>sr_clk := clk2\<rparr>"] by auto
  have len: "length ks = length (sc_Blocks sc)" using arg_cong [OF ks(2), of length] by simp
  have wg: "(\<Sum>k\<leftarrow>ks. length (bk_vusers k) + 2) = (\<Sum>k\<leftarrow>ks. length (bk_vusers k)) + 2 * length ks"
    by (induction ks) simp_all
  show ?thesis
    using assms(3,4) lim snap core ks len wg
    by (simp add: Start_def next_id_def startSupervisor_def lifecycle_view_def lc_start_def breakers_dom Let_def)
qed

section \<open>The loops\<close>

lemma segment_length:
  "o1 \<le> c \<Longrightarrow> c - o1 < dur - e \<Longrightarrow> 0 \<le> e \<Longrightarrow> dur \<le> int64_max \<Longrightarrow> i64 (e + time_sub c o1) = e + (c - o1)"
  by (simp add: time_sub_def sat64_def int64_min_def int64_max_def i64_small)

text \<open>A span for which the gate is open, from \<open>o1\<close> to \<open>c\<close>, as a turn sees it: the gate closes at \<open>c\<close>
  unless the armed timer has fired by then.\<close>

definition open_span :: "instant \<times> instant \<Rightarrow> duration \<Rightarrow> seg" where
  "open_span s armed =
     (case s of (o1, c) \<Rightarrow> if c - o1 < armed then GateCloses o1 c else TimerFires (o1 + armed))"

lemma open_span_pair:
  "open_span (o1, c) armed = (if c - o1 < armed then GateCloses o1 c else TimerFires (o1 + armed))"
  by (simp add: open_span_def)

definition open_time :: "(instant \<times> instant) list \<Rightarrow> int" where
  "open_time opens = (\<Sum>(o1, c)\<leftarrow>opens. c - o1)"

lemma finished_stays: "runBlockDuration dur dur ss = (BdFinished, dur)"
  by (cases ss) simp_all

lemma open_time_nonneg: "list_all (\<lambda>(o1, c). o1 \<le> c) opens \<Longrightarrow> 0 \<le> open_time opens"
  by (induction opens) (auto simp: open_time_def)

lemma block_timer:
  assumes "list_all (\<lambda>(o1, c). o1 \<le> c) opens" "0 \<le> e" "e < dur" "dur \<le> int64_max"
  shows "runBlockDuration dur e (map open_span opens) =
    (if dur \<le> e + open_time opens then (BdFinished, dur) else (BdWaiting, e + open_time opens))"
  using assms(1-3)
proof (induction opens arbitrary: e)
  case Nil
  then show ?case by (simp add: open_time_def)
next
  case (Cons x opens)
  obtain o1 c where x: "x = (o1, c)" by (metis surj_pair)
  have oc: "o1 \<le> c" "list_all (\<lambda>(o1, c). o1 \<le> c) opens" using Cons.prems(1) by (auto simp: x)
  have t: "open_time ((o1, c) # opens) = c - o1 + open_time opens" by (simp add: open_time_def)
  have r: "i64 (dur - e) = dur - e"
    using Cons.prems(2,3) assms(4) by (intro i64_small) (simp_all add: int64_max_def)
  show ?case
  proof (cases "c - o1 < dur - e")
    case True
    then have "runBlockDuration dur (e + (c - o1)) (map open_span opens) =
        (if dur \<le> e + (c - o1) + open_time opens then (BdFinished, dur)
         else (BdWaiting, e + (c - o1) + open_time opens))"
      using Cons.prems(2) oc by (intro Cons.IH) simp_all
    then show ?thesis using True Cons.prems(2,3) segment_length [OF oc(1) True Cons.prems(2) assms(4)]
      by (simp add: x t r open_span_pair add.assoc)
  next
    case False
    then show ?thesis using Cons.prems(3) open_time_nonneg [OF oc(2)]
      by (simp add: x t r open_span_pair finished_stays)
  qed
qed

fun spaced :: "instant \<Rightarrow> instant list \<Rightarrow> bool" where
  "spaced a [] = True"
| "spaced a (t # ts) = (a + second \<le> t \<and> spaced t ts)"

lemma spaced_from: "spaced a ts \<Longrightarrow> t \<in> set ts \<Longrightarrow> a < t"
  by (induction ts arbitrary: a) (auto simp: time_units, force)

lemma ramp_loop:
  assumes "ramp_sized plan target" "spaced a ts" "start \<le> a"
    and "ramp_ticks oor plan target start ts sem = (sem', ns, fin)"
  shows "sorted ns \<and> list_all (\<lambda>n. concurrencyAt oor plan target (time_sub a start) \<le> n \<and> n \<le> target) ns
    \<and> (fin \<longrightarrow> sem_limit sem' = target) \<and> (\<not> fin \<longrightarrow> length ns = length ts)
    \<and> (\<not> fin \<longrightarrow> ts \<noteq> [] \<longrightarrow> a - start + int (length ts) * second < rp_Up plan)"
  using assms(2-4)
proof (induction ts arbitrary: a sem sem' ns)
  case Nil
  then show ?case by simp
next
  case (Cons t ts)
  let ?f = "\<lambda>t. concurrencyAt oor plan target (time_sub t start)"
  have at: "a + second \<le> t" "spaced t ts" using Cons.prems(1) by simp_all
  have st: "start \<le> t" "a \<le> t" using at(1) Cons.prems(2) by (simp_all add: time_units)
  have up: "0 < rp_Up plan" "in_i64 (rp_Up plan)"
    using assms(1) by (simp_all add: ramp_sized_def in_i64_numeral)
  have m: "?f a \<le> ?f t" "?f t \<le> target"
    using ramp_facts [OF assms(1) time_sub_mono [OF st(2)], of oor start]
      ramp_facts [OF assms(1) order_refl [of "time_sub t start"], of oor] by simp_all
  show ?case
  proof (cases "rp_Up plan \<le> time_sub t start")
    case True
    have "?f t = target" using ramp_facts [OF assms(1) order_refl [of "time_sub t start"], of oor] True by simp
    then show ?thesis using Cons.prems(3) True m by (auto simp: Let_def sem_setLimit_def)
  next
    case False
    then have lt: "t - start < rp_Up plan" using time_sub_ge_iff [OF up(2,1), of t start] by simp
    obtain s ms b where r: "ramp_ticks oor plan target start ts (sem_setLimit sem (?f t)) = (s, ms, b)"
      by (metis prod_cases3)
    have e: "sem' = s" "ns = ?f t # ms" "fin = b" using Cons.prems(3) False r by (auto simp: Let_def)
    note ih = Cons.IH [OF at(2) st(1)]
    have i: "sorted ms \<and> list_all (\<lambda>n. ?f t \<le> n \<and> n \<le> target) ms
        \<and> (fin \<longrightarrow> sem_limit s = target) \<and> (\<not> fin \<longrightarrow> length ms = length ts)
        \<and> (\<not> fin \<longrightarrow> ts \<noteq> [] \<longrightarrow> t - start + int (length ts) * second < rp_Up plan)"
      using ih r unfolding e(3) by blast
    have "\<not> fin \<Longrightarrow> a - start + int (length (t # ts)) * second < rp_Up plan"
      using i lt at(1) by (cases "ts = []") (auto simp: algebra_simps)
    moreover have "list_all (\<lambda>n. ?f a \<le> n \<and> n \<le> target) (?f t # ms)"
      using i m by (auto simp: list_all_iff)
    moreover have "sorted (?f t # ms)" using i by (auto simp: list_all_iff)
    ultimately show ?thesis using i unfolding e by simp
  qed
qed

definition sched_op :: "gate_op \<Rightarrow> bool" where
  "sched_op a \<longleftrightarrow> a = GPause gateSchedule \<or> a = GResume gateSchedule"

lemma src_paused_filter: "src_paused gateSchedule es p = src_paused gateSchedule (filter sched_op es) p"
proof (induction es arbitrary: p)
  case (Cons a es)
  then show ?case by (cases a; cases "case a of GPause x \<Rightarrow> x | GResume x \<Rightarrow> x") (simp_all add: sched_op_def)
qed simp

lemma src_paused_last:
  "src_paused s (es @ [GPause s]) p" "\<not> src_paused s (es @ [GResume s]) p"
  by (induction s es p rule: src_paused.induct) simp_all

text \<open>The instants for which the last operation of the scheduler is in force.\<close>

definition in_force :: "sched_end \<Rightarrow> instant \<Rightarrow> instant \<Rightarrow> bool" where
  "in_force e t t' \<longleftrightarrow> t \<le> t' \<and> (case e of SdSleeping w \<Rightarrow> t' < w | SdDone \<Rightarrow> True | SdCancelled \<Rightarrow> False)"

lemma scheduler_loop:
  assumes "sd_Loc s = Some off" "windows_valid (sd_Windows s)"
    and "zero_time \<le> now" "list_all (\<lambda>w. case w of Some t \<Rightarrow> zero_time \<le> t | None \<Rightarrow> True) wakes"
  shows "\<exists>xs t on e. runScheduler fixed_In fixed_midnight s now wakes =
      Some (xs @ [(if on then GResume gateSchedule else GPause gateSchedule, t)], e)
    \<and> list_all (\<lambda>x. sched_op (fst x)) xs
    \<and> (\<forall>t'. in_force e t t' \<longrightarrow> Active fixed_In s t' = Some on)"
  using assms(3,4)
proof (induction wakes arbitrary: now)
  case Nil
  obtain cur r where a: "Active fixed_In s now = Some cur" "NextTransition fixed_In fixed_midnight s now = Some r"
    and f: "if r = zero_time then \<forall>t' > now. Active fixed_In s t' = Some cur
       else now < r \<and> Active fixed_In s r \<noteq> Some cur
          \<and> (\<forall>t'. now \<le> t' \<and> t' < r \<longrightarrow> Active fixed_In s t' = Some cur)"
    using next_flip [OF assms(1,2) Nil.prems(1)] by blast
  have op: "sched_turn fixed_In s now = Some (if cur then GResume gateSchedule else GPause gateSchedule, now)"
    using a(1) by (simp add: sched_turn_def)
  show ?case
  proof (cases "r = zero_time")
    case True
    then have "\<forall>t' \<ge> now. Active fixed_In s t' = Some cur" using a(1) f by (metis order_le_less)
    then show ?thesis using a True
      by (intro exI [of _ "[]"] exI [of _ now] exI [of _ cur] exI [of _ SdDone])
         (simp add: runScheduler_turn [OF op] in_force_def)
  next
    case False
    then have nr: "now < r" and c: "\<And>t'. now \<le> t' \<Longrightarrow> t' < r \<Longrightarrow> Active fixed_In s t' = Some cur" using f by simp_all
    have d: "0 < time_sub r now" "time_sub r now \<le> r - now"
      using nr time_sub_le [of now r] by (simp_all add: time_sub_pos_iff)
    show ?thesis using a op False d c
      by (intro exI [of _ "[]"] exI [of _ now] exI [of _ cur] exI [of _ "SdSleeping (time_add now (time_sub r now))"])
         (simp add: runScheduler_turn [OF op] in_force_def time_add_def)
  qed
next
  case (Cons w wakes)
  obtain cur r where a: "Active fixed_In s now = Some cur" "NextTransition fixed_In fixed_midnight s now = Some r"
    and f: "if r = zero_time then \<forall>t' > now. Active fixed_In s t' = Some cur
       else now < r \<and> Active fixed_In s r \<noteq> Some cur
          \<and> (\<forall>t'. now \<le> t' \<and> t' < r \<longrightarrow> Active fixed_In s t' = Some cur)"
    using next_flip [OF assms(1,2) Cons.prems(1)] by blast
  let ?op = "(if cur then GResume gateSchedule else GPause gateSchedule, now)"
  have op: "sched_turn fixed_In s now = Some ?op" using a(1) by (simp add: sched_turn_def)
  show ?case
  proof (cases "r = zero_time")
    case True
    then have "\<forall>t' \<ge> now. Active fixed_In s t' = Some cur" using a(1) f by (metis order_le_less)
    then show ?thesis using a True
      by (intro exI [of _ "[]"] exI [of _ now] exI [of _ cur] exI [of _ SdDone])
         (simp add: runScheduler_turn [OF op] in_force_def)
  next
    case False
    show ?thesis
    proof (cases w)
      case None
      then show ?thesis using a False
        by (intro exI [of _ "[]"] exI [of _ now] exI [of _ cur] exI [of _ SdCancelled])
           (simp add: runScheduler_turn [OF op] in_force_def)
    next
      case (Some t1)
      obtain xs t on e where ih: "runScheduler fixed_In fixed_midnight s t1 wakes =
          Some (xs @ [(if on then GResume gateSchedule else GPause gateSchedule, t)], e)"
        "list_all (\<lambda>x. sched_op (fst x)) xs" "\<forall>t'. in_force e t t' \<longrightarrow> Active fixed_In s t' = Some on"
        using Cons.IH [of t1] Cons.prems(2) Some by auto
      have "sched_op (fst ?op)" by (simp add: sched_op_def)
      then show ?thesis using a False Some ih
        by (intro exI [of _ "?op # xs"] exI [of _ t] exI [of _ on] exI [of _ e])
           (simp add: runScheduler_turn [OF op])
    qed
  qed
qed

section \<open>Properties\<close>

text \<open>C6. What \<open>Start\<close> builds from a validated scenario, over a generator that answers and an engine
  with its audit sink: it succeeds as soon as its own identifier is minted, enters \<open>Running\<close> with
  that one transition, and tracks two goroutines per block, one for the statistics, one for a
  schedule and one per virtual user. Every block gets a free semaphore between one and its
  concurrency, which is within the cap, a selector over exactly its targets, and workers that carry
  its persona's mix and a session over the frozen targets of the scenario; every target gets a closed breaker and a shard. The virtual users are as many
  as the identifier draws that succeed: one that fails is dropped without an error.\<close>

theorem start_builds_the_run:
  assumes "Validate L bs uni capText raw vo = Inr sc" and "bs = loadBuiltins L dir rf dec"
    and "\<forall>rb \<in> set (raw_Scenarios raw). 0 \<le> rb_Weight rb" and "in_i64 (op_AgentCount vo)"
    and "total_rand R" and "CorrelationID (sr_ent so 0) = Inr i" and "eo_Audit opts"
  shows "\<exists>run so'. Start expf oor R idErr opts sc so = Some (Inr run, so')
    \<and> (let n = granted (\<lambda>k. sr_ent so (Suc k)) (\<Sum>b\<leftarrow>sc_Blocks sc. nat (bl_Concurrency b)) in
         (\<Sum>k\<leftarrow>ru_blocks run. length (bk_vusers k)) = n
         \<and> lifecycle_view run = lc_start i (n + 2 * length (sc_Blocks sc)
             + (if sd_Windows (sc_Schedule sc) = [] then 1 else 2)) (length (sc_Blocks sc)))
    \<and> map bk_block (ru_blocks run) = sc_Blocks sc \<and> list_all (block_ready opts sc) (ru_blocks run)
    \<and> ru_coll run = newCollector (targetIDsOf sc)
    \<and> ru_breakers run = (\<lambda>j. if j \<in> set (targetIDsOf sc) then Some (NewBreaker breakerThreshold breakerCooldown) else None)"
proof -
  have "file_ok L bs uni raw vo \<and> sc = scenario_value L bs uni raw vo"
    using assms(1) unfolding Validate_Inr sections_nil .
  then have "scenario_ok vo sc" using scenario_value_ok [OF _ assms(2-4)] by blast
  then show ?thesis using Start_answers assms(5-7) by blast
qed

text \<open>C16. The block timer counts exactly the time for which the gate is open: whatever the pauses
  between its open spans, and with a timer that fires when the armed time has passed unless the gate
  closes before, the block ends when the lengths of the spans add up to its duration, not before
  and not later, and a block of no or negative duration ends at once.\<close>

theorem block_timer_counts_open_time:
  assumes "list_all (\<lambda>(o1, c). o1 \<le> c) opens" "dur \<le> int64_max"
  shows "runBlockDuration dur 0 (map open_span opens) =
    (if dur \<le> 0 then (BdFinished, 0)
     else if dur \<le> open_time opens then (BdFinished, dur) else (BdWaiting, open_time opens))"
proof (cases "dur \<le> 0")
  case True
  then show ?thesis by (cases "map open_span opens") simp_all
next
  case False
  then show ?thesis using block_timer [OF assms(1), of 0 dur] assms(2) by simp
qed

text \<open>C17. The ramp governor of a validated ramp terminates: with ticks at least a second apart it
  returns within as many ticks as the ramp has seconds, never lowers the limit, never leaves the
  range from the start to the target, and leaves the semaphore at the target.\<close>

theorem ramp_governor_terminates:
  assumes "ramp_sized (bl_Ramp b) (bl_Concurrency b)" "spaced start ts"
    and "runRampGovernor oor b start ts sem = (sem', ns, fin)"
  shows "sorted ns \<and> list_all (\<lambda>n. rp_StartConcurrency (bl_Ramp b) \<le> n \<and> n \<le> bl_Concurrency b) ns
    \<and> (rp_Up (bl_Ramp b) \<le> int (length ts) * second \<longrightarrow> fin)
    \<and> (fin \<longrightarrow> sem_limit sem' = bl_Concurrency b)"
proof -
  have up: "0 < rp_Up (bl_Ramp b)" using assms(1) by (simp add: ramp_sized_def)
  have "ramp_ticks oor (bl_Ramp b) (bl_Concurrency b) start ts sem = (sem', ns, fin)"
    using assms(3) up by (simp add: runRampGovernor_def)
  note r = ramp_loop [OF assms(1,2) order_refl this]
  have z: "concurrencyAt oor (bl_Ramp b) (bl_Concurrency b) 0 = rp_StartConcurrency (bl_Ramp b)"
    using ramp_facts [OF assms(1) order_refl [of 0], of oor] by simp
  have "rp_Up (bl_Ramp b) \<le> int (length ts) * second \<longrightarrow> fin"
    using r up by (cases "ts = []") auto
  then show ?thesis using r z by simp
qed

text \<open>C15. The gate follows the schedule, in a zone of a fixed offset and for validated windows: whatever other sources do to the
  gate between the scheduler's operations, from its last operation until the wake-up it has set
  (for ever when it has returned) its source is paused exactly when the schedule is inactive.\<close>

theorem gate_follows_the_schedule:
  assumes "sd_Loc s = Some off" "windows_valid (sd_Windows s)" "zero_time \<le> now"
    and "list_all (\<lambda>w. case w of Some t \<Rightarrow> zero_time \<le> t | None \<Rightarrow> True) wakes"
  shows "\<exists>ops e. runScheduler fixed_In fixed_midnight s now wakes = Some (ops, e) \<and> ops \<noteq> []
    \<and> (\<forall>es t'. filter (\<lambda>x. sched_op (fst x)) es = ops \<and> in_force e (snd (last ops)) t' \<longrightarrow>
         (\<exists>g. gate_run newGate es = Some g
            \<and> g_paused g gateSchedule = (Active fixed_In s t' = Some False)))"
proof -
  obtain xs t on e where r: "runScheduler fixed_In fixed_midnight s now wakes =
      Some (xs @ [(if on then GResume gateSchedule else GPause gateSchedule, t)], e)"
    "list_all (\<lambda>x. sched_op (fst x)) xs"
    "\<forall>t'. in_force e t t' \<longrightarrow> Active fixed_In s t' = Some on"
    using scheduler_loop [OF assms] by blast
  let ?a = "if on then GResume gateSchedule else GPause gateSchedule"
  show ?thesis
  proof (rule exI, rule exI, intro conjI allI impI)
    show "runScheduler fixed_In fixed_midnight s now wakes = Some (xs @ [(?a, t)], e)" by (rule r(1))
    show "xs @ [(?a, t)] \<noteq> []" by simp
    fix es t'
    assume h: "filter (\<lambda>x. sched_op (fst x)) es = xs @ [(?a, t)] \<and> in_force e (snd (last (xs @ [(?a, t)]))) t'"
    obtain g where g: "gate_run newGate es = Some g"
      "g_paused g gateSchedule = src_paused gateSchedule (map fst es) (g_paused newGate gateSchedule)"
      using gate_run_ok [OF gate_inv_new, of es] by blast
    have "filter sched_op (map fst es) = map fst xs @ [?a]"
      using arg_cong [OF conjunct1 [OF h], of "map fst"] by (simp add: filter_map comp_def)
    then have "g_paused g gateSchedule = (\<not> on)"
      using g(2) src_paused_filter [of "map fst es"] by (cases on) (simp_all add: src_paused_last)
    moreover have "Active fixed_In s t' = Some on" using h r(3) by simp
    ultimately show "\<exists>g. gate_run newGate es = Some g
        \<and> g_paused g gateSchedule = (Active fixed_In s t' = Some False)"
      using g(1) by (cases on) simp_all
  qed
qed

text \<open>The statistics loop never panics and ends on the truth: after any ticks, the cancellation
  publishes the snapshot of all results recorded by then, and that is what the run's latest
  snapshot is.\<close>

theorem collector_loop_ends_with_the_final_snapshot:
  "\<exists>p. runStatsCollector oor
        (map (\<lambda>(rs, now, sat, takes). Tick (foldl Record (newCollector ids) rs) now sat takes) ticks
         @ [RunDone (foldl Record (newCollector ids) rs) now sat takes]) (newPublisher s0) = Some (p, True)
     \<and> Some (latest p) = snapshot oor (foldl Record (newCollector ids) rs) now sat"
proof -
  have snap: "\<exists>s. snapshot oor (foldl Record (newCollector ids) rs) now sat = Some s" for rs now sat
    unfolding foldl_Record by (simp add: snapshot_def Let_def collector_of_def list_all_iff)
  have pub: "\<exists>p'. publish takes p s = Some p' \<and> pub_inv p' \<and> latest p' = s" if "pub_inv p" for takes p s
    using pub_apply_inv [OF that, of "Publish s takes"] by (auto simp: publish_def latest_def)
  have ind: "pub_inv p0 \<Longrightarrow> \<exists>p. runStatsCollector oor
        (map (\<lambda>(rs, now, sat, takes). Tick (foldl Record (newCollector ids) rs) now sat takes) ticks
         @ [RunDone (foldl Record (newCollector ids) rs) now sat takes]) p0 = Some (p, True)
     \<and> Some (latest p) = snapshot oor (foldl Record (newCollector ids) rs) now sat" for p0
  proof (induction ticks arbitrary: p0)
    case Nil
    obtain s where "snapshot oor (foldl Record (newCollector ids) rs) now sat = Some s" using snap by blast
    then show ?case using pub [OF Nil, of takes s] by auto
  next
    case (Cons x ticks)
    obtain rs1 now1 sat1 takes1 where x: "x = (rs1, now1, sat1, takes1)" by (metis prod_cases4)
    obtain s where s: "snapshot oor (foldl Record (newCollector ids) rs1) now1 sat1 = Some s" using snap by blast
    obtain p1 where p1: "publish takes1 p0 s = Some p1" "pub_inv p1" using pub [OF Cons.prems] by blast
    show ?case using Cons.IH [OF p1(2)]
      unfolding x list.map prod.case append_Cons runStatsCollector.simps s Option.bind.simps p1(1) .
  qed
  show ?thesis by (rule ind [OF pub_inv_new])
qed

text \<open>The engine is built exactly when no dependency is missing, the error names the first missing
  one and is a configuration error, and the intervals of an engine are positive, so that neither
  the statistics nor the grace timer can spin.\<close>

definition missing_deps :: "EngineOptions \<Rightarrow> string list" where
  "missing_deps o1 = map fst (filter (\<lambda>(_, there). \<not> there)
     [(''Clock'', eo_Clock o1), (''Rand'', eo_Rand o1), (''Registry'', eo_Registry o1),
      (''SessionMaker'', eo_SessionMaker o1), (''Audit'', eo_Audit o1), (''AgentID'', eo_AgentID o1 \<noteq> '''')])"

theorem engine_needs_its_dependencies:
  "case engine_New o1 of
     Inl e \<Rightarrow> missing_deps o1 \<noteq> [] \<and> Classify (Some e) = ClassConfig
       \<and> e = pterr_New ClassConfig ''engine.options'' ''engine.New'' (hd (missing_deps o1) @ '' is required'')
   | Inr eng \<Rightarrow> missing_deps o1 = [] \<and> eo_Logger eng \<and> 0 < eo_StatsInterval eng \<and> 0 < eo_GraceTimeout eng
       \<and> eo_MaxRetries eng = eo_MaxRetries o1 \<and> eo_AgentID eng = eo_AgentID o1"
  by (simp add: engine_New_def missing_deps_def engineOptions_def defaultStatsInterval_def
      defaultGraceTimeout_def time_units Let_def)

section \<open>Examples\<close>

definition demo_engine :: EngineOptions where
  "demo_engine = \<lparr>eo_Clock = True, eo_Rand = True, eo_Registry = True, eo_SessionMaker = True, eo_Logger = True,
     eo_Audit = True, eo_AgentID = ''agent'', eo_StatsInterval = second, eo_GraceTimeout = second,
     eo_MaxRetries = 2, eo_BackoffBase = second, eo_BackoffMax = minute\<rparr>"

definition demo_sources :: "unit sources" where
  "demo_sources = \<lparr>sr_clk = \<lambda>_. 0, sr_ent = \<lambda>_. zeros, sr_rand = ()\<rparr>"

text \<open>One block of four virtual users.\<close>

theorem start_builds_the_run_witness:
  "\<exists>sc run so' i n. Validate demo_lib demo_builtins (\<lambda>s. s) (\<lambda>_. '''') demo_raw demo_opts = Inr sc
     \<and> Start (\<lambda>x. x) (\<lambda>_. 0) tireless (\<lambda>_. OtherError ''id'' []) demo_engine sc demo_sources = Some (Inr run, so')
     \<and> (\<Sum>k\<leftarrow>ru_blocks run. length (bk_vusers k)) = 4 \<and> lifecycle_view run = lc_start i n 1"
proof -
  let ?sc = "scenario_value demo_lib demo_builtins (\<lambda>s. s) demo_raw demo_opts"
  have v: "Validate demo_lib demo_builtins (\<lambda>s. s) (\<lambda>_. '''') demo_raw demo_opts = Inr ?sc"
    unfolding Validate_Inr sections_nil using demo_file_ok by simp
  have weights: "\<forall>rb \<in> set (raw_Scenarios demo_raw). 0 \<le> rb_Weight rb"
    by (simp add: demo_raw_def demo_block_def)
  have agents: "in_i64 (op_AgentCount demo_opts)" by (simp add: demo_opts_def in_i64_numeral)
  obtain i where i: "token zeros tokenBytes = Inr i" by (simp add: token_def zeros_def tokenBytes_def)
  then have c: "CorrelationID (sr_ent demo_sources 0) = Inr i" by (simp add: CorrelationID_def demo_sources_def)
  have g: "granted (\<lambda>k. sr_ent demo_sources (Suc k)) n = n" for n
    using i by (simp add: granted_def new_SessionID_def demo_sources_def)
  have a: "eo_Audit demo_engine" by (simp add: demo_engine_def)
  have b: "(\<Sum>b\<leftarrow>sc_Blocks ?sc. nat (bl_Concurrency b)) = 4" "length (sc_Blocks ?sc) = 1"
    by (simp_all add: scenario_value_def demo_raw_def block_value_def demo_block_def block_concurrency_def Let_def)
  show ?thesis
    using start_builds_the_run [OF v demo_builtins_def weights agents tireless_total c a,
        of "\<lambda>x. x" "\<lambda>_. 0" "\<lambda>_. OtherError ''id'' []"] v b
    unfolding g by (auto simp: Let_def)
qed

theorem block_timer_counts_open_time_witness:
  "runBlockDuration (10 * second) 0
     (map open_span [(0, 4 * second), (100 * second, 103 * second), (200 * second, 209 * second)])
     = (BdFinished, 10 * second)"
  using block_timer_counts_open_time [of "[(0, 4 * second), (100 * second, 103 * second), (200 * second, 209 * second)]"
      "10 * second"]
  by (simp add: time_units open_time_def int64_max_def)

theorem ramp_governor_terminates_witness:
  "\<exists>sem ns. runRampGovernor (\<lambda>_. 0) (block_value (demo_block\<lparr>rb_Ramp := Some \<lparr>rr_UpSeconds = 3, rr_StartConcurrency = 1\<rparr>\<rparr>) (\<lambda>_. None :: unit Persona option))
      0 [second, 2 * second, 3 * second] (newSemaphore 1) = (sem, ns, True)
      \<and> sem_limit sem = 4 \<and> sorted ns"
proof -
  let ?b = "block_value (demo_block\<lparr>rb_Ramp := Some \<lparr>rr_UpSeconds = 3, rr_StartConcurrency = 1\<rparr>\<rparr>) (\<lambda>_. None :: unit Persona option)"
    and ?ts = "[second, 2 * second, 3 * second]"
  have b: "bl_Ramp ?b = \<lparr>rp_Up = 3 * second, rp_StartConcurrency = 1\<rparr>" "bl_Concurrency ?b = 4"
    by (simp_all add: block_value_def demo_block_def ramp_value_def block_concurrency_def time_units i64_def)
  have z: "ramp_sized (bl_Ramp ?b) (bl_Concurrency ?b)" by (simp add: b ramp_sized_def time_units)
  have s: "spaced 0 ?ts" by (simp add: time_units)
  obtain sem ns fin where r: "runRampGovernor (\<lambda>_. 0) ?b 0 ?ts (newSemaphore 1) = (sem, ns, fin)"
    by (metis prod_cases3)
  have "sorted ns \<and> fin \<and> sem_limit sem = 4"
    using ramp_governor_terminates [OF z s r] by (simp add: b)
  then have "fin = True" "sem_limit sem = 4" "sorted ns" by simp_all
  then show ?thesis using r by (intro exI conjI) simp_all
qed

theorem gate_follows_the_schedule_witness:
  "\<exists>g. runScheduler fixed_In fixed_midnight office_hours (9 * hour) []
        = Some ([(GResume gateSchedule, 9 * hour)], SdSleeping (10 * hour))
     \<and> gate_run newGate [(GPause gateOperator, 8 * hour), (GResume gateSchedule, 9 * hour)] = Some g
     \<and> \<not> g_paused g gateSchedule"
proof -
  have a: "NextTransition fixed_In fixed_midnight office_hours (9 * hour) = Some (10 * hour)"
    "Active fixed_In office_hours (9 * hour) = Some True"
    by code_simp+
  then have n: "sched_turn fixed_In office_hours (9 * hour) = Some (GResume gateSchedule, 9 * hour)"
    by (simp add: sched_turn_def)
  have z: "10 * hour \<noteq> zero_time" "zero_time \<le> 9 * hour" "windows_valid (sd_Windows office_hours)" "sd_Loc office_hours = Some 0"
    "list_all (\<lambda>w. case w of Some t \<Rightarrow> zero_time \<le> t | None \<Rightarrow> True) []"
    by (simp_all add: zero_time_def time_units windows_valid_def office_hours_def day_ns_def)
  have r: "runScheduler fixed_In fixed_midnight office_hours (9 * hour) []
      = Some ([(GResume gateSchedule, 9 * hour)], SdSleeping (10 * hour))"
    unfolding runScheduler_turn [OF n a(1)] if_not_P [OF z(1)]
    by (simp add: time_add_def time_sub_def sat64_def time_units int64_min_def int64_max_def)
  have f: "filter (\<lambda>x. sched_op (fst x)) [(GPause gateOperator, 8 * hour), (GResume gateSchedule, 9 * hour)]
      = [(GResume gateSchedule, 9 * hour)]"
    by (simp add: sched_op_def)
  have "in_force (SdSleeping (10 * hour)) (9 * hour) (9 * hour)" by (simp add: in_force_def time_units)
  note inf = this
  obtain ops e where o1: "runScheduler fixed_In fixed_midnight office_hours (9 * hour) [] = Some (ops, e)"
    and o2: "\<forall>es t'. filter (\<lambda>x. sched_op (fst x)) es = ops \<and> in_force e (snd (last ops)) t' \<longrightarrow>
         (\<exists>g. gate_run newGate es = Some g
            \<and> g_paused g gateSchedule = (Active fixed_In office_hours t' = Some False))"
    using gate_follows_the_schedule [OF z(4,3,2,5)] by blast
  have oe: "ops = [(GResume gateSchedule, 9 * hour)]" "e = SdSleeping (10 * hour)" using o1 r by simp_all
  have "in_force e (snd (last ops)) (9 * hour)" using inf by (simp add: oe)
  with f oe(1) have "\<exists>g. gate_run newGate [(GPause gateOperator, 8 * hour), (GResume gateSchedule, 9 * hour)] = Some g
      \<and> g_paused g gateSchedule = (Active fixed_In office_hours (9 * hour) = Some False)"
    using o2 by blast
  then show ?thesis using r unfolding a(2) by simp
qed

end
