(* ===== verification/Cli.thy ===== *)
theory Cli
  imports Supervisor
begin

text \<open>
  The command line (\<open>cmd/phantom\<close>): the dispatch (\<open>main.go\<close>), \<open>phantom validate\<close>
  (\<open>validate.go\<close>) and \<open>phantom run\<close> (\<open>run.go\<close>), on top of the \<open>flag\<close> package of the standard
  library, whose parsing loop and value parsers are written out.

  What a command writes is a list of events, each a text on a stream or a report handed to the JSON
  encoder; the messages of the \<open>flag\<close> package itself are one event. The file system and the YAML
  decoder are parameters, and so is how a run goes on once it is started: the events of its life cycle
  (theory \<open>Lifecycle\<close>), what ends the wait for it and its last snapshot.
\<close>

section \<open>Flags\<close>

text \<open>\<open>strconv.ParseBool\<close>, and \<open>strconv.ParseInt\<close> with base 0 on 64 bits, its errors not told
  apart.\<close>

definition ParseBool :: "string \<Rightarrow> bool option" where
  "ParseBool s =
     (if s \<in> {''1'', ''t'', ''T'', ''true'', ''TRUE'', ''True''} then Some True
      else if s \<in> {''0'', ''f'', ''F'', ''false'', ''FALSE'', ''False''} then Some False
      else None)"

definition base_digit :: "char \<Rightarrow> int option" where
  "base_digit c =
     (let n = int (of_char c) in
      if 48 \<le> n \<and> n \<le> 57 then Some (n - 48)
      else if 97 \<le> n \<and> n \<le> 122 then Some (n - 87)
      else if 65 \<le> n \<and> n \<le> 90 then Some (n - 55)
      else None)"

fun uint_digits :: "int \<Rightarrow> int \<Rightarrow> string \<Rightarrow> int option" where
  "uint_digits base n [] = Some n"
| "uint_digits base n (c # cs) =
     (if c = CHR ''_'' then uint_digits base n cs
      else case base_digit c of
             None \<Rightarrow> None
           | Some d \<Rightarrow> if d \<ge> base then None else uint_digits base (n * base + d) cs)"

text \<open>\<open>underscoreOK\<close> after its prefix: \<open>saw\<close> is the class of the last character.\<close>

datatype saw = SawStart | SawDigit | SawUnder | SawOther

fun underscores :: "bool \<Rightarrow> saw \<Rightarrow> string \<Rightarrow> bool" where
  "underscores isHex sw [] = (sw \<noteq> SawUnder)"
| "underscores isHex sw (c # cs) =
     (if is_digit c \<or> isHex \<and> (case base_digit c of Some d \<Rightarrow> 10 \<le> d \<and> d \<le> 15 | None \<Rightarrow> False)
      then underscores isHex SawDigit cs
      else if c = CHR ''_'' then sw = SawDigit \<and> underscores isHex SawUnder cs
      else sw \<noteq> SawUnder \<and> underscores isHex SawOther cs)"

definition prefix_base :: "string \<Rightarrow> int option" where
  "prefix_base s =
     (if length s \<ge> 2 \<and> s ! 0 = CHR ''0''
      then if s ! 1 \<in> {CHR ''b'', CHR ''B''} then Some 2
           else if s ! 1 \<in> {CHR ''o'', CHR ''O''} then Some 8
           else if s ! 1 \<in> {CHR ''x'', CHR ''X''} then Some 16 else None
      else None)"

definition underscoreOK :: "string \<Rightarrow> bool" where
  "underscoreOK s0 =
     (let s = (if HasPrefix s0 ''-'' \<or> HasPrefix s0 ''+'' then tl s0 else s0)
      in case prefix_base s of
           Some b \<Rightarrow> underscores (b = 16) SawDigit (drop 2 s)
         | None \<Rightarrow> underscores False SawStart s)"

definition ParseUint0 :: "string \<Rightarrow> int option" where
  "ParseUint0 s =
     (if s = [] then None
      else let (base, ds) = (if hd s = CHR ''0''
             then (case (if length s \<ge> 3 then prefix_base s else None) of
                     Some b \<Rightarrow> (b, drop 2 s) | None \<Rightarrow> (8, tl s))
             else (10, s))
           in case uint_digits base 0 ds of
                None \<Rightarrow> None
              | Some n \<Rightarrow> if n \<ge> 2 ^ 64 then None
                          else if CHR ''_'' \<in> set ds \<and> \<not> underscoreOK s then None else Some n)"

definition ParseInt0 :: "string \<Rightarrow> int option" where
  "ParseInt0 s0 =
     (let neg = HasPrefix s0 ''-'';
          s = (if neg \<or> HasPrefix s0 ''+'' then tl s0 else s0)
      in case ParseUint0 s of
           None \<Rightarrow> None
         | Some n \<Rightarrow> if \<not> neg \<and> n \<ge> 2 ^ 63 then None
                     else if neg \<and> n > 2 ^ 63 then None
                     else Some (if neg then - n else n))"

record flag_vals =
  fv_allowInsecure :: bool
  fv_capOverride :: bool
  fv_agentCount :: int
  fv_asJSON :: bool
  fv_duration :: duration

definition flag_defaults :: flag_vals where
  "flag_defaults = \<lparr>fv_allowInsecure = False, fv_capOverride = False, fv_agentCount = 1, fv_asJSON = False,
     fv_duration = 0\<rparr>"

datatype flag_error = BadSyntax string | NotDefined string | HelpRequested | BadValue string string
  | NeedsArgument string

definition dos_flag :: string where "dos_flag = ''i-understand-this-can-dos-targets''"
definition bool_flags :: "string list" where "bool_flags = [''allow-insecure'', dos_flag, ''json'']"
definition validate_flags :: "string list" where "validate_flags = bool_flags @ [''agent-count'']"
definition run_flags :: "string list" where "run_flags = validate_flags @ [''duration'']"

definition set_flag :: "(f64 \<Rightarrow> int) \<Rightarrow> string \<Rightarrow> string \<Rightarrow> flag_vals \<Rightarrow> flag_vals option" where
  "set_flag oor name v fv =
     (if name = ''allow-insecure'' then map_option (\<lambda>b. fv\<lparr>fv_allowInsecure := b\<rparr>) (ParseBool v)
      else if name = dos_flag then map_option (\<lambda>b. fv\<lparr>fv_capOverride := b\<rparr>) (ParseBool v)
      else if name = ''json'' then map_option (\<lambda>b. fv\<lparr>fv_asJSON := b\<rparr>) (ParseBool v)
      else if name = ''agent-count'' then map_option (\<lambda>n. fv\<lparr>fv_agentCount := n\<rparr>) (ParseInt0 v)
      else case ParseDuration oor v of Inl _ \<Rightarrow> None | Inr d \<Rightarrow> Some (fv\<lparr>fv_duration := d\<rparr>))"

text \<open>The name in an argument, after one or two minus signs, and the value after its first equals
  sign that is not at its start.\<close>

definition split_flag :: "string \<Rightarrow> string \<times> string option" where
  "split_flag name =
     (let n = hd name # takeWhile (\<lambda>c. c \<noteq> CHR ''='') (tl name)
      in if length n < length name then (n, Some (drop (length n + 1) name)) else (name, None))"

text \<open>\<open>parseOne\<close>: the values, the arguments that are left and whether it saw a flag.\<close>

definition parseOne ::
  "(f64 \<Rightarrow> int) \<Rightarrow> string list \<Rightarrow> string list \<Rightarrow> flag_vals \<Rightarrow> flag_error + flag_vals \<times> string list \<times> bool" where
  "parseOne oor formal args0 fv =
     (case args0 of [] \<Rightarrow> Inr (fv, [], False)
      | s # args \<Rightarrow>
        if length s < 2 \<or> hd s \<noteq> CHR ''-'' then Inr (fv, s # args, False)
        else if s = ''--'' then Inr (fv, args, False)
        else let name0 = drop (if s ! 1 = CHR ''-'' then 2 else 1) s
             in if hd name0 = CHR ''-'' \<or> hd name0 = CHR ''='' then Inl (BadSyntax s)
                else case split_flag name0 of (name, v) \<Rightarrow>
                  if name \<notin> set formal
                  then Inl (if name = ''help'' \<or> name = ''h'' then HelpRequested else NotDefined name)
                  else let (v1, args1) = (if name \<in> set bool_flags
                         then (Some (case v of None \<Rightarrow> ''true'' | Some x \<Rightarrow> x), args)
                         else case v of
                                Some x \<Rightarrow> (Some x, args)
                              | None \<Rightarrow> (case args of [] \<Rightarrow> (None, []) | x # args' \<Rightarrow> (Some x, args')))
                       in case v1 of
                            None \<Rightarrow> Inl (NeedsArgument name)
                          | Some x \<Rightarrow>
                              (case set_flag oor name x fv of
                                 None \<Rightarrow> Inl (BadValue name x)
                               | Some fv' \<Rightarrow> Inr (fv', args1, True)))"

lemma parseOne_shorter: "parseOne oor formal args fv = Inr (fv', args', True) \<Longrightarrow> length args' < length args"
  by (auto simp: parseOne_def Let_def split: list.splits if_splits prod.splits option.splits)

text \<open>\<open>FlagSet.Parse\<close>: the values and the arguments that are left.\<close>

function parse_flags ::
  "(f64 \<Rightarrow> int) \<Rightarrow> string list \<Rightarrow> string list \<Rightarrow> flag_vals \<Rightarrow> flag_error + flag_vals \<times> string list" where
  "parse_flags oor formal args fv =
     (case parseOne oor formal args fv of
        Inl e \<Rightarrow> Inl e
      | Inr (fv', args', seen) \<Rightarrow> if seen then parse_flags oor formal args' fv' else Inr (fv', args'))"
  by pat_completeness auto

termination parse_flags
  by (relation "measure (\<lambda>(oor, formal, args, fv). length args)") (auto dest: parseOne_shorter)

declare parse_flags.simps [simp del]

definition flag_Arg :: "string list \<Rightarrow> nat \<Rightarrow> string" where
  "flag_Arg rest i = (if i < length rest then rest ! i else '''')"

section \<open>What the commands write\<close>

record fieldReport =
  rp_Field :: string
  rp_Message :: string
  rp_Class :: string

record summaryReport =
  su_Name :: string
  su_Scenarios :: int
  su_Targets :: int

record validateReport =
  vr_Valid :: bool
  vr_Errors :: "fieldReport list"
  vr_Summary :: "summaryReport option"

record runReport =
  rr_RunID :: string
  rr_State :: string
  rr_Requests :: int
  rr_Successes :: int
  rr_Failures :: int
  rr_Panics :: int

text \<open>\<open>FlagOutput\<close> is the message of the \<open>flag\<close> package with the usage of the command,
  \<open>CmdUsage\<close> that usage alone.\<close>

datatype cli_event = OutText string | ErrText string | FlagOutput flag_error | CmdUsage string
  | OutReport validateReport | OutRunReport runReport

definition nl :: string where "nl = [CHR 0x0A]"
definition check_mark :: string where "check_mark = [CHR 0xE2, CHR 0x9C, CHR 0x93]"
definition cross_mark :: string where "cross_mark = [CHR 0xE2, CHR 0x9C, CHR 0x97]"
definition play_mark :: string where "play_mark = [CHR 0xE2, CHR 0x96, CHR 0xB6]"
definition em_dash :: string where "em_dash = [CHR 0xE2, CHR 0x80, CHR 0x94]"

definition usage_text :: string where
  "usage_text =
     ''Usage: phantom <command> [flags] [args]'' @ nl @ nl @ ''Commands:'' @ nl
     @ ''  validate <file> [flags]   Statically validate a scenario file.'' @ nl
     @ ''  run <file> [flags]        Load, validate, and execute a phantom-traffic run.'' @ nl
     @ ''  help                      Show this help.'' @ nl @ nl
     @ ''Run \"phantom <command> -h\" for per-command flags.'' @ nl"

record cli_env =
  ce_stat :: "string \<Rightarrow> goerr + int"
  ce_open :: "string \<Rightarrow> goerr option"
  ce_decode :: "string \<Rightarrow> goerr + RawPersona Raw"
  ce_notExist :: "goerr \<Rightarrow> bool"
  ce_errText :: "goerr \<Rightarrow> string"

text \<open>The validator with its parameters, as the commands call it.\<close>

record 'loc validator =
  va_lib :: "'loc PLib"
  va_builtins :: "string + (string \<rightharpoonup> 'loc Persona)"
  va_uni :: "string \<Rightarrow> string"
  va_capText :: "cap_msg \<Rightarrow> string"

definition validate_with ::
  "'loc validator \<Rightarrow> RawPersona Raw \<Rightarrow> Options \<Rightarrow> FieldError list + ('loc Persona, 'loc) Scenario" where
  "validate_with V raw opts = Validate (va_lib V) (va_builtins V) (va_uni V) (va_capText V) raw opts"

definition load_file :: "cli_env \<Rightarrow> string \<Rightarrow> goerr + RawPersona Raw" where
  "load_file E file = Load (ce_stat E file) (ce_open E file) (ce_decode E file)"

definition flag_options :: "flag_vals \<Rightarrow> Options" where
  "flag_options fv = \<lparr>op_AllowInsecure = fv_allowInsecure fv, op_CapOverride = fv_capOverride fv,
     op_AgentCount = fv_agentCount fv\<rparr>"

section \<open>phantom validate\<close>

definition countTargets :: "TargetSet \<Rightarrow> int" where
  "countTargets ts = foldl (\<lambda>total p. total + int (length (TargetsFor ts p))) 0 KnownProtocols"

definition renderSuccess :: "string \<Rightarrow> ('p, 'loc) Scenario \<Rightarrow> bool \<Rightarrow> cli_event list \<times> int" where
  "renderSuccess file scn asJSON =
     (let nScenarios = int (length (sc_Blocks scn)); nTargets = countTargets (sc_Targets scn)
      in if asJSON
         then ([OutReport \<lparr>vr_Valid = True, vr_Errors = [],
                  vr_Summary = Some \<lparr>su_Name = sc_Name scn, su_Scenarios = nScenarios, su_Targets = nTargets\<rparr>\<rparr>], 0)
         else ([OutText (check_mark @ '' '' @ file @ '': valid '' @ em_dash @ '' '' @ Itoa nScenarios
                  @ '' scenarios, '' @ Itoa nTargets @ '' targets'' @ nl)], 0))"

definition error_lines :: "string \<Rightarrow> FieldError list \<Rightarrow> cli_event list" where
  "error_lines file verrs =
     map (\<lambda>fe. ErrText (''  '' @ fe_Field fe @ '': '' @ fe_Msg fe @ nl)) verrs
     @ [ErrText (cross_mark @ '' '' @ file @ '': invalid ('' @ Itoa (int (length verrs)) @ '' errors)'' @ nl)]"

definition renderValidationErrors :: "string \<Rightarrow> FieldError list \<Rightarrow> bool \<Rightarrow> cli_event list \<times> int" where
  "renderValidationErrors file verrs asJSON =
     (if asJSON
      then ([OutReport \<lparr>vr_Valid = False,
               vr_Errors = map (\<lambda>fe. \<lparr>rp_Field = fe_Field fe, rp_Message = fe_Msg fe,
                                       rp_Class = Class_String (FieldError_Class fe)\<rparr>) verrs,
               vr_Summary = None\<rparr>], 1)
      else (error_lines file verrs, 1))"

definition renderDecodeError :: "cli_env \<Rightarrow> string \<Rightarrow> goerr \<Rightarrow> bool \<Rightarrow> cli_event list \<times> int" where
  "renderDecodeError E file err asJSON =
     (if asJSON
      then ([OutReport \<lparr>vr_Valid = False,
               vr_Errors = [\<lparr>rp_Field = ''<file>'', rp_Message = ce_errText E err, rp_Class = ''config''\<rparr>],
               vr_Summary = None\<rparr>], 1)
      else ([ErrText (''  '' @ file @ '': '' @ ce_errText E err @ nl),
             ErrText (cross_mark @ '' '' @ file @ '': invalid (1 errors)'' @ nl)], 1))"

definition runValidate :: "(f64 \<Rightarrow> int) \<Rightarrow> cli_env \<Rightarrow> 'loc validator \<Rightarrow> string list \<Rightarrow> cli_event list \<times> int" where
  "runValidate oor E V args =
     (case parse_flags oor validate_flags args flag_defaults of
        Inl e \<Rightarrow> ([FlagOutput e], 2)
      | Inr (fv, rest) \<Rightarrow>
          (let file = flag_Arg rest 0
           in if file = ''''
              then ([ErrText (''phantom validate: missing <file> argument'' @ nl), CmdUsage ''validate''], 2)
              else if fv_agentCount fv < 1
              then ([ErrText (''phantom validate: --agent-count must be >= 1, got '' @ Itoa (fv_agentCount fv) @ nl)], 2)
              else case load_file E file of
                Inl err \<Rightarrow>
                  if ce_notExist E err
                  then ([ErrText (''phantom validate: file not found: '' @ file @ nl)], 2)
                  else renderDecodeError E file err (fv_asJSON fv)
              | Inr raw \<Rightarrow>
                  (case validate_with V raw (flag_options fv) of
                     Inl verrs \<Rightarrow> renderValidationErrors file verrs (fv_asJSON fv)
                   | Inr scn \<Rightarrow> renderSuccess file scn (fv_asJSON fv))))"

section \<open>phantom run\<close>

definition loadValidatedScenario ::
  "cli_env \<Rightarrow> 'loc validator \<Rightarrow> string \<Rightarrow> Options
     \<Rightarrow> cli_event list \<times> (('loc Persona, 'loc) Scenario option \<times> int)" where
  "loadValidatedScenario E V file opts =
     (case load_file E file of
        Inl err \<Rightarrow>
          if ce_notExist E err
          then ([ErrText (''phantom run: file not found: '' @ file @ nl)], None, 2)
          else ([ErrText (''phantom run: load '' @ file @ '': '' @ ce_errText E err @ nl)], None, 2)
      | Inr raw \<Rightarrow>
          (case validate_with V raw opts of
             Inl verrs \<Rightarrow> (error_lines file verrs, None, 1)
           | Inr scn \<Rightarrow> ([], Some scn, 0)))"

text \<open>\<open>awaitRun\<close>: what ends its wait, and the calls it then makes on the run, whose errors it drops.\<close>

datatype await_end = RunOver | LimitReached | Signalled

fun awaitRun :: "await_end \<Rightarrow> lc_event list" where
  "awaitRun RunOver = []"
| "awaitRun LimitReached = [Invoke Stop]"
| "awaitRun Signalled = [Invoke Stop]"

definition writeRunReport :: "string \<Rightarrow> State \<Rightarrow> StatsSnapshot \<Rightarrow> cli_event" where
  "writeRunReport i st snap =
     OutRunReport \<lparr>rr_RunID = i, rr_State = State_String st, rr_Requests = ss_Requests snap,
       rr_Successes = ss_Successes snap, rr_Failures = ss_Failures snap, rr_Panics = ss_Panics snap\<rparr>"

definition run_summary :: "string \<Rightarrow> State \<Rightarrow> StatsSnapshot \<Rightarrow> cli_event" where
  "run_summary i st snap =
     OutText (check_mark @ '' run '' @ i @ '' '' @ State_String st @ '': '' @ Itoa (ss_Requests snap) @ '' requests (''
       @ Itoa (ss_Successes snap) @ '' ok, '' @ Itoa (ss_Failures snap) @ '' failed, ''
       @ Itoa (ss_Panics snap) @ '' panics)'' @ nl)"

text \<open>The part of \<open>runRun\<close> before the engine: the flags and the scenario, or what it wrote and its
  exit code.\<close>

definition run_prepare ::
  "(f64 \<Rightarrow> int) \<Rightarrow> cli_env \<Rightarrow> 'loc validator \<Rightarrow> string list
     \<Rightarrow> (cli_event list \<times> int) + (flag_vals \<times> ('loc Persona, 'loc) Scenario)" where
  "run_prepare oor E V args =
     (case parse_flags oor run_flags args flag_defaults of
        Inl e \<Rightarrow> Inl ([FlagOutput e], 2)
      | Inr (fv, rest) \<Rightarrow>
          (let file = flag_Arg rest 0
           in if file = ''''
              then Inl ([ErrText (''phantom run: missing <file> argument'' @ nl), CmdUsage ''run''], 2)
              else if fv_agentCount fv < 1
              then Inl ([ErrText (''phantom run: --agent-count must be >= 1, got '' @ Itoa (fv_agentCount fv) @ nl)], 2)
              else case loadValidatedScenario E V file (flag_options fv) of
                (out, None, code) \<Rightarrow> Inl (out, code)
              | (out, Some scn, code) \<Rightarrow> Inr (fv, scn)))"

definition cli_engine :: "string \<Rightarrow> EngineOptions" where
  "cli_engine agentID = \<lparr>eo_Clock = True, eo_Rand = True, eo_Registry = True, eo_SessionMaker = True, eo_Logger = True,
     eo_Audit = True, eo_AgentID = agentID, eo_StatsInterval = 0, eo_GraceTimeout = 0, eo_MaxRetries = 0,
     eo_BackoffBase = 0, eo_BackoffMax = 0\<rparr>"

text \<open>How a started run goes on: the events of its life cycle before the wait ends, what ends the
  wait, the events after that up to the moment \<open>awaitRun\<close> returns, and the snapshot then taken.\<close>

record fate =
  ft_before :: "lc_event list"
  ft_end :: await_end
  ft_after :: "lc_event list"
  ft_snap :: StatsSnapshot

text \<open>The life cycle when \<open>awaitRun\<close> returns: the run was done, or its call of \<open>Stop\<close> has returned.
  None: it has not returned on these events.\<close>

definition awaited :: "lc_sys \<Rightarrow> fate \<Rightarrow> lc_sys option" where
  "awaited y0 f =
     do { y1 \<leftarrow> lc_exec y0 (ft_before f);
          y2 \<leftarrow> lc_exec y1 (awaitRun (ft_end f) @ ft_after f);
          (case awaitRun (ft_end f) of
             [] \<Rightarrow> if lc_done y1 then Some y2 else None
           | _ \<Rightarrow> (case lc_pcs y2 ! length (lc_pcs y1) of Returned _ \<Rightarrow> Some y2 | _ \<Rightarrow> None)) }"

text \<open>None is a panic, or a wait that has not ended.\<close>

definition runRun ::
  "(f64 \<Rightarrow> f64) \<Rightarrow> (f64 \<Rightarrow> int) \<Rightarrow> 'r Rand \<Rightarrow> (id_error \<Rightarrow> goerr) \<Rightarrow> cli_env \<Rightarrow> 'loc validator
     \<Rightarrow> (('r, 'loc) Run \<Rightarrow> fate) \<Rightarrow> 'r sources \<Rightarrow> string list \<Rightarrow> (cli_event list \<times> int) option" where
  "runRun expf oor R idErr E V fate_of so args =
     (case run_prepare oor E V args of
        Inl r \<Rightarrow> Some r
      | Inr (fv, scn) \<Rightarrow>
          (case next_id CorrelationID so of
             (Inl e, so1) \<Rightarrow>
               Some ([ErrText (''phantom run: generate agent id: '' @ ce_errText E (idErr e) @ nl)], 1)
           | (Inr agentID, so1) \<Rightarrow>
               (case Register noop_ID NewRegistry (Some \<lparr>nh_Latency = 0, nh_Fail = False, nh_Panic = False\<rparr>) of
                  (_, Some err) \<Rightarrow> Some ([ErrText (''phantom run: register handler: '' @ ce_errText E err @ nl)], 1)
                | (reg, None) \<Rightarrow>
                    (case engine_New (cli_engine agentID) of
                       Inl err \<Rightarrow> Some ([ErrText (''phantom run: build engine: '' @ ce_errText E err @ nl)], 1)
                     | Inr eng \<Rightarrow>
                         do { (started, so2) \<leftarrow> Start expf oor R idErr eng scn so1;
                              (case started of
                                 Inl err \<Rightarrow> Some ([ErrText (''phantom run: start: '' @ ce_errText E err @ nl)], 1)
                               | Inr run \<Rightarrow>
                                   do { let hello = (if fv_asJSON fv then []
                                          else [OutText (play_mark @ '' run '' @ run_ID run @ '' started'' @ nl)]);
                                        y \<leftarrow> awaited (lifecycle_view run) (fate_of run);
                                        Some (case lc_err y of
                                          Some err \<Rightarrow> (hello @ [ErrText (''phantom run: '' @ ce_errText E err @ nl)], 1)
                                        | None \<Rightarrow>
                                            (hello @ [if fv_asJSON fv
                                               then writeRunReport (run_ID run) (rn_state (lc_run y)) (ft_snap (fate_of run))
                                               else run_summary (run_ID run) (rn_state (lc_run y)) (ft_snap (fate_of run))], 0)) }) }))))"

definition dispatch ::
  "(string \<Rightarrow> string) \<Rightarrow> (string list \<Rightarrow> cli_event list \<times> int) \<Rightarrow> (string list \<Rightarrow> (cli_event list \<times> int) option)
     \<Rightarrow> string list \<Rightarrow> (cli_event list \<times> int) option" where
  "dispatch quote validate_cmd run_cmd args =
     (case args of
        [] \<Rightarrow> Some ([OutText usage_text], 0)
      | a # rest \<Rightarrow>
          if a \<in> {'''', ''help'', ''-h'', ''--help''} then Some ([OutText usage_text], 0)
          else if a = ''validate'' then Some (validate_cmd rest)
          else if a = ''run'' then run_cmd rest
          else Some ([ErrText (''phantom: unknown subcommand '' @ quote a @ nl), ErrText usage_text], 2))"

section \<open>What decides an exit code\<close>

text \<open>The flags and the file of a usable command line.\<close>

definition usable :: "(f64 \<Rightarrow> int) \<Rightarrow> string list \<Rightarrow> string list \<Rightarrow> (flag_vals \<times> string) option" where
  "usable oor formal args =
     (case parse_flags oor formal args flag_defaults of
        Inl _ \<Rightarrow> None
      | Inr (fv, rest) \<Rightarrow>
          if flag_Arg rest 0 = '''' \<or> fv_agentCount fv < 1 then None else Some (fv, flag_Arg rest 0))"

definition acceptable :: "'loc validator \<Rightarrow> RawPersona Raw \<Rightarrow> Options \<Rightarrow> bool" where
  "acceptable V raw opts \<longleftrightarrow> file_ok (va_lib V) (va_builtins V) (va_uni V) raw opts"

lemma validate_with_cases:
  "validate_with V raw opts = Inr scn \<longleftrightarrow>
     acceptable V raw opts \<and> scn = scenario_value (va_lib V) (va_builtins V) (va_uni V) raw opts"
  unfolding validate_with_def Validate_Inr sections_nil acceptable_def ..

lemma validate_with_error: "isl (validate_with V raw opts) \<longleftrightarrow> \<not> acceptable V raw opts"
  using validate_with_cases [of V raw opts] by (cases "validate_with V raw opts") auto

lemma name_gate:
  "(if a then p else if b then q else if c then Inl r else if n \<notin> F then Inl e else k) = Inr x \<Longrightarrow> F \<subseteq> F' \<Longrightarrow>
   (if a then p else if b then q else if c then Inl r else if n \<notin> F' then Inl e else k) = Inr x"
  by (auto split: if_splits)

lemma parseOne_more:
  assumes "set formal \<subseteq> set formal'" "parseOne oor formal args fv = Inr x"
  shows "parseOne oor formal' args fv = Inr x"
proof (cases args)
  case Nil
  then show ?thesis using assms(2) by (simp add: parseOne_def)
next
  case (Cons s rest)
  obtain name v where sp: "split_flag (drop (if s ! 1 = CHR ''-'' then 2 else 1) s) = (name, v)"
    by (metis surj_pair)
  show ?thesis using assms(2) unfolding parseOne_def Cons list.case Let_def sp prod.case
    by (rule name_gate [OF _ assms(1)])
qed

lemma parse_more_flags:
  assumes "set formal \<subseteq> set formal'" "parse_flags oor formal args fv = Inr r"
  shows "parse_flags oor formal' args fv = Inr r"
  using assms
proof (induction oor formal args fv rule: parse_flags.induct)
  case (1 oor formal args fv)
  show ?case
  proof (cases "parseOne oor formal args fv")
    case (Inr x)
    obtain fv1 args1 b where x: "x = (fv1, args1, b)" by (metis prod_cases3)
    show ?thesis
      using 1 Inr x parse_flags.simps [of oor formal args fv] parse_flags.simps [of oor formal' args fv]
        parseOne_more [OF 1(2) Inr]
      by (cases b) simp_all
  qed (use 1 in \<open>simp add: parse_flags.simps [of oor formal args fv]\<close>)
qed

lemma usable_more:
  assumes "usable oor validate_flags args = Some x" shows "usable oor run_flags args = Some x"
proof -
  obtain fv rest where p: "parse_flags oor validate_flags args flag_defaults = Inr (fv, rest)"
    using assms by (cases "parse_flags oor validate_flags args flag_defaults") (auto simp: usable_def)
  have "parse_flags oor run_flags args flag_defaults = Inr (fv, rest)"
    by (rule parse_more_flags [OF _ p]) (auto simp: run_flags_def)
  with p assms show ?thesis by (simp add: usable_def)
qed

text \<open>An entropy source that always answers what it is asked for.\<close>

definition healthy :: "(nat \<Rightarrow> entropy) \<Rightarrow> bool" where
  "healthy ent \<longleftrightarrow> (\<forall>k n. 0 < n \<longrightarrow> (\<exists>b. ent k n = (b, n, None) \<and> int (length b) = n))"

lemma healthy_id: "healthy ent \<Longrightarrow> \<exists>i. CorrelationID (ent k) = Inr i \<and> i \<noteq> ''''"
proof -
  assume "healthy ent"
  then obtain b where b: "ent k tokenBytes = (b, tokenBytes, None)" "int (length b) = tokenBytes"
    unfolding healthy_def by (metis tokenBytes_def zero_less_numeral)
  then have "length (b64_encode b) = 22" by (simp add: b64_encode_length tokenBytes_def)
  then have "b64_encode b \<noteq> ''''" by auto
  then show ?thesis using b by (simp add: CorrelationID_def token_def tokenBytes_def)
qed

lemma noop_registers:
  "\<exists>reg. Register noop_ID NewRegistry (Some h) = (reg, None)"
  by (simp add: Register_def NewRegistry_def noop_ID_def proto_defs Let_def)

lemma cli_engine_builds:
  "i \<noteq> '''' \<Longrightarrow> \<exists>eng. engine_New (cli_engine i) = Inr eng \<and> eo_Audit eng"
  by (simp add: engine_New_def cli_engine_def Let_def)

section \<open>Properties\<close>

text \<open>C39. The exit code of \<open>phantom validate\<close> is exact: 2 for an unusable command line or a file that
  does not exist, 1 for a file that cannot be read or decoded or that breaks a rule, and 0 exactly
  when the file satisfies every rule of the validator.\<close>

theorem validate_exit_code_is_exact:
  "snd (runValidate oor E V args) =
     (case usable oor validate_flags args of
        None \<Rightarrow> 2
      | Some (fv, file) \<Rightarrow>
          (case load_file E file of
             Inl e \<Rightarrow> if ce_notExist E e then 2 else 1
           | Inr raw \<Rightarrow> if acceptable V raw (flag_options fv) then 0 else 1))"
proof (cases "parse_flags oor validate_flags args flag_defaults")
  case (Inr x)
  obtain fv rest where x: "x = (fv, rest)" by (metis surj_pair)
  have v: "snd (case validate_with V raw (flag_options fv) of
      Inl verrs \<Rightarrow> renderValidationErrors path verrs (fv_asJSON fv)
    | Inr scn \<Rightarrow> renderSuccess path scn (fv_asJSON fv)) = (if acceptable V raw (flag_options fv) then 0 else 1)" for raw path
    using validate_with_error [of V raw "flag_options fv"]
    by (cases "validate_with V raw (flag_options fv)")
       (simp_all add: renderValidationErrors_def renderSuccess_def Let_def)
  show ?thesis
    by (cases "load_file E (flag_Arg rest 0)")
       (simp_all add: runValidate_def usable_def Inr x v renderDecodeError_def Let_def)
qed (simp add: runValidate_def usable_def)


section \<open>An example\<close>

definition demo_env :: cli_env where
  "demo_env = \<lparr>ce_stat = \<lambda>_. Inr 100, ce_open = \<lambda>_. None, ce_decode = \<lambda>_. Inr demo_raw,
     ce_notExist = \<lambda>_. False, ce_errText = \<lambda>_. ''error''\<rparr>"

definition demo_validator :: "unit validator" where
  "demo_validator = \<lparr>va_lib = demo_lib, va_builtins = demo_builtins, va_uni = \<lambda>s. s, va_capText = \<lambda>_. ''''\<rparr>"

definition demo_args :: "string list" where "demo_args = [''--json'', ''demo.yaml'']"

lemma demo_parse:
  "parse_flags oor validate_flags demo_args flag_defaults = Inr (flag_defaults\<lparr>fv_asJSON := True\<rparr>, [''demo.yaml''])"
proof -
  have "parseOne oor validate_flags demo_args flag_defaults
      = Inr (flag_defaults\<lparr>fv_asJSON := True\<rparr>, [''demo.yaml''], True)"
    by (simp add: parseOne_def demo_args_def split_flag_def validate_flags_def bool_flags_def dos_flag_def
        set_flag_def ParseBool_def)
  moreover have "parseOne oor validate_flags [''demo.yaml''] fv = Inr (fv, [''demo.yaml''], False)" for fv
    by (simp add: parseOne_def)
  ultimately show ?thesis by (simp add: parse_flags.simps [of oor validate_flags])
qed


lemma demo_load: "load_file demo_env f = Inr demo_raw"
  by (simp add: load_file_def demo_env_def Load_def maxFileBytes_def)

lemma demo_acceptable: "acceptable demo_validator demo_raw (flag_options (flag_defaults\<lparr>fv_asJSON := True\<rparr>))"
proof -
  have "flag_options (flag_defaults\<lparr>fv_asJSON := True\<rparr>) = demo_opts"
    by (simp add: flag_options_def flag_defaults_def demo_opts_def)
  then show ?thesis using demo_file_ok by (simp add: acceptable_def demo_validator_def)
qed

lemma demo_prepare:
  obtains scn where "run_prepare oor demo_env demo_validator demo_args = Inr (flag_defaults\<lparr>fv_asJSON := True\<rparr>, scn)"
    "validate_with demo_validator demo_raw (flag_options (flag_defaults\<lparr>fv_asJSON := True\<rparr>)) = Inr scn"
proof -
  obtain scn where v: "validate_with demo_validator demo_raw (flag_options (flag_defaults\<lparr>fv_asJSON := True\<rparr>)) = Inr scn"
    using demo_acceptable validate_with_cases by blast
  have "parse_flags oor run_flags demo_args flag_defaults = Inr (flag_defaults\<lparr>fv_asJSON := True\<rparr>, [''demo.yaml''])"
    by (rule parse_more_flags [OF _ demo_parse]) (auto simp: run_flags_def)
  then show ?thesis using v that
    by (simp add: run_prepare_def flag_Arg_def loadValidatedScenario_def demo_load flag_defaults_def)
qed


section \<open>One caller\<close>

text \<open>The command line is the only caller of its run, and calls it at most once. A thread of the
  completion is \<open>quiet_pc\<close>; the thread of the one \<open>Stop\<close>, listed in \<open>K\<close>, returns only when the run
  is done.\<close>

definition over :: "State set" where
  "over = {StateStopped, StateCompleting, StateCompleted}"

definition quiet_pc :: "lc_pc \<Rightarrow> bool" where
  "quiet_pc p \<longleftrightarrow> p \<in> {CompTrans, CompCancel, CompWait, CompFinal, CompSignal} \<or> (\<exists>r. p = Returned r)"

fun stop_pc :: "lc_sys \<Rightarrow> lc_pc \<Rightarrow> bool" where
  "stop_pc y (StopLoad e) \<longleftrightarrow> rn_state (lc_run y) \<in> over"
| "stop_pc y (Returned r) \<longleftrightarrow> lc_done y"
| "stop_pc y p \<longleftrightarrow> p \<in> {StopTrans, StopAwait, StopCancel, StopWait, StopFinal, StopSignal}"

definition served :: "nat set \<Rightarrow> lc_sys \<Rightarrow> bool" where
  "served K y \<longleftrightarrow> lc_inv y \<and> rn_state (lc_run y) \<in> insert StateRunning (insert StateStopping over)
     \<and> (\<forall>j < length (lc_pcs y). j \<notin> K \<longrightarrow> quiet_pc (lc_pcs y ! j))
     \<and> (\<forall>j \<in> K. j < length (lc_pcs y) \<and> stop_pc y (lc_pcs y ! j))"

text \<open>The events other than a call.\<close>

fun no_call :: "lc_event \<Rightarrow> bool" where
  "no_call (Invoke a) = False"
| "no_call e = True"

lemma stop_pc_mono:
  "stop_pc y p \<Longrightarrow> (rn_state (lc_run y) \<in> over \<Longrightarrow> rn_state (lc_run y') \<in> over) \<Longrightarrow> (lc_done y \<Longrightarrow> lc_done y') \<Longrightarrow>
     stop_pc y' p"
  by (cases p) simp_all

lemma served_update:
  assumes "served K y" "lc_inv y'" "lc_pcs y' = (lc_pcs y)[i := p]" "i < length (lc_pcs y)"
    and "rn_state (lc_run y') \<in> insert StateRunning (insert StateStopping over)"
    and "rn_state (lc_run y) \<in> over \<Longrightarrow> rn_state (lc_run y') \<in> over" and "lc_done y \<Longrightarrow> lc_done y'"
    and "i \<notin> K \<Longrightarrow> quiet_pc p" "i \<in> K \<Longrightarrow> stop_pc y' p"
  shows "served K y'"
  unfolding served_def
proof (intro conjI allI impI ballI)
  fix j assume "j < length (lc_pcs y')" "j \<notin> K"
  then show "quiet_pc (lc_pcs y' ! j)" using assms(1,3,8) by (cases "j = i") (auto simp: served_def)
next
  fix j assume "j \<in> K"
  then show "stop_pc y' (lc_pcs y' ! j)" using assms(1,3,4,9) stop_pc_mono [OF _ assms(6,7)]
    by (cases "j = i") (auto simp: served_def)
qed (use assms in \<open>auto simp: served_def\<close>)

lemma served_goto:
  assumes "served K y" "i < length (lc_pcs y)" "lc_inv (goto z i p)" "lc_pcs z = lc_pcs y"
    and "rn_state (lc_run z) \<in> insert StateRunning (insert StateStopping over)"
    and "rn_state (lc_run y) \<in> over \<Longrightarrow> rn_state (lc_run z) \<in> over" and "lc_done y \<Longrightarrow> lc_done z"
    and "i \<notin> K \<Longrightarrow> quiet_pc p" "i \<in> K \<Longrightarrow> stop_pc z p"
  shows "served K (goto z i p)"
  by (rule served_update [OF assms(1,3) _ assms(2)])
     (use assms(4-9) in \<open>auto intro: stop_pc_mono [of z p]\<close>)

lemma not_stopping:
  assumes "served {k} y" "lc_pcs y ! k = StopTrans" shows "rn_state (lc_run y) \<noteq> StateStopping"
proof
  assume "rn_state (lc_run y) = StateStopping"
  then have "count_if stop_phase (lc_pcs y) \<noteq> 0"
    using assms(1) by (simp add: served_def lc_inv_def driver_ok_def)
  then obtain j where "j < length (lc_pcs y)" "stop_phase (lc_pcs y ! j)"
    unfolding count_if_0 list_all_length by auto
  then show False using assms by (cases "j = k") (auto simp: served_def quiet_pc_def)
qed

lemma served_move:
  assumes "served K y" "K \<subseteq> {k}" "i < length (lc_pcs y)" "lc_move t i y (lc_pcs y ! i) = Some y'" "lc_inv y'"
  shows "served K y'"
proof -
  have st: "rn_state (lc_run y) \<in> insert StateRunning (insert StateStopping over)"
    using assms(1) by (simp add: served_def)
  have inv: "lc_inv y" using assms(1) by (simp add: served_def)
  have kind: "i \<notin> K \<Longrightarrow> quiet_pc (lc_pcs y ! i)" "i \<in> K \<Longrightarrow> stop_pc y (lc_pcs y ! i) \<and> K = {i}"
    using assms(1-3) by (auto simp: served_def)
  have ph: "lc_pcs y ! i = StopFinal \<Longrightarrow> rn_state (lc_run y) = StateStopping"
    "lc_pcs y ! i = CompFinal \<Longrightarrow> rn_state (lc_run y) = StateCompleting"
    using driver_at [of y i] inv assms(3) by (simp_all add: lc_inv_def)
  note u = served_update [OF assms(1,5) _ assms(3)]
  show ?thesis
  proof (cases "lc_pcs y ! i")
    case StopTrans
    then have K: "K = {i}" using kind by (auto simp: quiet_pc_def)
    have ns: "rn_state (lc_run y) \<noteq> StateStopping"
      using not_stopping [of i y] assms(1) StopTrans by (simp add: K)
    show ?thesis
    proof (rule try_trans_cases [of y StateStopping i StopCancel StopLoad])
      assume m: "legal (rn_state (lc_run y)) StateStopping"
        "try_trans y i StateStopping StopCancel StopLoad
           = goto (y\<lparr>lc_run := fst (transitionTo (lc_run y) StateStopping)\<rparr>) i StopCancel"
        "rn_state (fst (transitionTo (lc_run y) StateStopping)) = StateStopping"
      have y': "y' = goto (y\<lparr>lc_run := fst (transitionTo (lc_run y) StateStopping)\<rparr>) i StopCancel"
        using assms(4) StopTrans m(2) by simp
      show ?thesis by (rule u [of StopCancel]) (use m K in \<open>auto simp: y' over_def\<close>)
    next
      fix e assume m: "\<not> legal (rn_state (lc_run y)) StateStopping"
        "try_trans y i StateStopping StopCancel StopLoad = goto y i (StopLoad e)"
      have y': "y' = goto y i (StopLoad e)" using assms(4) StopTrans m(2) by simp
      show ?thesis by (rule u [of "StopLoad e"]) (use m K ns st in \<open>auto simp: y' over_def\<close>)
    qed
  next
    case CompTrans
    then have "i \<notin> K" using kind by auto
    note K = this
    show ?thesis
    proof (rule try_trans_cases [of y StateCompleting i CompCancel "\<lambda>_. Returned None"])
      assume m: "legal (rn_state (lc_run y)) StateCompleting"
        "try_trans y i StateCompleting CompCancel (\<lambda>_. Returned None)
           = goto (y\<lparr>lc_run := fst (transitionTo (lc_run y) StateCompleting)\<rparr>) i CompCancel"
        "rn_state (fst (transitionTo (lc_run y) StateCompleting)) = StateCompleting"
      have y': "y' = goto (y\<lparr>lc_run := fst (transitionTo (lc_run y) StateCompleting)\<rparr>) i CompCancel"
        using assms(4) CompTrans m(2) by simp
      show ?thesis by (rule u [of CompCancel]) (use m K in \<open>auto simp: y' over_def quiet_pc_def\<close>)
    next
      fix e assume m: "try_trans y i StateCompleting CompCancel (\<lambda>_. Returned None) = goto y i (Returned None)"
      have y': "y' = goto y i (Returned None)" using assms(4) CompTrans m by simp
      show ?thesis by (rule u [of "Returned None"]) (use K st in \<open>auto simp: y' over_def quiet_pc_def\<close>)
    qed
  qed (use assms(4,5) kind ph st in
        \<open>auto intro!: served_goto [OF assms(1,3)] simp: over_def quiet_pc_def transitionTo_next split: if_splits\<close>)
qed

lemma served_step:
  assumes "served K y" "K \<subseteq> {k}" "no_call e" "lc_step y e = Some y'"
  shows "served K y'"
proof -
  have "lc_inv y" using assms(1) by (simp add: served_def)
  then have inv: "lc_inv y'" by (rule lc_inv_step [OF _ assms(4)])
  show ?thesis
  proof (cases e)
    case (Move i t)
    then show ?thesis using assms inv served_move [OF assms(1,2)] by (auto split: if_splits)
  next
    case WorkerExits
    then have "lc_pcs y' = lc_pcs y" "lc_run y' = lc_run y" "lc_done y' = lc_done y"
      using assms(4) by (auto split: if_splits)
    then show ?thesis using assms(1) inv stop_pc_mono [of y _ y'] by (auto simp: served_def)
  next
    case BlockEnds
    then have "\<exists>ps. lc_pcs y' = lc_pcs y @ ps \<and> list_all quiet_pc ps" "lc_run y' = lc_run y" "lc_done y' = lc_done y"
      using assms(4) by (auto simp: quiet_pc_def split: if_splits)
    then show ?thesis using assms(1) inv stop_pc_mono [of y _ y']
      by (auto simp: served_def nth_append list_all_length)
  next
    case (GraceFires i)
    then have *: "y' = goto (y\<lparr>lc_err := setErr (lc_err y) graceErr\<rparr>) i StopFinal" "i < length (lc_pcs y)"
      "lc_pcs y ! i = StopWait"
      using assms(4) by (auto simp: give_up_def split: if_splits)
    show ?thesis
      by (rule served_update [OF assms(1) inv _ *(2), of StopFinal])
         (use assms(1) * in \<open>auto simp: served_def quiet_pc_def\<close>)
  next
    case (CallerDone i err)
    then have *: "y' = goto (y\<lparr>lc_err := setErr (lc_err y) (callerErr err)\<rparr>) i StopFinal" "i < length (lc_pcs y)"
      "lc_pcs y ! i = StopWait"
      using assms(4) by (auto simp: give_up_def split: if_splits)
    show ?thesis
      by (rule served_update [OF assms(1) inv _ *(2), of StopFinal])
         (use assms(1) * in \<open>auto simp: served_def quiet_pc_def\<close>)
  qed (use assms(3) in simp)
qed

lemma served_exec:
  "served K y \<Longrightarrow> K \<subseteq> {k} \<Longrightarrow> list_all no_call es \<Longrightarrow> lc_exec y es = Some y' \<Longrightarrow> served K y'"
  by (induction es arbitrary: y) (auto split: option.splits intro: served_step)

lemma served_start: "served {} (lc_start i n b)"
  using lc_inv_start [of i n b] by (simp add: served_def lc_start_def transitionTo_next over_def)

lemma served_Stop:
  assumes "served {} y" "lc_step y (Invoke Stop) = Some y'"
  shows "served {length (lc_pcs y)} y'"
  using assms lc_inv_step [OF _ assms(2)]
  by (auto simp: served_def nth_append over_def)

lemma Start_view:
  assumes "Start expf oor R idErr opts sc so = Some (Inr run, so')" "eo_Audit opts"
  shows "\<exists>i n b. lifecycle_view run = lc_start i n b"
proof -
  obtain i so1 where i: "next_id CorrelationID so = (Inr i, so1)"
    using assms(1) by (auto simp: Start_def split: prod.splits sum.splits)
  let ?core = "\<lparr>rn_id = i, rn_state = StateIdle, rn_audit = True, rn_appended = []\<rparr>"
  obtain core where core: "transitionTo ?core StateRunning = (core, None)"
    using transitionTo_ok_iff [of ?core StateRunning] by (cases "transitionTo ?core StateRunning") simp
  have "ru_core run = core \<and> ru_gate run = newGate"
    using assms i core by (auto simp: Start_def startSupervisor_def Let_def bind_eq_Some_conv split: prod.splits)
  then have "lifecycle_view run = lc_start i (ru_wg run) (nat (ru_blocksLeft run))"
    using core by (simp add: lifecycle_view_def lc_start_def)
  then show ?thesis by blast
qed

lemma awaited_done:
  assumes "awaited (lc_start i n b) f = Some y" "list_all no_call (ft_before f)" "list_all no_call (ft_after f)"
  shows "lc_inv y \<and> lc_done y"
proof -
  obtain y1 where y1: "lc_exec (lc_start i n b) (ft_before f) = Some y1"
    using assms(1) by (auto simp: awaited_def bind_eq_Some_conv)
  have s1: "served {} y1" by (rule served_exec [OF served_start _ assms(2) y1]) simp
  show ?thesis
  proof (cases "ft_end f = RunOver")
    case True
    then have d: "lc_done y1" and y: "lc_exec y1 (ft_after f) = Some y"
      using assms(1) y1 by (auto simp: awaited_def bind_eq_Some_conv split: if_splits)
    have "served {} y \<and> lc_done y" if "served {} y0" "lc_done y0" "lc_exec y0 es = Some y" "list_all no_call es" for y0 es
      using that
    proof (induction es arbitrary: y0)
      case (Cons e es)
      obtain y1 where s: "lc_step y0 e = Some y1" "lc_exec y1 es = Some y" using Cons.prems(3) by (auto split: option.splits)
      have "lc_done y1" using s(1) Cons.prems(2,4)
        by (cases e) (auto simp: give_up_def try_trans_def goto_def split: if_splits option.splits elim!: lc_move.elims)
      then show ?case using Cons.IH [of y1] s served_step [OF Cons.prems(1) _ _ s(1), of 0] Cons.prems(4) by simp
    qed simp
    then show ?thesis using s1 d y assms(3) by (auto simp: served_def)
  next
    case False
    then have e: "awaitRun (ft_end f) = [Invoke Stop]" by (cases "ft_end f") simp_all
    obtain y2 where y2: "lc_step y1 (Invoke Stop) = Some y2" by simp
    obtain z where z: "lc_exec y2 (ft_after f) = Some z"
      "(case lc_pcs z ! length (lc_pcs y1) of Returned r \<Rightarrow> Some z | _ \<Rightarrow> None) = Some y"
      using assms(1) y1 y2 False by (auto simp: awaited_def e bind_eq_Some_conv)
    then have x: "lc_exec y2 (ft_after f) = Some y" "\<exists>r. lc_pcs y ! length (lc_pcs y1) = Returned r"
      by (cases "lc_pcs z ! length (lc_pcs y1)"; simp)+
    have "served {length (lc_pcs y1)} y"
      by (rule served_exec [OF served_Stop [OF s1 y2] _ assms(3) x(1)]) simp
    then show ?thesis using x(2) by (auto simp: served_def)
  qed
qed

lemma run_prepare_code: "run_prepare oor E V args = Inl (out, code) \<Longrightarrow> code \<noteq> 0"
  by (auto simp: run_prepare_def loadValidatedScenario_def Let_def split: sum.splits prod.splits option.splits if_splits)

lemma run_answers:
  assumes "run_prepare oor E V args = Inr (fv, scn)" "scenario_ok (flag_options fv) scn"
    and "total_rand R" "healthy (sr_ent so)"
  shows "\<exists>run. map_option snd (runRun expf oor R idErr E V fate_of so args)
        = map_option (\<lambda>y. if lc_err y = None then 0 else 1) (awaited (lifecycle_view run) (fate_of run))
    \<and> map bk_block (ru_blocks run) = sc_Blocks scn
    \<and> lifecycle_view run = lc_start (run_ID run) (ru_wg run) (length (sc_Blocks scn))"
proof -
  obtain a where a: "CorrelationID (sr_ent so 0) = Inr a" "a \<noteq> ''''" using healthy_id [OF assms(4)] by blast
  let ?so = "so\<lparr>sr_ent := \<lambda>k. sr_ent so (Suc k)\<rparr>"
  obtain i where i: "CorrelationID (sr_ent ?so 0) = Inr i" using healthy_id [OF assms(4), of "Suc 0"] by auto
  obtain reg where reg: "Register noop_ID NewRegistry (Some \<lparr>nh_Latency = 0, nh_Fail = False, nh_Panic = False\<rparr>) = (reg, None)"
    using noop_registers by blast
  obtain eng where eng: "engine_New (cli_engine a) = Inr eng" "eo_Audit eng" using cli_engine_builds [OF a(2)] by blast
  obtain run so' j n where run: "Start expf oor R idErr eng scn ?so = Some (Inr run, so')"
    "map bk_block (ru_blocks run) = sc_Blocks scn"
    "lifecycle_view run = lc_start j n (length (sc_Blocks scn))"
    using Start_answers [OF assms(2,3) i eng(2), of expf oor idErr] by (auto simp: Let_def)
  have view: "j = run_ID run" "n = ru_wg run"
    using arg_cong [OF run(3), of lc_workers] arg_cong [OF run(3), of "\<lambda>y. rn_id (lc_run y)"]
    by (simp_all add: lifecycle_view_def lc_start_def run_ID_def transitionTo_def Let_def)
  have "map_option snd (runRun expf oor R idErr E V fate_of so args)
      = map_option (\<lambda>y. if lc_err y = None then 0 else 1) (awaited (lifecycle_view run) (fate_of run))"
    by (cases "awaited (lifecycle_view run) (fate_of run)")
       (simp_all add: runRun_def assms(1) next_id_def a(1) reg eng(1) run(1) Let_def split: option.splits)
  then show ?thesis using run(2,3) view by blast
qed

text \<open>C3. End to end: over healthy entropy and a generator that answers, \<open>phantom run\<close> on a file that
  passes validation always starts its run, and when the wait for the run ends, the exit code tells
  exactly whether the run has recorded an error.\<close>

theorem run_of_a_valid_file_starts:
  assumes "run_prepare oor E V args = Inr (fv, scn)"
    and "load_file E file = Inr raw" "validate_with V raw (flag_options fv) = Inr scn"
    and "va_builtins V = loadBuiltins (va_lib V) dir rf dec"
    and "\<forall>rb \<in> set (raw_Scenarios raw). 0 \<le> rb_Weight rb" and "in_i64 (fv_agentCount fv)" and "total_rand R" and "healthy (sr_ent so)"
  shows "\<exists>run. map_option snd (runRun expf oor R idErr E V fate_of so args)
        = map_option (\<lambda>y. if lc_err y = None then 0 else 1) (awaited (lifecycle_view run) (fate_of run))
    \<and> map bk_block (ru_blocks run) = sc_Blocks scn
    \<and> lifecycle_view run = lc_start (run_ID run) (ru_wg run) (length (sc_Blocks scn))"
proof (rule run_answers [OF assms(1) _ assms(7,8)])
  show "scenario_ok (flag_options fv) scn"
    using assms(3) scenario_value_ok [OF _ assms(4,5), of "va_uni V" "flag_options fv"] assms(6)
    unfolding validate_with_cases acceptable_def by (auto simp: flag_options_def)
qed

text \<open>C4. Exit code 0 of \<open>phantom run\<close> is a promise: a scenario passed validation, its run was started,
  and when the command returns the run has reached a terminal state without an error and no
  goroutine of it is left. The run has no caller but the command.\<close>

theorem exit_zero_means_drained:
  assumes "runRun expf oor R idErr E V fate_of so args = Some (out, 0)"
    and "\<And>run. list_all no_call (ft_before (fate_of run)) \<and> list_all no_call (ft_after (fate_of run))"
  shows "\<exists>fv scn eng so1 run so2 y. run_prepare oor E V args = Inr (fv, scn)
     \<and> Start expf oor R idErr eng scn so1 = Some (Inr run, so2)
     \<and> awaited (lifecycle_view run) (fate_of run) = Some y
     \<and> lc_err y = None \<and> lc_workers y = 0 \<and> rn_state (lc_run y) \<in> {StateStopped, StateCompleted}"
proof -
  obtain fv scn where p: "run_prepare oor E V args = Inr (fv, scn)"
    using assms(1) by (cases "run_prepare oor E V args")
      (auto simp: runRun_def dest: run_prepare_code)
  obtain a so1 where a: "next_id CorrelationID so = (Inr a, so1)"
    using assms(1) p by (cases "next_id CorrelationID so"; cases "fst (next_id CorrelationID so)") (simp_all add: runRun_def)
  obtain reg where reg: "Register noop_ID NewRegistry (Some \<lparr>nh_Latency = 0, nh_Fail = False, nh_Panic = False\<rparr>) = (reg, None)"
    using noop_registers by blast
  obtain eng where eng: "engine_New (cli_engine a) = Inr eng"
    using assms(1) p a reg by (cases "engine_New (cli_engine a)") (simp_all add: runRun_def)
  obtain st so2 where st: "Start expf oor R idErr eng scn so1 = Some (st, so2)"
    using assms(1) p a reg eng by (auto simp: runRun_def bind_eq_Some_conv)
  then obtain run where run: "Start expf oor R idErr eng scn so1 = Some (Inr run, so2)"
    using assms(1) p a reg eng by (cases st) (simp_all add: runRun_def)
  obtain y where y: "awaited (lifecycle_view run) (fate_of run) = Some y" "lc_err y = None"
    using assms(1) p a reg eng run by (auto simp: runRun_def Let_def bind_eq_Some_conv split: option.splits)
  have "eo_Audit eng"
    using eng by (auto simp: engine_New_def engineOptions_def cli_engine_def Let_def split: if_splits)
  then obtain i n b where v: "lifecycle_view run = lc_start i n b" using Start_view [OF run] by blast
  have "lc_inv y \<and> lc_done y" using awaited_done [of i n b "fate_of run" y] y(1) v assms(2) by simp
  then have "lc_workers y = 0 \<and> rn_state (lc_run y) \<in> {StateStopped, StateCompleted}"
    using y(2) by (auto simp: lc_inv_def drained_ok_def done_ok_def)
  then show ?thesis using p run y by blast
qed

section \<open>An example of a run\<close>

text \<open>A run stopped by a signal, whose workers all leave in time.\<close>

definition demo_fate :: "StatsSnapshot \<Rightarrow> nat \<Rightarrow> fate" where
  "demo_fate snap n = \<lparr>ft_before = [], ft_end = Signalled,
     ft_after = Move 0 0 # Move 0 0 # replicate n WorkerExits @ [Move 0 0, Move 0 0, Move 0 0], ft_snap = snap\<rparr>"

lemma workers_leave:
  "lc_exec y (replicate (lc_workers y) WorkerExits @ es) = lc_exec (y\<lparr>lc_workers := 0\<rparr>) es"
proof (induction "lc_workers y" arbitrary: y)
  case (Suc n)
  then have "lc_exec (y\<lparr>lc_workers := n\<rparr>) (replicate n WorkerExits @ es) = lc_exec (y\<lparr>lc_workers := 0\<rparr>) es"
    using Suc.hyps(1) [of "y\<lparr>lc_workers := n\<rparr>"] by simp
  then show ?case using Suc.hyps(2) by (simp flip: Suc.hyps(2))
next
  case 0
  then have same: "y\<lparr>lc_workers := 0\<rparr> = y" by (cases y) simp
  show ?case unfolding same 0 [symmetric] by simp
qed

lemma lc_exec_append: "lc_exec y (es @ fs) = Option.bind (lc_exec y es) (\<lambda>z. lc_exec z fs)"
  by (induction es arbitrary: y) (simp_all split: option.splits)

lemma demo_awaited: "\<exists>y. awaited (lc_start i n b) (demo_fate snap n) = Some y \<and> lc_err y = None"
proof -
  let ?es = "[Invoke Stop, Move 0 0, Move 0 0]"
  define z where "z = the (lc_exec (lc_start i n b) ?es)"
  have z: "lc_exec (lc_start i n b) ?es = Some z" "lc_workers z = n"
    unfolding z_def by (simp_all add: run_lc)
  have f: "lc_exec (z\<lparr>lc_workers := 0\<rparr>) [Move 0 0, Move 0 0, Move 0 0] \<noteq> None"
    "lc_err (the (lc_exec (z\<lparr>lc_workers := 0\<rparr>) [Move 0 0, Move 0 0, Move 0 0])) = None"
    "lc_pcs (the (lc_exec (z\<lparr>lc_workers := 0\<rparr>) [Move 0 0, Move 0 0, Move 0 0])) = [Returned None]"
    unfolding z_def by (simp_all add: run_lc)
  then obtain y where y: "lc_exec (z\<lparr>lc_workers := 0\<rparr>) [Move 0 0, Move 0 0, Move 0 0] = Some y"
    "lc_err y = None" "lc_pcs y = [Returned None]" by auto
  have e: "lc_exec (lc_start i n b) (awaitRun Signalled @ ft_after (demo_fate snap n)) = Some y"
    using lc_exec_append [of "lc_start i n b" ?es "replicate n WorkerExits @ [Move 0 0, Move 0 0, Move 0 0]"]
      workers_leave [of z "[Move 0 0, Move 0 0, Move 0 0]"] z y(1)
    by (simp add: demo_fate_def del: lc_exec.simps)
  have l: "ft_end (demo_fate snap n) = Signalled" "ft_before (demo_fate snap n) = []" "lc_pcs (lc_start i n b) = []"
    by (simp_all add: demo_fate_def lc_start_def)
  have "awaited (lc_start i n b) (demo_fate snap n) = Some y"
    using y(3) unfolding awaited_def l(1,2) by (simp add: e del: awaitRun.simps) (simp add: l(3))
  then show ?thesis using y(2) by blast
qed

lemma demo_facts:
  "va_builtins demo_validator = loadBuiltins (va_lib demo_validator) (Inr [''reader.yaml''])
     (\<lambda>_. Inr '''') (\<lambda>_. Inr demo_raw_persona)"
  "\<forall>rb \<in> set (raw_Scenarios demo_raw). 0 \<le> rb_Weight rb" 
  "in_i64 (fv_agentCount (flag_defaults\<lparr>fv_asJSON := True\<rparr>))" "healthy (sr_ent demo_sources)"
  by (simp_all add: demo_validator_def demo_builtins_def demo_raw_def demo_block_def flag_defaults_def in_i64_numeral healthy_def demo_sources_def zeros_def)

definition demo_snapshot :: StatsSnapshot where
  "demo_snapshot = \<lparr>ss_At = 0, ss_Requests = 3, ss_Successes = 2, ss_Failures = 1, ss_Reconnects = 0, ss_Panics = 0,
     ss_BytesIn = 0, ss_BytesOut = 0, ss_ActiveConns = 0, ss_CapSaturationPct = Fin 0, ss_LatencyP50 = 0, ss_LatencyP90 = 0,
     ss_LatencyP99 = 0, ss_PerTarget = (\<lambda>_. None)\<rparr>"

definition demo_runs :: "StatsSnapshot \<Rightarrow> (cli_event list \<times> int) option" where
  "demo_runs snap = runRun (\<lambda>x. x) (\<lambda>_. 0) tireless (\<lambda>_. OtherError ''id'' []) demo_env demo_validator
     (\<lambda>run. demo_fate snap (ru_wg run)) demo_sources demo_args"

theorem run_of_a_valid_file_starts_witness:
  "\<exists>out. demo_runs demo_snapshot = Some (out, 0)"
proof -
  let ?fv = "flag_defaults\<lparr>fv_asJSON := True\<rparr>"
  obtain scn where p: "run_prepare (\<lambda>_. 0) demo_env demo_validator demo_args = Inr (?fv, scn)"
    "validate_with demo_validator demo_raw (flag_options ?fv) = Inr scn" by (rule demo_prepare)
  obtain run :: "(unit, unit) Run" where "map_option snd (demo_runs demo_snapshot)
      = map_option (\<lambda>y. if lc_err y = None then 0 else 1) (awaited (lifecycle_view run) (demo_fate demo_snapshot (ru_wg run)))"
    "lifecycle_view run = lc_start (run_ID run) (ru_wg run) (length (sc_Blocks scn))"
    using run_of_a_valid_file_starts [OF p(1) demo_load p(2) demo_facts(1-3) tireless_total demo_facts(4),
        of "\<lambda>x. x" "\<lambda>_. OtherError ''id'' []" "\<lambda>run. demo_fate demo_snapshot (ru_wg run)"]
    unfolding demo_runs_def by blast
  then have "map_option snd (demo_runs demo_snapshot) = Some 0"
    using demo_awaited [of "run_ID run" "ru_wg run" "length (sc_Blocks scn)" demo_snapshot] by auto
  then show ?thesis by auto
qed

theorem exit_zero_means_drained_witness:
  "\<exists>out (run :: (unit, unit) Run) y. demo_runs demo_snapshot = Some (out, 0)
     \<and> awaited (lifecycle_view run) (demo_fate demo_snapshot (ru_wg run)) = Some y
     \<and> lc_workers y = 0 \<and> lc_err y = None"
proof -
  let ?fv = "flag_defaults\<lparr>fv_asJSON := True\<rparr>"
  obtain scn where p: "run_prepare (\<lambda>_. 0) demo_env demo_validator demo_args = Inr (?fv, scn)"
    "validate_with demo_validator demo_raw (flag_options ?fv) = Inr scn" by (rule demo_prepare)
  have "scenario_ok (flag_options ?fv) scn"
    using p(2) scenario_value_ok [OF _ demo_facts(1,2), of "va_uni demo_validator" "flag_options ?fv"] demo_facts(3)
    unfolding validate_with_cases acceptable_def by (auto simp: flag_options_def)
  then obtain run :: "(unit, unit) Run" where "map_option snd (demo_runs demo_snapshot)
      = map_option (\<lambda>y. if lc_err y = None then 0 else 1) (awaited (lifecycle_view run) (demo_fate demo_snapshot (ru_wg run)))"
    "lifecycle_view run = lc_start (run_ID run) (ru_wg run) (length (sc_Blocks scn))"
    using run_answers [OF p(1) _ tireless_total demo_facts(4),
        of "\<lambda>x. x" "\<lambda>_. OtherError ''id'' []" "\<lambda>run. demo_fate demo_snapshot (ru_wg run)"]
    unfolding demo_runs_def by blast
  then have "map_option snd (demo_runs demo_snapshot) = Some 0"
    using demo_awaited [of "run_ID run" "ru_wg run" "length (sc_Blocks scn)" demo_snapshot] by auto
  then obtain out where out: "demo_runs demo_snapshot = Some (out, 0)" by auto
  have "list_all no_call (ft_before (demo_fate demo_snapshot n)) \<and> list_all no_call (ft_after (demo_fate demo_snapshot n))" for n
    by (simp add: demo_fate_def list_all_iff)
  then show ?thesis using exit_zero_means_drained [OF out [unfolded demo_runs_def]] out by blast
qed

end
