(* ===== verification/Spec2Isabelle.thy ===== *)
theory Spec2Isabelle
  imports Cli
begin

text \<open>
  A verification library for phantomTraffic, a generator of shaped and capped network traffic written
  in Go (\<open>cmd/phantom\<close>, \<open>internal/...\<close>). The program loads a scenario file, validates it against a
  set of safety rules, and runs it: virtual users draw actions from personas, every action passes a
  chain of guards before a protocol handler is called, and a supervisor paces, pauses, patches and
  drains the whole. The library holds one theory per component, each translated from the source; this
  theory imports them all.

  \<^bold>\<open>The parts, bottom up\<close>, each with the code it models:

  \<^item> \<open>Prelude\<close>: 64-bit wrap-around (\<open>i64\<close>), saturation, the collections of simplification rules and
    generic lemmas. \<open>GoStrings\<close>, \<open>GoParse\<close>, \<open>Float64\<close>: the pieces of the standard library the code
    computes with: strings, \<open>strconv\<close>, \<open>time.ParseDuration\<close>, and binary64 with its rounding written
    out over the rationals (infinities and NaN are values).
  \<^item> \<open>Clock\<close> (\<open>internal/clock\<close>): readings of an arbitrary clock, and the whole \<open>FakeClock\<close>.
    \<open>Pterr\<close> (\<open>internal/pterr\<close>): the error taxonomy. \<open>Secret\<close> (\<open>internal/secret\<close>). \<open>Rng\<close>
    (\<open>internal/rng\<close>): randomness as state passing operations that may fail to answer (a panic).
  \<^item> \<open>Protocols\<close>, \<open>Handler\<close> (\<open>internal/protocols\<close>): targets, the default-deny allowlist, actions,
    results, the registry and the session handed to a handler.
  \<^item> \<open>Caps\<close>, \<open>Tripwire\<close>, \<open>Breaker\<close>, \<open>Limiter\<close> (\<open>internal/safety\<close>): caps and ceilings, the latch that
    stops a run, the circuit breaker of a target, the two-tier token buckets.
  \<^item> \<open>AuditLog\<close> (\<open>internal/audit\<close>): the hash-chained log file, its replay and its verification.
    \<open>Idgen\<close> (\<open>internal/idgen\<close>): identifiers and the persisted identity of the host.
  \<^item> \<open>Shaping\<close>, \<open>Fingerprint\<close>, \<open>Session\<close> (\<open>internal/behavior\<close>): waits, profiles and the session of a
    virtual user. \<open>Persona\<close> (\<open>internal/persona\<close>): the persona files compiled into them.
  \<^item> \<open>ScenarioTypes\<close>, \<open>Validate\<close> (\<open>internal/scenario\<close>): the raw and the validated scenario and the
    nine sections of the validator. \<open>Schedule\<close> (\<open>internal/schedule\<close>): weekly windows.
  \<^item> \<open>Gate\<close>, \<open>Semaphore\<close>, \<open>Selector\<close>, \<open>Ramp\<close>, \<open>Stats\<close>, \<open>Histogram\<close>, \<open>Worker\<close>, \<open>Lifecycle\<close>, \<open>Patch\<close>,
    \<open>Supervisor\<close> (\<open>internal/engine\<close>): what a run is made of, its state machine, the live patch, and
    \<open>Start\<close> with the loops it launches.
  \<^item> \<open>Cli\<close> (\<open>cmd/phantom\<close>): flag parsing, \<open>phantom validate\<close> and \<open>phantom run\<close> down to the exit code.
\<close>

text \<open>
  \<^bold>\<open>How the code appears here.\<close> A struct is a record with the field names of the source under a short
  prefix, an enumeration or a closed interface is a datatype, a method is a function from the state to
  the new state and the answer. Go's \<open>int\<close>, \<open>int64\<close> and \<open>Duration\<close> are \<open>int\<close> with \<open>i64\<close> wherever
  the source computes without a bound of its own. An error is \<open>Inl\<close> or \<open>Some\<close> of a \<open>goerr\<close>; a panic, or a
  source of randomness that does not answer, is \<open>None\<close>. Code under a mutex is one step; lock-free code is
  one step per atomic access, and a claim about it quantifies over all interleavings (\<open>Tripwire\<close>,
  \<open>Semaphore\<close>, \<open>Lifecycle\<close>, the counters of \<open>Stats\<close>). In \<open>Worker\<close> the other goroutines of the run get a
  turn before every access of the worker to what it shares and before every handler call: in a turn they
  may change the limiter, the semaphore, the breakers and the statistics at will and trip the run, and
  what the worker itself does is recorded as a list of its own operations. A loop around a \<open>select\<close> consumes a list of what
  its select statements observe (\<open>Supervisor\<close>), so a run of the loop is a finite list and a claim that it
  ends says after which observations. \<open>runWorker\<close> of \<open>Worker\<close> has fuel, and its claims hold for every
  fuel; the retry loop recurses on the retries left. \<open>Schedule\<close> scans the eight days of the code
  (\<open>maxLookaheadDays\<close>), and \<open>next_transition_is_the_next_flip\<close> shows that eight are enough.

  \<^bold>\<open>Parameters.\<close> What is not in the repository is an argument: the YAML and JSON decoders, the file
  system, entropy, SHA-256, exponential and logarithm, the conversion of a float that is out of range,
  the zone data base, IDNA, the PCG generator. What the proofs need of them are named hypotheses
  (\<open>healthy\<close>, \<open>total_rand\<close>, \<open>json_ok\<close> of the JSON codec, the laws of the locales of \<open>AuditLog\<close> and \<open>Rng\<close>),
  and each has an instance. A rate declared as NaN passes validation: the claims about caps say what
  becomes of it.

  \<^bold>\<open>What is shown.\<close> End to end: a file that passes validation yields a well-formed scenario, \<open>Start\<close>
  builds the engine state from it, the command starts it, and exit code 0 means a drained run in a
  terminal state (\<open>Validate\<close>, \<open>Supervisor\<close>, \<open>Lifecycle\<close>, \<open>Cli\<close>). Safety: no action passes a guard it
  should not pass, a worker stays within its bounds, caps stay under their ceiling, a refusal leaks no
  budget, a patch raises nothing without its override and its audit event, and the log detects
  tampering. Concurrency: the latch, the semaphore, the gate, the counters and the life cycle under every
  interleaving. Equivalence and refinement: the retry loop, the rotation, the percentile, the block timer,
  the schedule and the validator each against an independent reference. Where the code departs from
  what it says, the lemma that shows it stands in the theory of its component (for instance
  \<open>trip_while_waiting_does_not_stop\<close>, \<open>hash_ignores_whole_wraps\<close>, \<open>completion_lost_to_a_pause\<close>, \<open>cancellation_wakeup_can_be_lost\<close>, \<open>long_duration_wraps\<close>).

  \<^bold>\<open>Not modelled.\<close> The real timers of the \<open>time\<close> package, \<open>slog\<close> and what it prints, the bytes the JSON
  encoder of the command line writes, the text of the messages of the \<open>flag\<close> package, the delivery of
  operating system signals. \<open>internal/dnscache\<close> and \<open>internal/cookie\<close> declare an interface and an empty
  type with no behaviour; the \<open>doc.go\<close> files hold comments only. Memory reclamation and data races below
  the atomic operations are outside the model, among them the write of a patch to the breaker map that
  workers read without a lock.
\<close>

end
